(* ===== verification/Wire_Enum.thy ===== *)
theory Wire_Enum
  imports Prelude
begin

section \<open>Enumerations with a one-byte wire form\<close>

text \<open>
  Gestures, buttons, message kinds and error codes all cross a byte boundary through a pair
  \<open>to_wire\<close>/\<open>from_wire\<close>. The contract of such a pair, and what a codec may conclude from
  it, is stated once here and interpreted for every enumeration.
\<close>

locale wire_enum =
  fixes to_wire :: "'a \<Rightarrow> 'w"
    and from_wire :: "'w \<Rightarrow> 'a option"
  assumes from_to: "from_wire (to_wire x) = Some x"
    and to_from: "from_wire w = Some x \<Longrightarrow> to_wire x = w"
begin

lemma from_eq_Some_iff: "from_wire w = Some x \<longleftrightarrow> w = to_wire x"
  using from_to to_from by auto

lemma to_wire_inject: "to_wire x = to_wire y \<longleftrightarrow> x = y"
  by (metis from_to option.inject)

lemma from_eq_None_iff: "from_wire w = None \<longleftrightarrow> w \<notin> range to_wire"
  by (metis from_to from_eq_Some_iff not_None_eq rangeE rangeI)

end

text \<open>The same contract where the decoder reports an error value.\<close>

locale wire_result =
  fixes to_wire :: "'a \<Rightarrow> 'w"
    and from_wire :: "'w \<Rightarrow> 'e + 'a"
  assumes ok_from_to: "from_wire (to_wire x) = Inr x"
    and ok_to_from: "from_wire w = Inr x \<Longrightarrow> to_wire x = w"

sublocale wire_result \<subseteq> en: wire_enum to_wire
  "\<lambda>w. case from_wire w of Inl _ \<Rightarrow> None | Inr x \<Rightarrow> Some x"
  by unfold_locales (auto simp: ok_from_to dest: ok_to_from split: sum.splits)

context wire_result
begin

lemma from_eq_Inr_iff: "from_wire w = Inr x \<longleftrightarrow> w = to_wire x"
  using ok_from_to ok_to_from by auto

end

end
