(* ===== verification/Float64.thy ===== *)
theory Float64
  imports Prelude
begin

section \<open>IEEE 754 binary64 as Rust's \<open>f64\<close>\<close>

text \<open>
  A double is its 64 bits. A magnitude is the low 63 bits read as a number, which orders
  the nonnegative doubles; \<open>f64_key\<close> adds the sign, so every comparison of the sources
  is a comparison of integers. Every finite double is a whole multiple of
  \<open>2 ^ -1074\<close>; \<open>mag_scaled\<close> is that multiple, and the arithmetic operations round
  the exact result, a quotient of naturals in those units, to nearest with ties to even.
  A result that is not a number is the canonical quiet NaN: the sources never look at a
  NaN's payload.
\<close>

type_synonym f64 = u64
type_synonym f32 = u32

named_theorems f64_simps \<open>evaluation of double precision operations\<close>

subsection \<open>Fields and comparisons\<close>

definition f64_mag :: "f64 \<Rightarrow> nat" where
  "f64_mag x = unat x mod 2 ^ 63"

definition f64_neg_sign :: "f64 \<Rightarrow> bool" where
  "f64_neg_sign x = (2 ^ 63 \<le> unat x)"

definition f64_inf_mag :: nat where
  "f64_inf_mag = 2047 * 2 ^ 52"

definition f64_is_nan :: "f64 \<Rightarrow> bool" where
  "f64_is_nan x = (f64_inf_mag < f64_mag x)"

definition f64_is_infinite :: "f64 \<Rightarrow> bool" where
  "f64_is_infinite x = (f64_mag x = f64_inf_mag)"

definition f64_is_finite :: "f64 \<Rightarrow> bool" where
  "f64_is_finite x = (f64_mag x < f64_inf_mag)"

definition f64_key :: "f64 \<Rightarrow> int" where
  "f64_key x = (if f64_neg_sign x then - int (f64_mag x) else int (f64_mag x))"

definition f64_lt :: "f64 \<Rightarrow> f64 \<Rightarrow> bool" where
  "f64_lt x y = (\<not> f64_is_nan x \<and> \<not> f64_is_nan y \<and> f64_key x < f64_key y)"

definition f64_le :: "f64 \<Rightarrow> f64 \<Rightarrow> bool" where
  "f64_le x y = (\<not> f64_is_nan x \<and> \<not> f64_is_nan y \<and> f64_key x \<le> f64_key y)"

definition f64_eq :: "f64 \<Rightarrow> f64 \<Rightarrow> bool" where
  "f64_eq x y = (\<not> f64_is_nan x \<and> \<not> f64_is_nan y \<and> f64_key x = f64_key y)"

definition f64_make :: "bool \<Rightarrow> nat \<Rightarrow> f64" where
  "f64_make neg m = of_nat (if neg then 2 ^ 63 + m else m)"

definition f64_nan :: f64 where
  "f64_nan = f64_make False (2047 * 2 ^ 52 + 2 ^ 51)"

definition f64_neg :: "f64 \<Rightarrow> f64" where
  "f64_neg x = f64_make (\<not> f64_neg_sign x) (f64_mag x)"

definition f64_abs :: "f64 \<Rightarrow> f64" where
  "f64_abs x = f64_make False (f64_mag x)"

text \<open>\<open>clamp\<close> panics unless the bounds are ordered; the panic is \<open>None\<close>.\<close>

definition f64_clamp :: "f64 \<Rightarrow> f64 \<Rightarrow> f64 \<Rightarrow> f64 option" where
  "f64_clamp x lo hi =
     (if f64_le lo hi
      then Some (let y = (if f64_lt x lo then lo else x) in if f64_lt hi y then hi else y)
      else None)"

definition f64_max :: "f64 \<Rightarrow> f64 \<Rightarrow> f64" where
  "f64_max x y = (if f64_is_nan x \<or> f64_lt x y then y else x)"

definition f64_min :: "f64 \<Rightarrow> f64 \<Rightarrow> f64" where
  "f64_min x y = (if f64_is_nan x \<or> f64_lt y x then y else x)"

definition f64_next_down :: "f64 \<Rightarrow> f64" where
  "f64_next_down x =
     (if f64_is_nan x \<or> f64_neg_sign x \<and> f64_is_infinite x then x
      else if f64_mag x = 0 then f64_make True 1
      else if f64_neg_sign x then f64_make True (f64_mag x + 1)
      else f64_make False (f64_mag x - 1))"

subsection \<open>Rounding and arithmetic\<close>

definition mag_scaled :: "nat \<Rightarrow> nat" where
  "mag_scaled b =
     (let e = b div 2 ^ 52; f = b mod 2 ^ 52
      in if e = 0 then f else (2 ^ 52 + f) * 2 ^ (e - 1))"

fun bit_len :: "nat \<Rightarrow> nat" where
  "bit_len n = (if n = 0 then 0 else Suc (bit_len (n div 2)))"

declare bit_len.simps [simp del]

definition round_half_even :: "nat \<Rightarrow> nat \<Rightarrow> nat" where
  "round_half_even n d =
     (let q = n div d; r = n mod d
      in if 2 * r < d \<or> 2 * r = d \<and> even q then q else Suc q)"

text \<open>The magnitude nearest to \<open>n / d\<close> units of \<open>2 ^ -1074\<close>.\<close>

definition round_exponent :: "nat \<Rightarrow> nat \<Rightarrow> nat" where
  "round_exponent n d = bit_len (n div d) - 53"

definition round_mag :: "nat \<Rightarrow> nat \<Rightarrow> nat" where
  "round_mag n d =
     min (round_exponent n d * 2 ^ 52 + round_half_even n (d * 2 ^ round_exponent n d))
       f64_inf_mag"

definition f64_scaled :: "f64 \<Rightarrow> int" where
  "f64_scaled x =
     (if f64_neg_sign x then - int (mag_scaled (f64_mag x)) else int (mag_scaled (f64_mag x)))"

definition f64_of_scaled :: "int \<Rightarrow> f64" where
  "f64_of_scaled s = f64_make (s < 0) (round_mag (nat \<bar>s\<bar>) 1)"

definition f64_add :: "f64 \<Rightarrow> f64 \<Rightarrow> f64" where
  "f64_add x y =
     (if f64_is_nan x \<or> f64_is_nan y then f64_nan
      else if f64_is_infinite x
      then (if f64_is_infinite y \<and> f64_neg_sign x \<noteq> f64_neg_sign y then f64_nan else x)
      else if f64_is_infinite y then y
      else if f64_scaled x + f64_scaled y = 0
      then f64_make (f64_neg_sign x \<and> f64_neg_sign y) 0
      else f64_of_scaled (f64_scaled x + f64_scaled y))"

definition f64_sub :: "f64 \<Rightarrow> f64 \<Rightarrow> f64" where
  "f64_sub x y = (if f64_is_nan y then f64_nan else f64_add x (f64_neg y))"

definition f64_mul :: "f64 \<Rightarrow> f64 \<Rightarrow> f64" where
  "f64_mul x y =
     (let neg = (f64_neg_sign x \<noteq> f64_neg_sign y)
      in if f64_is_nan x \<or> f64_is_nan y then f64_nan
         else if f64_is_infinite x \<or> f64_is_infinite y
         then (if f64_mag x = 0 \<or> f64_mag y = 0 then f64_nan else f64_make neg f64_inf_mag)
         else f64_make neg
           (round_mag (mag_scaled (f64_mag x) * mag_scaled (f64_mag y)) (2 ^ 1074)))"

definition f64_div :: "f64 \<Rightarrow> f64 \<Rightarrow> f64" where
  "f64_div x y =
     (let neg = (f64_neg_sign x \<noteq> f64_neg_sign y)
      in if f64_is_nan x \<or> f64_is_nan y then f64_nan
         else if f64_is_infinite x
         then (if f64_is_infinite y then f64_nan else f64_make neg f64_inf_mag)
         else if f64_is_infinite y then f64_make neg 0
         else if f64_mag y = 0
         then (if f64_mag x = 0 then f64_nan else f64_make neg f64_inf_mag)
         else f64_make neg
           (round_mag (mag_scaled (f64_mag x) * 2 ^ 1074) (mag_scaled (f64_mag y))))"

text \<open>An integer literal or \<open>f64::from\<close> of an integer.\<close>

definition f64_of_int :: "int \<Rightarrow> f64" where
  "f64_of_int i = f64_of_scaled (i * 2 ^ 1074)"

subsection \<open>Single precision\<close>

definition f32_mag :: "f32 \<Rightarrow> nat" where
  "f32_mag x = unat x mod 2 ^ 31"

definition f32_is_finite :: "f32 \<Rightarrow> bool" where
  "f32_is_finite x = (f32_mag x < 255 * 2 ^ 23)"

definition f32_is_nan :: "f32 \<Rightarrow> bool" where
  "f32_is_nan x = (255 * 2 ^ 23 < f32_mag x)"

definition f32_key :: "f32 \<Rightarrow> int" where
  "f32_key x = (if 2 ^ 31 \<le> unat x then - int (f32_mag x) else int (f32_mag x))"

definition f32_le :: "f32 \<Rightarrow> f32 \<Rightarrow> bool" where
  "f32_le x y = (\<not> f32_is_nan x \<and> \<not> f32_is_nan y \<and> f32_key x \<le> f32_key y)"

definition f32_eq :: "f32 \<Rightarrow> f32 \<Rightarrow> bool" where
  "f32_eq x y = (\<not> f32_is_nan x \<and> \<not> f32_is_nan y \<and> f32_key x = f32_key y)"

subsection \<open>Fields of a composed double\<close>

lemma f64_make_unat:
  assumes "m < 2 ^ 63"
  shows "unat (f64_make neg m) = (if neg then 2 ^ 63 + m else m)"
proof -
  have "unat (of_nat k :: f64) = k" if "k < 2 ^ 64" for k
    using that by (simp add: unat_of_nat take_bit_nat_eq_self)
  moreover have "(if neg then 2 ^ 63 + m else m) < (2 ^ 64 :: nat)"
    using assms by simp
  ultimately show ?thesis
    unfolding f64_make_def by blast
qed

lemma f64_mag_make [simp]: "m < 2 ^ 63 \<Longrightarrow> f64_mag (f64_make neg m) = m"
  by (simp add: f64_mag_def f64_make_unat)

lemma f64_neg_sign_make [simp]: "m < 2 ^ 63 \<Longrightarrow> f64_neg_sign (f64_make neg m) = neg"
  by (simp add: f64_neg_sign_def f64_make_unat)

lemma f64_mag_bound: "f64_mag x < 2 ^ 63"
  by (simp add: f64_mag_def)

lemma f64_inf_mag_bound [simp]: "f64_inf_mag < 9223372036854775808"
  by (simp add: f64_inf_mag_def)

lemma f64_key_make [simp]:
  "m < 2 ^ 63 \<Longrightarrow> f64_key (f64_make neg m) = (if neg then - int m else int m)"
  by (simp add: f64_key_def)

lemma f64_classes:
  "f64_is_finite x \<Longrightarrow> \<not> f64_is_nan x" "f64_is_finite x \<Longrightarrow> \<not> f64_is_infinite x"
  "f64_is_infinite x \<Longrightarrow> \<not> f64_is_nan x"
  by (auto simp: f64_is_finite_def f64_is_nan_def f64_is_infinite_def)

lemma f64_key_abs_bound: "f64_is_finite x \<longleftrightarrow> \<bar>f64_key x\<bar> < int f64_inf_mag"
  by (auto simp: f64_is_finite_def f64_key_def)

lemma f64_not_nan_iff: "\<not> f64_is_nan x \<longleftrightarrow> \<bar>f64_key x\<bar> \<le> int f64_inf_mag"
  by (auto simp: f64_is_nan_def f64_key_def)

subsection \<open>Rounding is monotone and exact on doubles\<close>

lemma bit_len_0 [simp]: "bit_len 0 = 0"
  by (subst bit_len.simps) simp

lemma bit_len_pos: "0 < n \<Longrightarrow> bit_len n = Suc (bit_len (n div 2))"
  by (subst bit_len.simps) simp

lemma bit_len_upper: "n < 2 ^ bit_len n"
proof (induction n rule: bit_len.induct)
  case (1 n)
  show ?case
  proof (cases "n = 0")
    case False
    with 1 have "n div 2 < 2 ^ bit_len (n div 2)" by simp
    then have "n < 2 ^ Suc (bit_len (n div 2))" by simp
    with False show ?thesis by (simp add: bit_len_pos)
  qed simp
qed

lemma bit_len_lower: "0 < n \<Longrightarrow> 2 ^ (bit_len n - 1) \<le> n"
proof (induction n rule: bit_len.induct)
  case (1 n)
  show ?case
  proof (cases "n div 2 = 0")
    case True
    with 1 show ?thesis by (simp add: bit_len_pos)
  next
    case False
    with 1 have "2 ^ (bit_len (n div 2) - 1) \<le> n div 2" by simp
    moreover from False have "0 < bit_len (n div 2)" by (simp add: bit_len_pos)
    ultimately have "2 ^ bit_len (n div 2) \<le> n"
      by (cases "bit_len (n div 2)") auto
    with 1 show ?thesis by (simp add: bit_len_pos)
  qed
qed

lemma bit_len_le_iff: "bit_len n \<le> k \<longleftrightarrow> n < 2 ^ k"
proof
  assume "bit_len n \<le> k"
  then have "2 ^ bit_len n \<le> (2 ^ k :: nat)" by simp
  with bit_len_upper [of n] show "n < 2 ^ k" by linarith
next
  assume n: "n < 2 ^ k"
  show "bit_len n \<le> k"
  proof (cases "n = 0")
    case False
    with n bit_len_lower [of n] have "2 ^ (bit_len n - 1) < (2 ^ k :: nat)" by linarith
    then show ?thesis by simp
  qed simp
qed

lemma bit_len_mono: "m \<le> n \<Longrightarrow> bit_len m \<le> bit_len n"
  using bit_len_upper [of n] by (simp add: bit_len_le_iff)

lemma bit_len_eqI: "2 ^ k \<le> n \<Longrightarrow> n < 2 ^ Suc k \<Longrightarrow> bit_len n = Suc k"
  using bit_len_le_iff [of n "Suc k"] bit_len_le_iff [of n k] by linarith

lemma mag_scaled_Suc: "mag_scaled b < mag_scaled (Suc b)"
proof (cases "Suc (b mod 2 ^ 52) = 2 ^ 52")
  case True
  then have d: "Suc b div 2 ^ 52 = Suc (b div 2 ^ 52)" and m: "Suc b mod 2 ^ 52 = 0"
    by (simp_all add: div_Suc mod_Suc)
  have f: "b mod 2 ^ 52 = 2 ^ 52 - 1"
    using True by simp
  show ?thesis
  proof (cases "b div 2 ^ 52")
    case 0
    with f have "b = 2 ^ 52 - 1" by (simp add: div_eq_0_iff)
    then show ?thesis by (simp add: mag_scaled_def)
  next
    case (Suc e)
    show ?thesis
      unfolding mag_scaled_def Let_def d m f Suc by simp
  qed
next
  case False
  then have "Suc b div 2 ^ 52 = b div 2 ^ 52" "Suc b mod 2 ^ 52 = Suc (b mod 2 ^ 52)"
    by (simp_all add: div_Suc mod_Suc)
  then show ?thesis by (simp add: mag_scaled_def Let_def)
qed

lemma strict_mono_mag_scaled: "strict_mono mag_scaled"
  by (simp add: strict_mono_Suc_iff mag_scaled_Suc)

lemmas mag_scaled_less_iff [simp] = strict_mono_less [OF strict_mono_mag_scaled]
lemmas mag_scaled_le_iff [simp] = strict_mono_less_eq [OF strict_mono_mag_scaled]
lemmas mag_scaled_eq_iff [simp] = strict_mono_eq [OF strict_mono_mag_scaled]

lemma mag_scaled_0 [simp]: "mag_scaled 0 = 0"
  by (simp add: mag_scaled_def)

lemma mag_scaled_eq_0_iff [simp]: "mag_scaled b = 0 \<longleftrightarrow> b = 0"
  using mag_scaled_eq_iff [of b 0] by simp

lemma round_half_even_bounds:
  "n div d \<le> round_half_even n d" "round_half_even n d \<le> Suc (n div d)"
  by (simp_all add: round_half_even_def Let_def)

lemma round_half_even_dvd: "d dvd n \<Longrightarrow> 0 < d \<Longrightarrow> round_half_even n d = n div d"
  by (simp add: round_half_even_def Let_def)

lemma div_le_div_cross:
  fixes n1 n2 d1 d2 :: nat
  assumes le: "n1 * d2 \<le> n2 * d1" and pos: "0 < d1" "0 < d2"
  shows "n1 div d1 \<le> n2 div d2"
proof -
  have "(n1 div d1) * d2 * d1 \<le> n1 * d2"
    by (metis div_times_less_eq_dividend mult.assoc mult.commute mult_le_mono1)
  also note le
  finally have "(n1 div d1) * d2 \<le> n2" using pos by simp
  with pos show ?thesis by (simp add: less_eq_div_iff_mult_less_eq)
qed

lemma round_half_even_mono:
  assumes le: "n1 * d2 \<le> n2 * d1" and pos: "0 < d1" "0 < d2"
  shows "round_half_even n1 d1 \<le> round_half_even n2 d2"
proof (cases "n1 div d1 = n2 div d2")
  case False
  with div_le_div_cross [OF assms] have "Suc (n1 div d1) \<le> n2 div d2" by simp
  with round_half_even_bounds(2) [of n1 d1] round_half_even_bounds(1) [of n2 d2]
  show ?thesis by linarith
next
  case True
  have split1: "n1 = n1 div d1 * d1 + n1 mod d1" and split2: "n2 = n2 div d2 * d2 + n2 mod d2"
    by simp_all
  have "n1 div d1 * d1 * d2 + n1 mod d1 * d2 \<le> n2 div d2 * d2 * d1 + n2 mod d2 * d1"
    using le split1 split2 by (metis distrib_right)
  then have r: "n1 mod d1 * d2 \<le> n2 mod d2 * d1"
    using True by (simp add: mult.assoc mult.commute [of d1 d2])
  have up: "d2 < 2 * (n2 mod d2)" if "d1 < 2 * (n1 mod d1)"
  proof -
    have "d1 * d2 < 2 * (n1 mod d1) * d2" using that pos by simp
    also have "\<dots> \<le> 2 * (n2 mod d2) * d1" using r by simp
    finally show ?thesis using pos by (simp add: mult.commute)
  qed
  have tie: "d2 \<le> 2 * (n2 mod d2)" if "d1 = 2 * (n1 mod d1)"
  proof -
    have "d1 * d2 = 2 * (n1 mod d1) * d2" using that by simp
    also have "\<dots> \<le> 2 * (n2 mod d2) * d1" using r by simp
    finally show ?thesis using pos by (simp add: mult.commute)
  qed
  show ?thesis
    using True up tie by (auto simp: round_half_even_def Let_def not_less)
qed

lemma round_exponent_mono:
  assumes "n1 * d2 \<le> n2 * d1" "0 < d1" "0 < d2"
  shows "round_exponent n1 d1 \<le> round_exponent n2 d2"
  using bit_len_mono [OF div_le_div_cross [OF assms]] by (simp add: round_exponent_def)

lemma round_significand_bounds:
  assumes "0 < d"
  shows "round_half_even n (d * 2 ^ round_exponent n d) \<le> 2 ^ 53"
    and "0 < round_exponent n d \<Longrightarrow> 2 ^ 52 \<le> round_half_even n (d * 2 ^ round_exponent n d)"
proof -
  let ?e = "round_exponent n d"
  have q: "n div (d * 2 ^ ?e) = n div d div 2 ^ ?e"
    by (simp add: div_mult2_eq)
  have "n div d < 2 ^ (53 + ?e)"
    unfolding bit_len_le_iff [symmetric] by (simp add: round_exponent_def)
  then have "n div (d * 2 ^ ?e) < 2 ^ 53"
    by (simp add: q less_mult_imp_div_less power_add)
  then show "round_half_even n (d * 2 ^ ?e) \<le> 2 ^ 53"
    using round_half_even_bounds(2) [of n "d * 2 ^ ?e"] by linarith
  assume e: "0 < ?e"
  then have "2 ^ (52 + ?e) \<le> n div d"
    using bit_len_le_iff [of "n div d" "52 + ?e"] by (auto simp: round_exponent_def not_less)
  then have "2 ^ 52 * 2 ^ ?e \<le> n div d"
    by (simp only: power_add)
  then have "2 ^ 52 \<le> n div (d * 2 ^ ?e)"
    by (simp add: q less_eq_div_iff_mult_less_eq)
  then show "2 ^ 52 \<le> round_half_even n (d * 2 ^ ?e)"
    using round_half_even_bounds(1) [of n "d * 2 ^ ?e"] by linarith
qed

lemma round_mag_mono:
  assumes le: "n1 * d2 \<le> n2 * d1" and pos: "0 < d1" "0 < d2"
  shows "round_mag n1 d1 \<le> round_mag n2 d2"
proof -
  let ?e1 = "round_exponent n1 d1" and ?e2 = "round_exponent n2 d2"
  let ?m1 = "round_half_even n1 (d1 * 2 ^ ?e1)" and ?m2 = "round_half_even n2 (d2 * 2 ^ ?e2)"
  have "?e1 * 2 ^ 52 + ?m1 \<le> ?e2 * 2 ^ 52 + ?m2"
  proof (cases "?e1 = ?e2")
    case True
    have "n1 * (d2 * 2 ^ ?e2) \<le> n2 * (d1 * 2 ^ ?e1)"
      using le True by (simp add: mult.assoc [symmetric])
    then have "?m1 \<le> ?m2"
      by (rule round_half_even_mono) (use pos in simp_all)
    with True show ?thesis by simp
  next
    case False
    with round_exponent_mono [OF assms] have lt: "Suc ?e1 \<le> ?e2" by simp
    then have "?e1 * 2 ^ 52 + ?m1 \<le> Suc ?e1 * 2 ^ 52 + 2 ^ 52"
      using round_significand_bounds(1) [OF pos(1), of n1] by simp
    also have "\<dots> \<le> ?e2 * 2 ^ 52 + 2 ^ 52"
      using mult_le_mono1 [OF lt, of "2 ^ 52"] by linarith
    also have "\<dots> \<le> ?e2 * 2 ^ 52 + ?m2"
      using round_significand_bounds(2) [OF pos(2), of n2] lt by simp
    finally show ?thesis .
  qed
  then show ?thesis
    by (simp add: round_mag_def min_le_iff_disj)
qed

lemma round_mag_le: "round_mag n d \<le> f64_inf_mag"
  by (simp add: round_mag_def)

lemma round_mag_bound [simp]: "round_mag n d < 9223372036854775808"
  using round_mag_le [of n d] f64_inf_mag_bound by linarith

lemma round_mag_exact: "b \<le> f64_inf_mag \<Longrightarrow> round_mag (mag_scaled b) 1 = b"
proof -
  assume b: "b \<le> f64_inf_mag"
  let ?e = "b div 2 ^ 52" and ?f = "b mod 2 ^ 52"
  have split: "b = ?e * 2 ^ 52 + ?f" by simp
  have f: "?f < 2 ^ 52" by simp
  show ?thesis
  proof (cases "?e \<le> 1")
    case True
    then have "b < 2 ^ 53" using split f by simp
    moreover have "mag_scaled b = b"
    proof (cases "?e = 0")
      case False
      with True have e: "?e = 1" by linarith
      have "2 ^ 52 + ?f = b" using split unfolding e by linarith
      then show ?thesis unfolding mag_scaled_def Let_def e by simp
    qed (use split in \<open>simp add: mag_scaled_def\<close>)
    ultimately show ?thesis
      using b bit_len_le_iff [of b 53]
      by (simp add: round_mag_def round_exponent_def round_half_even_dvd)
  next
    case False
    then obtain k where k: "?e = Suc k" "0 < k" by (cases ?e) auto
    have v: "mag_scaled b = (2 ^ 52 + ?f) * 2 ^ k"
      using k by (simp add: mag_scaled_def Let_def)
    have "2 ^ (52 + k) \<le> mag_scaled b"
      by (simp add: v power_add)
    moreover have "mag_scaled b < 2 ^ Suc (52 + k)"
      using f by (simp add: v power_add)
    ultimately have "bit_len (mag_scaled b) = Suc (52 + k)"
      by (rule bit_len_eqI)
    then have x: "round_exponent (mag_scaled b) 1 = k"
      by (simp add: round_exponent_def)
    have "round_half_even (mag_scaled b) (1 * 2 ^ k) = 2 ^ 52 + ?f"
      by (simp add: v round_half_even_dvd)
    then have "round_mag (mag_scaled b) 1 = min (k * 2 ^ 52 + (2 ^ 52 + ?f)) f64_inf_mag"
      unfolding round_mag_def x by simp
    also have "k * 2 ^ 52 + (2 ^ 52 + ?f) = b"
      using split unfolding k(1) by simp
    finally show ?thesis using b by simp
  qed
qed

subsection \<open>Order laws of the arithmetic operations\<close>

text \<open>
  \<open>f64_round_key\<close> is the key of a rounded integer in units of \<open>2 ^ -1074\<close>. It is
  monotone and fixes the scaled value of every double, which is all the geometry needs:
  an exact bound by a double survives rounding.
\<close>

definition f64_round_key :: "int \<Rightarrow> int" where
  "f64_round_key s = (if s < 0 then - int (round_mag (nat (- s)) 1) else int (round_mag (nat s) 1))"

lemma f64_key_of_scaled [simp]: "f64_key (f64_of_scaled s) = f64_round_key s"
  by (simp add: f64_of_scaled_def f64_round_key_def abs_if)

lemma f64_round_key_mono: "s \<le> t \<Longrightarrow> f64_round_key s \<le> f64_round_key t"
  using round_mag_mono [of "nat s" 1 "nat t" 1] round_mag_mono [of "nat (- t)" 1 "nat (- s)" 1]
  by (auto simp: f64_round_key_def intro: order_trans [of _ 0])

lemma f64_round_key_scaled: "\<not> f64_is_nan x \<Longrightarrow> f64_round_key (f64_scaled x) = f64_key x"
  using round_mag_exact [of "f64_mag x"]
  by (auto simp: f64_round_key_def f64_scaled_def f64_key_def f64_is_nan_def)

lemma f64_round_key_le_inf: "\<bar>f64_round_key s\<bar> \<le> int f64_inf_mag"
  by (simp add: f64_round_key_def round_mag_le)

lemma f64_scaled_le_iff: "f64_scaled x \<le> f64_scaled y \<longleftrightarrow> f64_key x \<le> f64_key y"
proof -
  have neg: "int a \<le> - int b \<longleftrightarrow> a = 0 \<and> b = 0" for a b by linarith
  show ?thesis
    by (auto simp: f64_scaled_def f64_key_def neg intro: order_trans [of _ 0])
qed

lemma f64_scaled_less_iff: "f64_scaled x < f64_scaled y \<longleftrightarrow> f64_key x < f64_key y"
  using f64_scaled_le_iff [of y x] by (simp add: not_le [symmetric])

lemma f64_scaled_eq_iff: "f64_scaled x = f64_scaled y \<longleftrightarrow> f64_key x = f64_key y"
  using f64_scaled_le_iff [of y x] f64_scaled_le_iff [of x y] by linarith

lemma f64_round_key_0 [simp]: "f64_round_key 0 = 0"
  using round_mag_exact [of 0] by (simp add: f64_round_key_def)

lemma f64_key_add:
  assumes "f64_is_finite x" "f64_is_finite y"
  shows "f64_key (f64_add x y) = f64_round_key (f64_scaled x + f64_scaled y)"
  using assms by (auto simp: f64_add_def f64_classes)

lemma f64_key_neg [simp]: "f64_key (f64_neg x) = - f64_key x"
  using f64_mag_bound [of x] by (simp add: f64_neg_def f64_key_def)

lemma f64_scaled_neg [simp]: "f64_scaled (f64_neg x) = - f64_scaled x"
  using f64_mag_bound [of x] by (simp add: f64_neg_def f64_scaled_def)

lemma f64_is_finite_neg [simp]: "f64_is_finite (f64_neg x) = f64_is_finite x"
  by (simp add: f64_key_abs_bound)

lemma f64_is_nan_neg [simp]: "f64_is_nan (f64_neg x) = f64_is_nan x"
  using f64_not_nan_iff [of x] f64_not_nan_iff [of "f64_neg x"] by auto

lemma f64_key_sub:
  assumes "f64_is_finite x" "f64_is_finite y"
  shows "f64_key (f64_sub x y) = f64_round_key (f64_scaled x - f64_scaled y)"
  using assms by (simp add: f64_sub_def f64_classes f64_key_add)

lemma f64_not_nan_of_key: "f64_key x = f64_round_key s \<Longrightarrow> \<not> f64_is_nan x"
  by (simp add: f64_not_nan_iff f64_round_key_le_inf)

subsection \<open>Integer constants\<close>

text \<open>
  A double holds an integer exactly when some magnitude scales to it; the literals of the
  sources are evaluated through this rule.
\<close>

lemma f64_of_int_exact:
  assumes "mag_scaled b = nat \<bar>i\<bar> * 2 ^ 1074" "b \<le> f64_inf_mag"
  shows "f64_of_int i = f64_make (i < 0) b"
proof -
  have "nat \<bar>i * 2 ^ 1074\<bar> = mag_scaled b"
    by (simp only: assms(1) abs_mult nat_mult_distrib abs_ge_zero nat_power_eq) simp
  moreover have "(i * 2 ^ 1074 < 0) = (i < 0)"
    by (simp add: mult_less_0_iff)
  ultimately show ?thesis
    using round_mag_exact [OF assms(2)] by (simp only: f64_of_int_def f64_of_scaled_def)
qed

lemma bit_len_numeral [simp]:
  "bit_len (Suc 0) = 1"
  "bit_len (numeral Num.One) = 1"
  "bit_len (numeral (Num.Bit0 k)) = bit_len (numeral k) + 1"
  "bit_len (numeral (Num.Bit1 k)) = bit_len (numeral k) + 1"
  by (simp_all add: bit_len_pos)

subsection \<open>The class of a result\<close>

text \<open>The literals \<open>0.0\<close> and \<open>1.0\<close>.\<close>

abbreviation (input) f64_zero :: f64 where "f64_zero \<equiv> 0"

definition f64_one :: f64 where "f64_one = 0x3FF0000000000000"

lemma f64_zero_facts [simp]:
  "f64_mag 0 = 0" "f64_key 0 = 0" "f64_is_finite 0" "\<not> f64_is_nan 0" "f64_scaled 0 = 0"
  by (simp_all add: f64_mag_def f64_key_def f64_is_finite_def f64_is_nan_def f64_inf_mag_def
      f64_scaled_def)

lemma f64_one_facts [simp]: "f64_key f64_one = 4607182418800017408" "f64_is_finite f64_one"
  by (simp_all add: f64_one_def f64_key_def f64_mag_def f64_neg_sign_def f64_is_finite_def
      f64_inf_mag_def)

lemma f64_key_0_iff: "f64_key x = 0 \<longleftrightarrow> f64_mag x = 0"
  by (simp add: f64_key_def)

lemma f64_lt_next_down:
  assumes "\<not> f64_is_nan x" "f64_is_finite y"
  shows "f64_le x (f64_next_down y) \<longleftrightarrow> f64_lt x y"
    and "\<not> f64_is_nan (f64_next_down y)" "f64_key (f64_next_down y) = f64_key y - 1"
proof -
  have y: "f64_mag y < f64_inf_mag" "f64_inf_mag = 9218868437227405312"
    using assms(2) by (simp_all add: f64_is_finite_def f64_inf_mag_def)
  then show key: "f64_key (f64_next_down y) = f64_key y - 1"
    by (auto simp: f64_next_down_def f64_is_nan_def f64_is_infinite_def f64_key_def)
  then show nan: "\<not> f64_is_nan (f64_next_down y)"
    using assms(2) y by (simp add: f64_not_nan_iff f64_key_abs_bound)
  show "f64_le x (f64_next_down y) \<longleftrightarrow> f64_lt x y"
    using assms key nan by (auto simp: f64_le_def f64_lt_def f64_classes)
qed

lemma f64_sub_pos:
  assumes "f64_is_finite x" "f64_is_finite y" "f64_key y < f64_key x"
  shows "\<not> f64_is_nan (f64_sub x y)" "0 < f64_key (f64_sub x y)"
proof -
  have key: "f64_key (f64_sub x y) = f64_round_key (f64_scaled x - f64_scaled y)"
    using assms by (simp add: f64_key_sub)
  then show "\<not> f64_is_nan (f64_sub x y)" by (rule f64_not_nan_of_key)
  have "1 \<le> f64_scaled x - f64_scaled y"
    using assms(3) f64_scaled_less_iff [of y x] by linarith
  then have "f64_round_key 1 \<le> f64_key (f64_sub x y)"
    unfolding key by (rule f64_round_key_mono)
  moreover have "f64_round_key 1 = 1"
    using round_mag_exact [of 1]
    by (simp add: f64_round_key_def mag_scaled_def f64_inf_mag_def)
  ultimately show "0 < f64_key (f64_sub x y)" by simp
qed

text \<open>Subtracting a nonnegative amount from a value never gives a larger one.\<close>

lemma f64_sub_le:
  assumes "f64_is_finite x" "f64_is_finite y" "0 \<le> f64_key y"
  shows "f64_key (f64_sub x y) \<le> f64_key x"
proof -
  have "0 \<le> f64_scaled y"
    using assms(3) f64_scaled_le_iff [of 0 y] by simp
  then have "f64_round_key (f64_scaled x - f64_scaled y) \<le> f64_round_key (f64_scaled x)"
    by (intro f64_round_key_mono) simp
  then show ?thesis
    using assms by (simp add: f64_key_sub f64_round_key_scaled f64_classes)
qed

lemma f64_make_not_nan: "m \<le> f64_inf_mag \<Longrightarrow> \<not> f64_is_nan (f64_make neg m)"
  using f64_inf_mag_bound f64_mag_make [of m neg] by (simp add: f64_is_nan_def del: f64_inf_mag_bound)

lemma f64_make_classes [simp]:
  "\<not> f64_is_nan (f64_make neg 0)" "\<not> f64_is_nan (f64_make neg f64_inf_mag)"
  "\<not> f64_is_nan (f64_make neg (round_mag n d))"
  by (simp_all add: f64_make_not_nan round_mag_le)

lemma f64_infinite_key: "f64_is_infinite x \<Longrightarrow> f64_key x \<noteq> 0"
  by (simp add: f64_is_infinite_def f64_key_def f64_inf_mag_def)

lemma f64_finite_or: "\<not> f64_is_finite x \<Longrightarrow> \<not> f64_is_nan x \<Longrightarrow> f64_is_infinite x"
  by (simp add: f64_is_finite_def f64_is_nan_def f64_is_infinite_def)

lemma f64_div_not_nan:
  assumes "f64_is_finite x" "\<not> f64_is_nan y" "0 < f64_key y"
  shows "\<not> f64_is_nan (f64_div x y)"
  using assms by (simp add: f64_div_def f64_classes Let_def f64_key_0_iff [symmetric])

lemma f64_mul_not_nan:
  assumes "\<not> f64_is_nan x" "f64_is_finite y" "0 < f64_key y"
  shows "\<not> f64_is_nan (f64_mul x y)"
  using assms
  by (simp add: f64_mul_def f64_classes Let_def f64_key_0_iff [symmetric] f64_infinite_key)

lemma f64_add_not_nan:
  assumes "f64_is_finite x" "\<not> f64_is_nan y"
  shows "\<not> f64_is_nan (f64_add x y)"
proof (cases "f64_is_finite y")
  case True
  then show ?thesis
    using assms f64_key_add f64_not_nan_of_key by blast
next
  case False
  then show ?thesis
    using assms f64_finite_or by (auto simp: f64_add_def f64_classes)
qed

lemma f64_clamp_in_range:
  assumes "f64_is_finite hi" "f64_lt lo hi" "\<not> f64_is_nan x"
  shows "\<exists>y. f64_clamp x lo (f64_next_down hi) = Some y \<and> f64_le lo y \<and> f64_lt y hi \<and>
    (f64_le lo x \<and> f64_lt x hi \<longrightarrow> y = x)"
  using assms f64_lt_next_down [of lo hi] f64_lt_next_down [of x hi]
  by (auto simp: f64_clamp_def f64_lt_def f64_le_def Let_def)

lemma f64_mul_commute: "f64_mul x y = f64_mul y x"
  by (simp only: f64_mul_def Let_def eq_commute [of "f64_neg_sign x" "f64_neg_sign y"]
      mult.commute [of "mag_scaled (f64_mag x)" "mag_scaled (f64_mag y)"]
      disj_commute [of "f64_is_nan x" "f64_is_nan y"]
      disj_commute [of "f64_is_infinite x" "f64_is_infinite y"]
      disj_commute [of "f64_mag x = 0" "f64_mag y = 0"])

lemma f64_not_le: "\<not> f64_is_nan x \<Longrightarrow> \<not> f64_is_nan y \<Longrightarrow> \<not> f64_le x y \<longleftrightarrow> f64_lt y x"
  by (auto simp: f64_le_def f64_lt_def)

lemma f64_between_finite:
  "f64_is_finite a \<Longrightarrow> f64_is_finite b \<Longrightarrow> f64_le a x \<Longrightarrow> f64_lt x b \<Longrightarrow> f64_is_finite x"
  unfolding f64_key_abs_bound f64_le_def f64_lt_def by linarith

text \<open>The definitions that evaluate an operation on given bits.\<close>

lemmas f64_compute = f64_is_finite_def f64_le_def f64_lt_def f64_eq_def f64_key_def f64_neg_sign_def f64_add_def
  f64_sub_def f64_neg_def f64_abs_def f64_mag_def f64_inf_mag_def f64_is_nan_def f64_is_infinite_def f64_scaled_def
  f64_of_scaled_def mag_scaled_def round_mag_def round_exponent_def round_half_even_def f64_make_def f64_one_def

end
