(* ===== verification/Core_Types.thy ===== *)
theory Core_Types
  imports Wire_Enum Float64
begin

section \<open>Identifiers and plain values of \<open>monhop-core/src/types.rs\<close>\<close>

text \<open>
  The identifiers every component shares. A device id is its sixteen bytes, a display id
  and a HID usage are machine words, a point is a pair of doubles with Rust's derived
  equality (so \<open>-0.0\<close> equals \<open>0.0\<close> and NaN equals nothing).
\<close>

type_synonym device_id = "u8 list"
type_synonym display_id = u64
type_synonym hid_usage = u16

definition hid_is_valid :: "hid_usage \<Rightarrow> bool" where
  "hid_is_valid u = (0x04 \<le> u \<and> u \<le> 0xA4 \<or> 0xE0 \<le> u \<and> u \<le> 0xE7)"

definition hid_is_modifier :: "hid_usage \<Rightarrow> bool" where
  "hid_is_modifier u = (0xE0 \<le> u \<and> u \<le> 0xE7)"

datatype platform = Windows | MacOs

datatype mouse_button = LeftButton | RightButton | MiddleButton | BackButton | ForwardButton

definition button_all :: "mouse_button list" where
  "button_all = [LeftButton, RightButton, MiddleButton, BackButton, ForwardButton]"

fun button_index :: "mouse_button \<Rightarrow> nat" where
  "button_index LeftButton = 0"
| "button_index RightButton = 1"
| "button_index MiddleButton = 2"
| "button_index BackButton = 3"
| "button_index ForwardButton = 4"

definition button_from_index :: "nat \<Rightarrow> mouse_button option" where
  "button_from_index i =
     (if i = 0 then Some LeftButton
      else if i = 1 then Some RightButton
      else if i = 2 then Some MiddleButton
      else if i = 3 then Some BackButton
      else if i = 4 then Some ForwardButton
      else None)"

type_synonym modifier_state = u8

abbreviation (input) LEFT_CONTROL :: u8 where "LEFT_CONTROL \<equiv> 1"
abbreviation (input) LEFT_SHIFT :: u8 where "LEFT_SHIFT \<equiv> 2"
abbreviation (input) LEFT_ALT :: u8 where "LEFT_ALT \<equiv> 4"
abbreviation (input) LEFT_META :: u8 where "LEFT_META \<equiv> 8"
abbreviation (input) RIGHT_CONTROL :: u8 where "RIGHT_CONTROL \<equiv> 16"
abbreviation (input) RIGHT_SHIFT :: u8 where "RIGHT_SHIFT \<equiv> 32"
abbreviation (input) RIGHT_ALT :: u8 where "RIGHT_ALT \<equiv> 64"
abbreviation (input) RIGHT_META :: u8 where "RIGHT_META \<equiv> 128"

definition modifier_contains :: "modifier_state \<Rightarrow> u8 \<Rightarrow> bool" where
  "modifier_contains s m = (s AND m = m)"

record point =
  pt_x :: f64
  pt_y :: f64

definition point_new :: "f64 \<Rightarrow> f64 \<Rightarrow> point" where
  "point_new x y = \<lparr>pt_x = x, pt_y = y\<rparr>"

definition point_is_finite :: "point \<Rightarrow> bool" where
  "point_is_finite p = (f64_is_finite (pt_x p) \<and> f64_is_finite (pt_y p))"

definition point_eq :: "point \<Rightarrow> point \<Rightarrow> bool" where
  "point_eq p q = (f64_eq (pt_x p) (pt_x q) \<and> f64_eq (pt_y p) (pt_y q))"

record monitor_identity =
  mon_vendor :: u16
  mon_product :: u16
  mon_serial :: u32

definition monitor_identity_new :: "u16 \<Rightarrow> u16 \<Rightarrow> u32 \<Rightarrow> monitor_identity option" where
  "monitor_identity_new vendor product serial =
     (if vendor = 0 \<or> product = 0 then None
      else Some \<lparr>mon_vendor = vendor, mon_product = product, mon_serial = serial\<rparr>)"

subsection \<open>Facts about the shared values\<close>

lemma point_new_sel [simp]: "pt_x (point_new x y) = x" "pt_y (point_new x y) = y"
  by (simp_all add: point_new_def)

lemma point_new_eta [simp]: "point_new (pt_x p) (pt_y p) = p"
  by (simp add: point_new_def)

lemma point_new_inject [simp]: "point_new a b = point_new c d \<longleftrightarrow> a = c \<and> b = d"
  by (simp add: point_new_def)

lemma hid_modifier_valid: "hid_is_modifier u \<Longrightarrow> hid_is_valid u"
  by (simp add: hid_is_modifier_def hid_is_valid_def)

lemma hid_is_modifier_cases:
  "hid_is_modifier u \<longleftrightarrow> u \<in> {0xE0, 0xE1, 0xE2, 0xE3, 0xE4, 0xE5, 0xE6, 0xE7}"
proof -
  have "unat u \<in> {224, 225, 226, 227, 228, 229, 230, 231} \<longleftrightarrow> 224 \<le> unat u \<and> unat u \<le> 231"
    by auto
  moreover have "u = of_nat k \<longleftrightarrow> unat u = k" if "k \<in> {224..231}" for k
    using that by (auto simp: unat_of_nat take_bit_nat_eq_self word_unat_eq_iff)
  ultimately show ?thesis
    by (simp add: hid_is_modifier_def word_le_nat_alt word_unat_eq_iff)
qed

lemma button_index_less: "button_index b < 5"
  by (cases b) simp_all

lemma button_all_nth: "button_all ! button_index b = b"
  by (cases b) (simp_all add: button_all_def)

lemma set_button_all [simp]: "set button_all = UNIV"
  by (auto simp: button_all_def) (metis mouse_button.exhaust)

lemma distinct_button_all [simp]: "distinct button_all"
  by (simp add: button_all_def)

instance mouse_button :: finite
  by standard (metis finite_set set_button_all)

text \<open>Buttons order as the derived \<open>Ord\<close> does: by declaration.\<close>

instantiation mouse_button :: linorder
begin

definition less_eq_mouse_button :: "mouse_button \<Rightarrow> mouse_button \<Rightarrow> bool" where
  "less_eq_mouse_button a b = (button_index a \<le> button_index b)"

definition less_mouse_button :: "mouse_button \<Rightarrow> mouse_button \<Rightarrow> bool" where
  "less_mouse_button a b = (button_index a < button_index b)"

instance
proof
  fix a b :: mouse_button
  assume "a \<le> b" "b \<le> a"
  then have "button_index a = button_index b"
    by (simp add: less_eq_mouse_button_def)
  then show "a = b"
    by (metis button_all_nth)
qed (auto simp: less_eq_mouse_button_def less_mouse_button_def)

end

interpretation button_index: wire_enum button_index button_from_index
proof unfold_locales
  show "button_from_index (button_index x) = Some x" for x
    by (cases x) (simp_all add: button_from_index_def)
  show "button_from_index w = Some x \<Longrightarrow> button_index x = w" for w x
    by (auto simp: button_from_index_def split: if_splits)
qed

end
