(* ===== verification/Gestures.thy ===== *)
theory Gestures
  imports Core_Types
begin

section \<open>Trackpad gestures: \<open>monhop-core/src/pointer.rs\<close>\<close>

text \<open>
  Gestures and the system actions they trigger, their wire bytes, and \<open>from_parts\<close>, the one
  validation rule that capture slots, wire frames and receivers share.
\<close>

abbreviation (input) MIN_MAGNIFY_DELTA :: f64 where "MIN_MAGNIFY_DELTA \<equiv> f64_of_int (-1)"
abbreviation (input) MAX_MAGNIFY_DELTA :: f64 where "MAX_MAGNIFY_DELTA \<equiv> f64_of_int 4"
abbreviation (input) MAX_ROTATE_DEGREES :: f64 where "MAX_ROTATE_DEGREES \<equiv> f64_of_int 180"

datatype gesture_phase = Began | Changed | Ended | Cancelled

fun gesture_phase_to_wire :: "gesture_phase \<Rightarrow> u8" where
  "gesture_phase_to_wire Began = 1"
| "gesture_phase_to_wire Changed = 2"
| "gesture_phase_to_wire Ended = 3"
| "gesture_phase_to_wire Cancelled = 4"

definition gesture_phase_from_wire :: "u8 \<Rightarrow> gesture_phase option" where
  "gesture_phase_from_wire v =
     (if v = 1 then Some Began
      else if v = 2 then Some Changed
      else if v = 3 then Some Ended
      else if v = 4 then Some Cancelled
      else None)"

fun gesture_phase_is_terminal :: "gesture_phase \<Rightarrow> bool" where
  "gesture_phase_is_terminal Ended = True"
| "gesture_phase_is_terminal Cancelled = True"
| "gesture_phase_is_terminal _ = False"

datatype gesture_kind = KMagnify | KRotate | KSmartMagnify | KForceClick

fun gesture_kind_to_wire :: "gesture_kind \<Rightarrow> u8" where
  "gesture_kind_to_wire KMagnify = 1"
| "gesture_kind_to_wire KRotate = 2"
| "gesture_kind_to_wire KSmartMagnify = 3"
| "gesture_kind_to_wire KForceClick = 4"

definition gesture_kind_from_wire :: "u8 \<Rightarrow> gesture_kind option" where
  "gesture_kind_from_wire v =
     (if v = 1 then Some KMagnify
      else if v = 2 then Some KRotate
      else if v = 3 then Some KSmartMagnify
      else if v = 4 then Some KForceClick
      else None)"

fun gesture_kind_is_discrete :: "gesture_kind \<Rightarrow> bool" where
  "gesture_kind_is_discrete KSmartMagnify = True"
| "gesture_kind_is_discrete KForceClick = True"
| "gesture_kind_is_discrete _ = False"

datatype pointer_gesture =
    Magnify gesture_phase f64
  | Rotate gesture_phase f64
  | SmartMagnify
  | ForceClick

datatype gesture_error = GestureShape | GestureNonFinite | GestureOutOfRange

definition gesture_from_parts ::
    "gesture_kind \<Rightarrow> gesture_phase option \<Rightarrow> f64 \<Rightarrow> gesture_error + pointer_gesture" where
  "gesture_from_parts kind phase value =
     (if gesture_kind_is_discrete kind
      then (if phase \<noteq> None \<or> value \<noteq> 0 then Inl GestureShape
            else Inr (if kind = KSmartMagnify then SmartMagnify else ForceClick))
      else (case phase of
          None \<Rightarrow> Inl GestureShape
        | Some ph \<Rightarrow>
            if \<not> f64_is_finite value then Inl GestureNonFinite
            else if kind = KMagnify
            then (if f64_le value MIN_MAGNIFY_DELTA \<or> f64_lt MAX_MAGNIFY_DELTA value
                  then Inl GestureOutOfRange
                  else Inr (Magnify ph value))
            else (if f64_lt MAX_ROTATE_DEGREES (f64_abs value) then Inl GestureOutOfRange
                  else Inr (Rotate ph value))))"

fun gesture_kind_of :: "pointer_gesture \<Rightarrow> gesture_kind" where
  "gesture_kind_of (Magnify _ _) = KMagnify"
| "gesture_kind_of (Rotate _ _) = KRotate"
| "gesture_kind_of SmartMagnify = KSmartMagnify"
| "gesture_kind_of ForceClick = KForceClick"

fun gesture_phase_of :: "pointer_gesture \<Rightarrow> gesture_phase option" where
  "gesture_phase_of (Magnify ph _) = Some ph"
| "gesture_phase_of (Rotate ph _) = Some ph"
| "gesture_phase_of SmartMagnify = None"
| "gesture_phase_of ForceClick = None"

fun gesture_value_of :: "pointer_gesture \<Rightarrow> f64" where
  "gesture_value_of (Magnify _ d) = d"
| "gesture_value_of (Rotate _ d) = d"
| "gesture_value_of SmartMagnify = 0"
| "gesture_value_of ForceClick = 0"

definition gesture_validate :: "pointer_gesture \<Rightarrow> gesture_error + unit" where
  "gesture_validate g =
     (case gesture_from_parts (gesture_kind_of g) (gesture_phase_of g) (gesture_value_of g) of
        Inr _ \<Rightarrow> Inr ()
      | Inl e \<Rightarrow> Inl e)"

datatype system_gesture =
    Overview | AppWindows | DesktopPrevious | DesktopNext | ShowDesktop | Launcher
  | NavigateBack | NavigateForward | NotificationCenter | Search
  | SwitchAppPrevious | SwitchAppNext

fun system_gesture_to_wire :: "system_gesture \<Rightarrow> u8" where
  "system_gesture_to_wire Overview = 1"
| "system_gesture_to_wire AppWindows = 2"
| "system_gesture_to_wire DesktopPrevious = 3"
| "system_gesture_to_wire DesktopNext = 4"
| "system_gesture_to_wire ShowDesktop = 5"
| "system_gesture_to_wire Launcher = 6"
| "system_gesture_to_wire NavigateBack = 7"
| "system_gesture_to_wire NavigateForward = 8"
| "system_gesture_to_wire NotificationCenter = 9"
| "system_gesture_to_wire Search = 10"
| "system_gesture_to_wire SwitchAppPrevious = 11"
| "system_gesture_to_wire SwitchAppNext = 12"

definition system_gesture_from_wire :: "u8 \<Rightarrow> system_gesture option" where
  "system_gesture_from_wire v =
     (if v = 1 then Some Overview
      else if v = 2 then Some AppWindows
      else if v = 3 then Some DesktopPrevious
      else if v = 4 then Some DesktopNext
      else if v = 5 then Some ShowDesktop
      else if v = 6 then Some Launcher
      else if v = 7 then Some NavigateBack
      else if v = 8 then Some NavigateForward
      else if v = 9 then Some NotificationCenter
      else if v = 10 then Some Search
      else if v = 11 then Some SwitchAppPrevious
      else if v = 12 then Some SwitchAppNext
      else None)"

subsection \<open>The wire contracts\<close>

interpretation gesture_phase: wire_enum gesture_phase_to_wire gesture_phase_from_wire
proof unfold_locales
  show "gesture_phase_from_wire (gesture_phase_to_wire x) = Some x" for x
    by (cases x) (simp_all add: gesture_phase_from_wire_def)
  show "gesture_phase_from_wire w = Some x \<Longrightarrow> gesture_phase_to_wire x = w" for w x
    by (auto simp: gesture_phase_from_wire_def split: if_splits)
qed

interpretation gesture_kind: wire_enum gesture_kind_to_wire gesture_kind_from_wire
proof unfold_locales
  show "gesture_kind_from_wire (gesture_kind_to_wire x) = Some x" for x
    by (cases x) (simp_all add: gesture_kind_from_wire_def)
  show "gesture_kind_from_wire w = Some x \<Longrightarrow> gesture_kind_to_wire x = w" for w x
    by (auto simp: gesture_kind_from_wire_def split: if_splits)
qed

interpretation system_gesture: wire_enum system_gesture_to_wire system_gesture_from_wire
proof unfold_locales
  show "system_gesture_from_wire (system_gesture_to_wire x) = Some x" for x
    by (cases x) (simp_all add: system_gesture_from_wire_def)
  show "system_gesture_from_wire w = Some x \<Longrightarrow> system_gesture_to_wire x = w" for w x
    by (auto simp: system_gesture_from_wire_def split: if_splits)
qed

lemma gesture_phase_to_wire_neq_0 [simp]: "gesture_phase_to_wire p \<noteq> 0"
  by (cases p) simp_all

subsection \<open>Validated gestures\<close>

text \<open>A gesture is valid when its parts rebuild it.\<close>

definition gesture_valid :: "pointer_gesture \<Rightarrow> bool" where
  "gesture_valid g = is_ok (gesture_validate g)"

lemma gesture_from_parts_parts:
  "gesture_from_parts k p v = Inr g \<Longrightarrow>
     gesture_kind_of g = k \<and> gesture_phase_of g = p \<and> gesture_value_of g = v"
  by (cases k) (auto simp: gesture_from_parts_def split: if_splits option.splits)

lemma gesture_from_own_parts:
  "gesture_from_parts (gesture_kind_of g) (gesture_phase_of g) (gesture_value_of g) = Inr h
   \<Longrightarrow> h = g"
  by (cases g) (auto simp: gesture_from_parts_def split: if_splits)

lemma gesture_valid_iff:
  "gesture_valid g \<longleftrightarrow>
     gesture_from_parts (gesture_kind_of g) (gesture_phase_of g) (gesture_value_of g) = Inr g"
  by (auto simp: gesture_valid_def gesture_validate_def is_ok_iff split: sum.splits
      dest: gesture_from_own_parts)

lemma gesture_from_parts_valid: "gesture_from_parts k p v = Inr g \<Longrightarrow> gesture_valid g"
  using gesture_from_parts_parts [of k p v g] by (simp add: gesture_valid_iff)

lemma gesture_from_parts_finite: "gesture_from_parts k p v = Inr g \<Longrightarrow> f64_is_finite v"
  by (auto simp: gesture_from_parts_def split: if_splits option.splits)

end
