(* ===== verification/Held_Input.thy ===== *)
theory Held_Input
  imports Core_Types
begin

section \<open>Held input and modifier semantics: \<open>monhop-core/src/input.rs\<close>\<close>

text \<open>
  The authoritative ledger of what is physically down and what the current destination has
  been told, the plans that move held input between destinations, and the emergency chord.
  Key and button sets are sets over finite types, so they are finite by construction;
  \<open>sorted_list_of_set\<close> is the iteration order of a \<open>BTreeSet\<close>.
\<close>

abbreviation (input) HID_ESCAPE :: hid_usage where "HID_ESCAPE \<equiv> 0x29"
abbreviation (input) HID_BACKSPACE :: hid_usage where "HID_BACKSPACE \<equiv> 0x2A"
abbreviation (input) HID_TAB :: hid_usage where "HID_TAB \<equiv> 0x2B"
abbreviation (input) HID_DELETE_FORWARD :: hid_usage where "HID_DELETE_FORWARD \<equiv> 0x4C"
abbreviation (input) HID_RIGHT_ARROW :: hid_usage where "HID_RIGHT_ARROW \<equiv> 0x4F"
abbreviation (input) HID_LEFT_ARROW :: hid_usage where "HID_LEFT_ARROW \<equiv> 0x50"
abbreviation (input) HID_LEFT_CONTROL :: hid_usage where "HID_LEFT_CONTROL \<equiv> 0xE0"
abbreviation (input) HID_RIGHT_CONTROL :: hid_usage where "HID_RIGHT_CONTROL \<equiv> 0xE4"

datatype modifier_side = LeftSide | RightSide

datatype semantic_modifier_kind = MControl | MShift | MAlternate | MSystem

record semantic_modifier =
  sm_side :: modifier_side
  sm_kind :: semantic_modifier_kind

definition semantic_modifier_usage :: "semantic_modifier \<Rightarrow> hid_usage" where
  "semantic_modifier_usage m =
     (let side = (case sm_side m of LeftSide \<Rightarrow> 0 | RightSide \<Rightarrow> 4);
          kind = (case sm_kind m of MControl \<Rightarrow> 0 | MShift \<Rightarrow> 1 | MAlternate \<Rightarrow> 2 | MSystem \<Rightarrow> 3)
      in 0xE0 + side + kind)"

datatype destination_modifier_key = DControl | DShift | DAlt | DOption | DSuper | DCommand

record destination_modifier =
  dm_side :: modifier_side
  dm_key :: destination_modifier_key

definition semantic_modifier :: "hid_usage \<Rightarrow> semantic_modifier option" where
  "semantic_modifier u =
     (if u = 0xE0 then Some \<lparr>sm_side = LeftSide, sm_kind = MControl\<rparr>
      else if u = 0xE1 then Some \<lparr>sm_side = LeftSide, sm_kind = MShift\<rparr>
      else if u = 0xE2 then Some \<lparr>sm_side = LeftSide, sm_kind = MAlternate\<rparr>
      else if u = 0xE3 then Some \<lparr>sm_side = LeftSide, sm_kind = MSystem\<rparr>
      else if u = 0xE4 then Some \<lparr>sm_side = RightSide, sm_kind = MControl\<rparr>
      else if u = 0xE5 then Some \<lparr>sm_side = RightSide, sm_kind = MShift\<rparr>
      else if u = 0xE6 then Some \<lparr>sm_side = RightSide, sm_kind = MAlternate\<rparr>
      else if u = 0xE7 then Some \<lparr>sm_side = RightSide, sm_kind = MSystem\<rparr>
      else None)"

fun destination_key :: "semantic_modifier_kind \<Rightarrow> platform \<Rightarrow> destination_modifier_key" where
  "destination_key MControl _ = DControl"
| "destination_key MShift _ = DShift"
| "destination_key MAlternate Windows = DAlt"
| "destination_key MAlternate MacOs = DOption"
| "destination_key MSystem Windows = DSuper"
| "destination_key MSystem MacOs = DCommand"

definition map_modifier_for_destination ::
    "hid_usage \<Rightarrow> platform \<Rightarrow> destination_modifier option" where
  "map_modifier_for_destination u destination =
     (case semantic_modifier u of
        None \<Rightarrow> None
      | Some m \<Rightarrow> Some \<lparr>dm_side = sm_side m, dm_key = destination_key (sm_kind m) destination\<rparr>)"

datatype input_action =
    KeyAction hid_usage bool bool "destination_modifier option"
    \<comment> \<open>usage, pressed, repeat, modifier\<close>
  | ButtonAction mouse_button bool

datatype input_error = InvalidHidUsage

record held_input =
  physical_keys :: "hid_usage set"
  physical_buttons :: "mouse_button set"
  delivered_keys :: "hid_usage set"
  delivered_buttons :: "mouse_button set"

definition held_input_default :: held_input where
  "held_input_default =
     \<lparr>physical_keys = {}, physical_buttons = {}, delivered_keys = {}, delivered_buttons = {}\<rparr>"

record transition_input_plan =
  release_outgoing :: "input_action list"
  transfer_incoming :: "input_action list"

definition validate_usage :: "hid_usage \<Rightarrow> input_error + unit" where
  "validate_usage u = (if hid_is_valid u then Inr () else Inl InvalidHidUsage)"

definition key_action :: "hid_usage \<Rightarrow> bool \<Rightarrow> bool \<Rightarrow> platform \<Rightarrow> input_action" where
  "key_action u pressed rep destination =
     KeyAction u pressed rep (map_modifier_for_destination u destination)"

definition modifier_mask :: "hid_usage \<Rightarrow> u8" where
  "modifier_mask u =
     (if u = 0xE0 then LEFT_CONTROL
      else if u = 0xE1 then LEFT_SHIFT
      else if u = 0xE2 then LEFT_ALT
      else if u = 0xE3 then LEFT_META
      else if u = 0xE4 then RIGHT_CONTROL
      else if u = 0xE5 then RIGHT_SHIFT
      else if u = 0xE6 then RIGHT_ALT
      else if u = 0xE7 then RIGHT_META
      else 0)"

definition held_key_down ::
    "hid_usage \<Rightarrow> platform \<Rightarrow> held_input \<Rightarrow> (input_error + input_action option) \<times> held_input" where
  "held_key_down u destination h =
     (case validate_usage u of
        Inl e \<Rightarrow> (Inl e, h)
      | Inr _ \<Rightarrow>
          (let already_physical = u \<in> physical_keys h;
               h1 = h\<lparr>physical_keys := insert u (physical_keys h)\<rparr>
           in if u \<in> delivered_keys h1 then (Inr (Some (key_action u True True destination)), h1)
              else if already_physical then (Inr None, h1)
              else (Inr (Some (key_action u True False destination)),
                    h1\<lparr>delivered_keys := insert u (delivered_keys h1)\<rparr>)))"

definition held_key_up ::
    "hid_usage \<Rightarrow> platform \<Rightarrow> held_input \<Rightarrow> (input_error + input_action option) \<times> held_input" where
  "held_key_up u destination h =
     (case validate_usage u of
        Inl e \<Rightarrow> (Inl e, h)
      | Inr _ \<Rightarrow>
          (if u \<notin> physical_keys h then (Inr None, h)
           else let h1 = h\<lparr>physical_keys := physical_keys h - {u}\<rparr>
                in if u \<notin> delivered_keys h1 then (Inr None, h1)
                   else (Inr (Some (key_action u False False destination)),
                         h1\<lparr>delivered_keys := delivered_keys h1 - {u}\<rparr>)))"

definition held_button_down ::
    "mouse_button \<Rightarrow> held_input \<Rightarrow> input_action option \<times> held_input" where
  "held_button_down b h =
     (if b \<in> physical_buttons h then (None, h)
      else let h1 = h\<lparr>physical_buttons := insert b (physical_buttons h)\<rparr>
           in if b \<in> delivered_buttons h1 then (None, h1)
              else (Some (ButtonAction b True),
                    h1\<lparr>delivered_buttons := insert b (delivered_buttons h1)\<rparr>))"

definition held_button_up ::
    "mouse_button \<Rightarrow> held_input \<Rightarrow> input_action option \<times> held_input" where
  "held_button_up b h =
     (if b \<notin> physical_buttons h then (None, h)
      else let h1 = h\<lparr>physical_buttons := physical_buttons h - {b}\<rparr>
           in if b \<notin> delivered_buttons h1 then (None, h1)
              else (Some (ButtonAction b False),
                    h1\<lparr>delivered_buttons := delivered_buttons h1 - {b}\<rparr>))"

definition held_release_destination ::
    "platform \<Rightarrow> held_input \<Rightarrow> input_action list \<times> held_input" where
  "held_release_destination destination h =
     (map (\<lambda>u. key_action u False False destination) (sorted_list_of_set (delivered_keys h))
        @ map (\<lambda>b. ButtonAction b False) (sorted_list_of_set (delivered_buttons h)),
      h\<lparr>delivered_keys := {}, delivered_buttons := {}\<rparr>)"

definition held_transition ::
    "platform \<Rightarrow> platform \<Rightarrow> held_input \<Rightarrow> transition_input_plan \<times> held_input" where
  "held_transition outgoing incoming h =
     (let (released, h1) = held_release_destination outgoing h;
          modifiers = filter hid_is_modifier (sorted_list_of_set (physical_keys h1));
          buttons = sorted_list_of_set (physical_buttons h1)
      in (\<lparr>release_outgoing = released,
           transfer_incoming =
             map (\<lambda>u. key_action u True False incoming) modifiers
               @ map (\<lambda>b. ButtonAction b True) buttons\<rparr>,
          h1\<lparr>delivered_keys := delivered_keys h1 \<union> set modifiers,
             delivered_buttons := delivered_buttons h1 \<union> set buttons\<rparr>))"

definition held_modifier_state :: "held_input \<Rightarrow> modifier_state" where
  "held_modifier_state h =
     foldl (\<lambda>state u. state OR modifier_mask u) 0 (sorted_list_of_set (physical_keys h))"

subsection \<open>The emergency chord\<close>

record emergency_escape =
  held_since :: "duration option"
  triggered :: bool

abbreviation (input) emergency_escape_default :: emergency_escape where "emergency_escape_default \<equiv> \<lparr>held_since = None, triggered = False\<rparr>"

abbreviation (input) HOLD_DURATION :: duration where "HOLD_DURATION \<equiv> from_secs 2"

definition escape_combination_held :: "held_input \<Rightarrow> bool" where
  "escape_combination_held h =
     (HID_LEFT_CONTROL \<in> physical_keys h \<and> HID_RIGHT_CONTROL \<in> physical_keys h
        \<and> HID_ESCAPE \<in> physical_keys h)"

definition escape_evaluate ::
    "held_input \<Rightarrow> duration \<Rightarrow> emergency_escape \<Rightarrow> bool \<times> emergency_escape" where
  "escape_evaluate h now s =
     (if \<not> escape_combination_held h then (False, s\<lparr>held_since := None, triggered := False\<rparr>)
      else case held_since s of
          None \<Rightarrow> (False, s\<lparr>held_since := Some now\<rparr>)
        | Some since \<Rightarrow>
            (case duration_checked_sub now since of
               None \<Rightarrow> (False, s\<lparr>held_since := Some now, triggered := False\<rparr>)
             | Some held_for \<Rightarrow>
                 if \<not> triggered s \<and> HOLD_DURATION \<le> held_for
                 then (True, s\<lparr>triggered := True\<rparr>)
                 else (False, s)))"

subsection \<open>Modifier identities\<close>

lemma semantic_modifier_usage_inverse:
  "semantic_modifier (semantic_modifier_usage m) = Some m"
  by (cases m; cases "sm_side m"; cases "sm_kind m")
    (simp_all add: semantic_modifier_def semantic_modifier_usage_def)

lemma semantic_modifier_eq_Some:
  "semantic_modifier u = Some m \<Longrightarrow> semantic_modifier_usage m = u"
  by (auto simp: semantic_modifier_def semantic_modifier_usage_def split: if_splits)

interpretation modifier: wire_enum semantic_modifier_usage semantic_modifier
  by unfold_locales (auto simp: semantic_modifier_usage_inverse semantic_modifier_eq_Some)

lemma semantic_modifier_None_iff: "semantic_modifier u = None \<longleftrightarrow> \<not> hid_is_modifier u"
  by (simp add: semantic_modifier_def hid_is_modifier_cases)

subsection \<open>What a destination has been told\<close>

text \<open>
  The destination's own view: the keys and buttons it holds after posting a sequence of
  actions. \<open>action_fits\<close> is what a well-behaved stream promises it: a press that is not a
  repeat is of something up, a repeat and a release are of something down.
\<close>

type_synonym view = "hid_usage set \<times> mouse_button set"

fun post_action :: "view \<Rightarrow> input_action \<Rightarrow> view" where
  "post_action (ks, bs) (KeyAction u pressed _ _) = (if pressed then insert u ks else ks - {u}, bs)"
| "post_action (ks, bs) (ButtonAction b pressed) = (ks, if pressed then insert b bs else bs - {b})"

fun action_fits :: "view \<Rightarrow> input_action \<Rightarrow> bool" where
  "action_fits (ks, bs) (KeyAction u pressed rep _) =
     (if pressed then rep \<longleftrightarrow> u \<in> ks else \<not> rep \<and> u \<in> ks)"
| "action_fits (ks, bs) (ButtonAction b pressed) = (if pressed then b \<notin> bs else b \<in> bs)"

fun stream_fits :: "view \<Rightarrow> input_action list \<Rightarrow> bool" where
  "stream_fits v [] = True"
| "stream_fits v (a # as) = (action_fits v a \<and> stream_fits (post_action v a) as)"

definition post_all :: "view \<Rightarrow> input_action list \<Rightarrow> view" where
  "post_all v as = foldl post_action v as"

definition ledger_view :: "held_input \<Rightarrow> view" where
  "ledger_view h = (delivered_keys h, delivered_buttons h)"

definition ledger_ok :: "held_input \<Rightarrow> bool" where
  "ledger_ok h =
     (delivered_keys h \<subseteq> physical_keys h \<and> delivered_buttons h \<subseteq> physical_buttons h
        \<and> (\<forall>u\<in>physical_keys h. hid_is_valid u))"

text \<open>One captured event of the ledger and the actions it emits.\<close>

datatype ledger_event =
    EvKeyDown hid_usage platform
  | EvKeyUp hid_usage platform
  | EvButtonDown mouse_button
  | EvButtonUp mouse_button
  | EvRelease platform

definition emitted :: "input_error + input_action option \<Rightarrow> input_action list" where
  "emitted r = (case r of Inr (Some a) \<Rightarrow> [a] | _ \<Rightarrow> [])"

fun ledger_step :: "ledger_event \<Rightarrow> held_input \<Rightarrow> input_action list \<times> held_input" where
  "ledger_step (EvKeyDown u d) h = apfst emitted (held_key_down u d h)"
| "ledger_step (EvKeyUp u d) h = apfst emitted (held_key_up u d h)"
| "ledger_step (EvButtonDown b) h = apfst (\<lambda>r. emitted (Inr r)) (held_button_down b h)"
| "ledger_step (EvButtonUp b) h = apfst (\<lambda>r. emitted (Inr r)) (held_button_up b h)"
| "ledger_step (EvRelease d) h = held_release_destination d h"

fun ledger_run :: "ledger_event list \<Rightarrow> held_input \<Rightarrow> input_action list \<times> held_input" where
  "ledger_run [] h = ([], h)"
| "ledger_run (e # es) h =
     (let (as, h1) = ledger_step e h; (bs, h2) = ledger_run es h1 in (as @ bs, h2))"

lemmas held_defs =
  held_key_down_def held_key_up_def held_button_down_def held_button_up_def
  validate_usage_def key_action_def emitted_def

lemma post_all_simps [simp]:
  "post_all v [] = v" "post_all v (a # as) = post_all (post_action v a) as"
  by (simp_all add: post_all_def)

lemma post_all_append [simp]: "post_all v (as @ bs) = post_all (post_all v as) bs"
  by (simp add: post_all_def)

lemma stream_fits_append [simp]:
  "stream_fits v (as @ bs) \<longleftrightarrow> stream_fits v as \<and> stream_fits (post_all v as) bs"
  by (induction as arbitrary: v) auto

lemma release_keys_stream:
  "distinct us \<Longrightarrow> set us \<subseteq> ks \<Longrightarrow>
     stream_fits (ks, bs) (map (\<lambda>u. key_action u False False d) us)
     \<and> post_all (ks, bs) (map (\<lambda>u. key_action u False False d) us) = (ks - set us, bs)"
  by (induction us arbitrary: ks)
    (auto simp: key_action_def subset_Diff_insert Diff_insert2 [symmetric])

lemma release_buttons_stream:
  "distinct xs \<Longrightarrow> set xs \<subseteq> bs \<Longrightarrow>
     stream_fits (ks, bs) (map (\<lambda>b. ButtonAction b False) xs)
     \<and> post_all (ks, bs) (map (\<lambda>b. ButtonAction b False) xs) = (ks, bs - set xs)"
  by (induction xs arbitrary: bs) (auto simp: subset_Diff_insert Diff_insert2 [symmetric])

lemma press_keys_stream:
  "distinct us \<Longrightarrow> set us \<inter> ks = {} \<Longrightarrow>
     stream_fits (ks, bs) (map (\<lambda>u. key_action u True False d) us)
     \<and> post_all (ks, bs) (map (\<lambda>u. key_action u True False d) us) = (ks \<union> set us, bs)"
  by (induction us arbitrary: ks) (auto simp: key_action_def)

lemma press_buttons_stream:
  "distinct xs \<Longrightarrow> set xs \<inter> bs = {} \<Longrightarrow>
     stream_fits (ks, bs) (map (\<lambda>b. ButtonAction b True) xs)
     \<and> post_all (ks, bs) (map (\<lambda>b. ButtonAction b True) xs) = (ks, bs \<union> set xs)"
  by (induction xs arbitrary: bs) auto

lemma held_release_stream:
  assumes "held_release_destination d h = (as, h')"
  shows "stream_fits (ledger_view h) as" "post_all (ledger_view h) as = ({}, {})"
    "ledger_view h' = ({}, {})"
  using assms release_keys_stream [of "sorted_list_of_set (delivered_keys h)" "delivered_keys h"]
    release_buttons_stream [of "sorted_list_of_set (delivered_buttons h)" "delivered_buttons h"]
  by (auto simp: held_release_destination_def ledger_view_def)

lemma ledger_step_stream:
  "ledger_step e h = (as, h') \<Longrightarrow>
     stream_fits (ledger_view h) as \<and> post_all (ledger_view h) as = ledger_view h'"
  using held_release_stream [of _ h as h']
  by (cases e) (auto simp: held_defs ledger_view_def Let_def split: if_splits)

lemma ledger_step_ok: "ledger_ok h \<Longrightarrow> ledger_step e h = (as, h') \<Longrightarrow> ledger_ok h'"
  by (cases e)
    (auto simp: held_defs ledger_ok_def held_release_destination_def Let_def split: if_splits)

text \<open>
  C1: whatever sequence of key and button events and releases the ledger sees, the actions it
  emits form a well-behaved stream for the destination (no press of a key already down except
  as a repeat, no release of a key that is up), the destination ends holding exactly what the
  ledger records as delivered, and the ledger invariant is kept.
\<close>

theorem ledger_stream_faithful:
  assumes "ledger_ok h" and "ledger_run es h = (as, h')"
  shows "stream_fits (ledger_view h) as \<and> post_all (ledger_view h) as = ledger_view h'
    \<and> ledger_ok h'"
  using assms
proof (induction es arbitrary: h as)
  case (Cons e es)
  obtain as1 h1 where step: "ledger_step e h = (as1, h1)" by force
  obtain as2 where rest: "ledger_run es h1 = (as2, h')" and as: "as = as1 @ as2"
    using Cons.prems(2) step by (auto split: prod.splits)
  from Cons.IH [OF ledger_step_ok [OF Cons.prems(1) step] rest] ledger_step_stream [OF step]
  show ?case by (simp add: as)
qed simp

theorem ledger_stream_faithful_witness:
  "ledger_run [EvKeyDown 0x04 Windows, EvKeyDown 0x04 Windows, EvButtonDown LeftButton,
     EvRelease Windows, EvKeyUp 0x04 Windows] held_input_default
   = ([KeyAction 0x04 True False None, KeyAction 0x04 True True None,
       ButtonAction LeftButton True, KeyAction 0x04 False False None,
       ButtonAction LeftButton False],
      held_input_default\<lparr>physical_buttons := {LeftButton}\<rparr>)
   \<and> stream_fits ({}, {})
     [KeyAction 0x04 True False None, KeyAction 0x04 True True None,
       ButtonAction LeftButton True, KeyAction 0x04 False False None,
       ButtonAction LeftButton False]"
proof -
  have run: "ledger_run [EvKeyDown 0x04 Windows, EvKeyDown 0x04 Windows, EvButtonDown LeftButton,
     EvRelease Windows, EvKeyUp 0x04 Windows] held_input_default
   = ([KeyAction 0x04 True False None, KeyAction 0x04 True True None,
       ButtonAction LeftButton True, KeyAction 0x04 False False None,
       ButtonAction LeftButton False],
      held_input_default\<lparr>physical_buttons := {LeftButton}\<rparr>)"
    by (simp add: held_defs held_release_destination_def held_input_default_def hid_is_valid_def
        map_modifier_for_destination_def semantic_modifier_def)
  have ok: "ledger_ok held_input_default"
    by (simp add: ledger_ok_def held_input_default_def)
  show ?thesis
    using ledger_stream_faithful [OF ok run] run
    by (simp add: ledger_view_def held_input_default_def)
qed

text \<open>
  C2: a handoff releases everything the outgoing destination holds, and gives the incoming
  destination exactly the modifiers and buttons still physically down; every other key held
  through the handoff stays silent there, and what is physically down is unchanged.
\<close>

theorem handoff_moves_held_input:
  assumes "ledger_ok h" and "held_transition outgoing incoming h = (plan, h')"
  shows "stream_fits (ledger_view h) (release_outgoing plan)
    \<and> post_all (ledger_view h) (release_outgoing plan) = ({}, {})
    \<and> stream_fits ({}, {}) (transfer_incoming plan)
    \<and> post_all ({}, {}) (transfer_incoming plan) = ledger_view h'
    \<and> ledger_view h' = ({u \<in> physical_keys h. hid_is_modifier u}, physical_buttons h)
    \<and> physical_keys h' = physical_keys h \<and> physical_buttons h' = physical_buttons h
    \<and> ledger_ok h'"
proof -
  obtain as h1 where rel: "held_release_destination outgoing h = (as, h1)" by force
  let ?us = "filter hid_is_modifier (sorted_list_of_set (physical_keys h))"
  let ?bs = "sorted_list_of_set (physical_buttons h)"
  have h1: "physical_keys h1 = physical_keys h" "physical_buttons h1 = physical_buttons h"
    "delivered_keys h1 = {}" "delivered_buttons h1 = {}"
    using rel by (auto simp: held_release_destination_def)
  have "release_outgoing plan = as"
    and tr: "transfer_incoming plan =
      map (\<lambda>u. key_action u True False incoming) ?us @ map (\<lambda>b. ButtonAction b True) ?bs"
    and h': "h' = h1\<lparr>delivered_keys := set ?us, delivered_buttons := set ?bs\<rparr>"
    using assms(2) by (auto simp: held_transition_def rel h1 Let_def)
  moreover have "stream_fits ({}, {}) (transfer_incoming plan)"
    "post_all ({}, {}) (transfer_incoming plan) = (set ?us, set ?bs)"
    using press_keys_stream [of ?us "{}" "{}" incoming] press_buttons_stream [of ?bs "{}" "set ?us"]
    by (simp_all add: tr)
  ultimately show ?thesis
    using held_release_stream [OF rel] assms(1) h1
    by (auto simp: ledger_view_def ledger_ok_def)
qed

theorem handoff_moves_held_input_witness:
  "\<exists>plan h'. held_transition Windows MacOs
       (snd (ledger_run [EvKeyDown 0x04 Windows, EvKeyDown 0xE3 Windows] held_input_default))
     = (plan, h')
   \<and> post_all ({}, {}) (transfer_incoming plan) = ({0xE3}, {})"
proof -
  let ?h = "snd (ledger_run [EvKeyDown 0x04 Windows, EvKeyDown 0xE3 Windows] held_input_default)"
  have h: "?h = \<lparr>physical_keys = {0x04, 0xE3}, physical_buttons = {},
      delivered_keys = {0x04, 0xE3}, delivered_buttons = {}\<rparr>"
    by (auto simp: held_defs held_input_default_def hid_is_valid_def)
  obtain plan h' where t: "held_transition Windows MacOs ?h = (plan, h')" by force
  have "ledger_ok ?h"
    unfolding h by (simp add: ledger_ok_def hid_is_valid_def)
  then have "post_all ({}, {}) (transfer_incoming plan)
      = ({u \<in> physical_keys ?h. hid_is_modifier u}, physical_buttons ?h)"
    using handoff_moves_held_input [OF _ t] by simp
  also have "\<dots> = ({0xE3}, {})"
    unfolding h by (auto simp: hid_is_modifier_def)
  finally show ?thesis using t by blast
qed

subsection \<open>The emergency chord fires once per hold\<close>

fun escape_run :: "(held_input \<times> duration) list \<Rightarrow> emergency_escape \<Rightarrow> bool list" where
  "escape_run [] s = []"
| "escape_run ((h, now) # xs) s = (let (fired, s') = escape_evaluate h now s in fired # escape_run xs s')"

text \<open>The specification: of the readings after the chord completed at \<open>since\<close>, the first one
  at least two seconds later fires and no other does.\<close>

fun fires_once :: "duration \<Rightarrow> duration list \<Rightarrow> bool list" where
  "fires_once since [] = []"
| "fires_once since (t # ts) =
     (if HOLD_DURATION \<le> t - since then True # replicate (length ts) False
      else False # fires_once since ts)"

lemma escape_run_triggered:
  "\<forall>x\<in>set xs. escape_combination_held (fst x) \<and> since \<le> snd x \<Longrightarrow>
     escape_run xs \<lparr>held_since = Some since, triggered = True\<rparr> = replicate (length xs) False"
  by (induction xs) (auto simp: escape_evaluate_def)

lemma escape_run_waiting:
  "\<forall>x\<in>set xs. escape_combination_held (fst x) \<and> since \<le> snd x \<Longrightarrow>
     escape_run xs \<lparr>held_since = Some since, triggered = False\<rparr> = fires_once since (map snd xs)"
  by (induction xs) (auto simp: escape_evaluate_def escape_run_triggered)

text \<open>
  C13: while both Control keys and Escape stay down and the clock does not run backwards, the
  emergency escape reports exactly once, at the first reading two seconds or more after the
  chord completed.
\<close>

theorem escape_fires_once:
  assumes "escape_combination_held h"
    and "\<forall>x\<in>set xs. escape_combination_held (fst x) \<and> now \<le> snd x"
  shows "escape_run ((h, now) # xs) emergency_escape_default
    = False # fires_once now (map snd xs)"
  using assms by (simp add: escape_evaluate_def escape_run_waiting)

theorem escape_fires_once_witness:
  "escape_run
     (map (\<lambda>t. (held_input_default\<lparr>physical_keys := {0xE0, 0xE4, 0x29}\<rparr>, t))
        [from_secs 5, from_secs 6, from_secs 7, from_secs 8]) emergency_escape_default
   = [False, False, True, False]"
proof -
  let ?h = "held_input_default\<lparr>physical_keys := {0xE0, 0xE4, 0x29}\<rparr>"
  have held: "escape_combination_held ?h"
    by (simp add: escape_combination_held_def)
  show ?thesis
    using escape_fires_once [OF held, of "map (Pair ?h) [from_secs 6, from_secs 7, from_secs 8]"
        "from_secs 5"] held
    by simp
qed

lemma foldl_or_bit:
  "bit (foldl (\<lambda>s u. s OR f u) s us) i \<longleftrightarrow> bit s i \<or> (\<exists>u\<in>set us. bit (f u) i)"
  for s :: u8
  by (induction us arbitrary: s) (auto simp: bit_or_iff)

lemma modifier_mask_eq:
  "hid_is_modifier u \<Longrightarrow> modifier_mask u = 2 ^ (unat u - 0xE0) \<and> unat u - 0xE0 < 8"
  by (auto simp: hid_is_modifier_cases modifier_mask_def)

lemma modifier_mask_other: "\<not> hid_is_modifier u \<Longrightarrow> modifier_mask u = 0"
  by (auto simp: hid_is_modifier_cases modifier_mask_def)

lemma bit_modifier_mask:
  "bit (modifier_mask u) i \<longleftrightarrow> hid_is_modifier u \<and> i = unat u - 0xE0"
proof (cases "hid_is_modifier u")
  case True
  then show ?thesis
    using modifier_mask_eq [OF True] by (auto simp: bit_exp_iff possible_bit_word)
qed (simp add: modifier_mask_other)

lemma modifier_contains_mask:
  "hid_is_modifier u \<Longrightarrow> modifier_contains s (modifier_mask u) \<longleftrightarrow> bit s (unat u - 0xE0)"
proof -
  assume u: "hid_is_modifier u"
  have "s AND modifier_mask u = modifier_mask u \<longleftrightarrow>
      (\<forall>i<8. bit (s AND modifier_mask u) i \<longleftrightarrow> bit (modifier_mask u) i)"
    by (auto intro: bit_word_eqI)
  also have "\<dots> \<longleftrightarrow> bit s (unat u - 0xE0)"
    using u modifier_mask_eq [OF u, THEN conjunct2] by (auto simp: bit_and_iff bit_modifier_mask)
  finally show ?thesis by (simp add: modifier_contains_def)
qed

text \<open>
  The modifier byte reports a modifier exactly when that key is physically down.
\<close>

theorem modifier_state_exact:
  assumes "hid_is_modifier u"
  shows "modifier_contains (held_modifier_state h) (modifier_mask u) \<longleftrightarrow> u \<in> physical_keys h"
proof -
  have same: "v = u" if "hid_is_modifier v" "unat v - 0xE0 = unat u - 0xE0" for v
  proof -
    have "0xE0 \<le> unat v" "0xE0 \<le> unat u"
      using that(1) assms by (simp_all add: hid_is_modifier_def word_le_nat_alt)
    then show ?thesis using that(2) by (simp add: word_unat_eq_iff)
  qed
  show ?thesis
    unfolding modifier_contains_mask [OF assms] held_modifier_state_def foldl_or_bit
    using assms by (auto simp: bit_modifier_mask dest: same sym)
qed

theorem modifier_state_exact_witness:
  "modifier_contains (held_modifier_state (held_input_default\<lparr>physical_keys := {0xE1, 0x04}\<rparr>)) LEFT_SHIFT
   \<and> \<not> modifier_contains (held_modifier_state (held_input_default\<lparr>physical_keys := {0xE1, 0x04}\<rparr>)) RIGHT_META"
proof -
  have "modifier_mask 0xE1 = LEFT_SHIFT" "modifier_mask 0xE7 = RIGHT_META"
    "hid_is_modifier 0xE1" "hid_is_modifier 0xE7"
    by (simp_all add: modifier_mask_def hid_is_modifier_def)
  then show ?thesis
    using modifier_state_exact [of "0xE1" "held_input_default\<lparr>physical_keys := {0xE1, 0x04}\<rparr>"]
      modifier_state_exact [of "0xE7" "held_input_default\<lparr>physical_keys := {0xE1, 0x04}\<rparr>"]
    by simp
qed

end
