(* ===== verification/Ownership.thy ===== *)
theory Ownership
  imports Core_Types
begin

section \<open>Pointer ownership: \<open>monhop-core/src/ownership.rs\<close>\<close>

text \<open>
  The epoch-guarded handoff of the pointer between destinations: begin, acknowledge, fail and
  recover. Every operation returns its result together with the next state, so an error that
  leaves the state alone is visible in the model.
\<close>

record pointer_target =
  pt_machine :: device_id
  pt_display :: display_id

datatype ownership_state =
    LocalActive pointer_target
  | Transitioning pointer_target pointer_target u64 \<comment> \<open>from, to, epoch\<close>
  | RemoteActive pointer_target u64
  | Disconnected pointer_target u64
  | Recovering pointer_target u64

record transition_acknowledgement =
  ack_target :: pointer_target
  ack_epoch :: u64

datatype ownership_command =
    BeginTransition pointer_target pointer_target u64
  | Activate pointer_target u64

datatype failure_reason = FailDisconnected | FailTimeout | FailInputOverflow | FailEmergencyEscape

record recovery_plan =
  rp_reason :: failure_reason
  rp_local :: pointer_target
  rp_remote_to_release :: "pointer_target option"
  rp_epoch :: u64

datatype ownership_error =
    LocalTargetMustBelongToLocalMachine
  | TransitionAlreadyInProgress
  | OwnershipNotReady
  | SameTarget
  | UnsolicitedAcknowledgement
  | StaleAcknowledgement
  | StaleRecovery
  | EpochExhausted

record pointer_ownership =
  own_local :: pointer_target
  own_state :: ownership_state
  own_epoch :: u64

definition ownership_new :: "device_id \<Rightarrow> pointer_target \<Rightarrow> ownership_error + pointer_ownership" where
  "ownership_new local_machine local =
     (if pt_machine local \<noteq> local_machine then Inl LocalTargetMustBelongToLocalMachine
      else Inr \<lparr>own_local = local, own_state = LocalActive local, own_epoch = 0\<rparr>)"

definition active_destination :: "pointer_ownership \<Rightarrow> pointer_target" where
  "active_destination s = (case own_state s of
       LocalActive target \<Rightarrow> target
     | RemoteActive target _ \<Rightarrow> target
     | Transitioning from _ _ \<Rightarrow> from
     | Disconnected local _ \<Rightarrow> local
     | Recovering local _ \<Rightarrow> local)"

definition next_epoch :: "pointer_ownership \<Rightarrow> (ownership_error + u64) \<times> pointer_ownership" where
  "next_epoch s =
     (case checked_add (own_epoch s) 1 of
        None \<Rightarrow> (Inl EpochExhausted, s)
      | Some e \<Rightarrow> (Inr e, s\<lparr>own_epoch := e\<rparr>))"

definition transition_origin :: "ownership_state \<Rightarrow> ownership_error + pointer_target" where
  "transition_origin st = (case st of
       LocalActive target \<Rightarrow> Inr target
     | RemoteActive target _ \<Rightarrow> Inr target
     | Transitioning _ _ _ \<Rightarrow> Inl TransitionAlreadyInProgress
     | Disconnected _ _ \<Rightarrow> Inl OwnershipNotReady
     | Recovering _ _ \<Rightarrow> Inl OwnershipNotReady)"

definition begin_transition ::
    "pointer_target \<Rightarrow> pointer_ownership \<Rightarrow> (ownership_error + ownership_command) \<times> pointer_ownership"
where
  "begin_transition to s =
     (case transition_origin (own_state s) of
        Inl e \<Rightarrow> (Inl e, s)
      | Inr from \<Rightarrow>
          if from = to then (Inl SameTarget, s)
          else case next_epoch s of
              (Inl e, s1) \<Rightarrow> (Inl e, s1)
            | (Inr epoch, s1) \<Rightarrow>
                (Inr (BeginTransition from to epoch), s1\<lparr>own_state := Transitioning from to epoch\<rparr>))"

definition acknowledge_transition ::
    "transition_acknowledgement \<Rightarrow> pointer_ownership
     \<Rightarrow> (ownership_error + ownership_command) \<times> pointer_ownership"
where
  "acknowledge_transition a s = (case own_state s of
       Transitioning _ to epoch \<Rightarrow>
         if ack_epoch a \<noteq> epoch \<or> ack_target a \<noteq> to then (Inl StaleAcknowledgement, s)
         else (Inr (Activate to epoch),
               s\<lparr>own_state :=
                   (if pt_machine to = pt_machine (own_local s) then LocalActive to
                    else RemoteActive to epoch)\<rparr>)
     | _ \<Rightarrow> (Inl UnsolicitedAcknowledgement, s))"

definition remote_to_release :: "pointer_ownership \<Rightarrow> pointer_target option" where
  "remote_to_release s = (case own_state s of
       RemoteActive target _ \<Rightarrow>
         if pt_machine target \<noteq> pt_machine (own_local s) then Some target else None
     | Transitioning from to _ \<Rightarrow>
         if pt_machine to \<noteq> pt_machine (own_local s) then Some to
         else if pt_machine from \<noteq> pt_machine (own_local s) then Some from
         else None
     | _ \<Rightarrow> None)"

definition enter_failure ::
    "failure_reason \<Rightarrow> bool \<Rightarrow> pointer_ownership
     \<Rightarrow> (ownership_error + recovery_plan) \<times> pointer_ownership"
where
  "enter_failure reason disconnected s =
     (case next_epoch s of
        (Inl e, s1) \<Rightarrow> (Inl e, s1)
      | (Inr epoch, s1) \<Rightarrow>
          (Inr \<lparr>rp_reason = reason, rp_local = own_local s,
                rp_remote_to_release = remote_to_release s, rp_epoch = epoch\<rparr>,
           s1\<lparr>own_state :=
               (if disconnected then Disconnected (own_local s) epoch
                else Recovering (own_local s) epoch)\<rparr>))"

definition on_disconnect where "on_disconnect = enter_failure FailDisconnected True"
definition on_timeout where "on_timeout = enter_failure FailTimeout False"
definition on_input_overflow where "on_input_overflow = enter_failure FailInputOverflow False"
definition on_emergency_escape where "on_emergency_escape = enter_failure FailEmergencyEscape False"

definition begin_recovery :: "pointer_ownership \<Rightarrow> (ownership_error + u64) \<times> pointer_ownership" where
  "begin_recovery s = (case own_state s of
       Disconnected local epoch \<Rightarrow> (Inr epoch, s\<lparr>own_state := Recovering local epoch\<rparr>)
     | _ \<Rightarrow> (Inl OwnershipNotReady, s))"

definition complete_recovery ::
    "u64 \<Rightarrow> pointer_ownership \<Rightarrow> (ownership_error + unit) \<times> pointer_ownership"
where
  "complete_recovery epoch s = (case own_state s of
       Recovering local expected \<Rightarrow>
         if epoch \<noteq> expected then (Inl StaleRecovery, s)
         else (Inr (), s\<lparr>own_state := LocalActive local\<rparr>)
     | _ \<Rightarrow> (Inl OwnershipNotReady, s))"

subsection \<open>Runs\<close>

datatype own_op =
    OpBegin pointer_target
  | OpAck transition_acknowledgement
  | OpFail failure_reason bool
  | OpBeginRecovery
  | OpCompleteRecovery u64

fun own_apply :: "own_op \<Rightarrow> pointer_ownership \<Rightarrow> pointer_ownership" where
  "own_apply (OpBegin to) s = snd (begin_transition to s)"
| "own_apply (OpAck a) s = snd (acknowledge_transition a s)"
| "own_apply (OpFail r d) s = snd (enter_failure r d s)"
| "own_apply OpBeginRecovery s = snd (begin_recovery s)"
| "own_apply (OpCompleteRecovery e) s = snd (complete_recovery e s)"

inductive own_reachable :: "pointer_target \<Rightarrow> pointer_ownership \<Rightarrow> bool" for local where
  own_start: "ownership_new (pt_machine local) local = Inr s \<Longrightarrow> own_reachable local s"
| own_step: "own_reachable local s \<Longrightarrow> own_reachable local (own_apply op s)"

definition own_run :: "own_op list \<Rightarrow> pointer_ownership \<Rightarrow> pointer_ownership" where
  "own_run ops s = foldl (\<lambda>s op. own_apply op s) s ops"

lemmas own_defs =
  begin_transition_def acknowledge_transition_def enter_failure_def begin_recovery_def
  complete_recovery_def next_epoch_def transition_origin_def

lemma own_run_simps [simp]:
  "own_run [] s = s" "own_run (op # ops) s = own_run ops (own_apply op s)"
  by (simp_all add: own_run_def)

subsection \<open>The ownership invariant\<close>

text \<open>
  Every state that names an epoch names the newest one; an active remote destination is never
  on the local machine, and a failed or recovering state names the local target.
\<close>

definition own_inv :: "pointer_target \<Rightarrow> pointer_ownership \<Rightarrow> bool" where
  "own_inv local s =
     (own_local s = local \<and>
      (case own_state s of
         LocalActive target \<Rightarrow> pt_machine target = pt_machine local
       | Transitioning from to epoch \<Rightarrow> from \<noteq> to \<and> epoch = own_epoch s
       | RemoteActive target epoch \<Rightarrow> pt_machine target \<noteq> pt_machine local \<and> epoch = own_epoch s
       | Disconnected target epoch \<Rightarrow> target = local \<and> epoch = own_epoch s
       | Recovering target epoch \<Rightarrow> target = local \<and> epoch = own_epoch s))"

lemma own_inv_new: "ownership_new (pt_machine local) local = Inr s \<Longrightarrow> own_inv local s"
  by (auto simp: ownership_new_def own_inv_def)

lemma own_inv_apply: "own_inv local s \<Longrightarrow> own_inv local (own_apply op s)"
  by (cases op) (auto simp: own_inv_def own_defs split: ownership_state.splits option.splits)

lemma own_reachable_inv: "own_reachable local s \<Longrightarrow> own_inv local s"
  by (induction rule: own_reachable.induct) (auto intro: own_inv_new own_inv_apply)

lemma own_apply_epoch_mono: "own_epoch s \<le> own_epoch (own_apply op s)"
  by (cases op)
    (auto simp: own_defs split: ownership_state.splits option.splits
      dest!: checked_add_1_less)

lemma own_run_epoch_mono: "own_epoch s \<le> own_epoch (own_run ops s)"
  by (induction ops arbitrary: s) (auto intro: order_trans own_apply_epoch_mono)

subsection \<open>Acknowledgements are single use\<close>

text \<open>
  \<open>epoch_spent e s\<close>: epoch \<open>e\<close> has been issued and no transition of that epoch or an older
  one is pending. Every operation keeps it, so an epoch once spent stays spent.
\<close>

definition epoch_spent :: "u64 \<Rightarrow> pointer_ownership \<Rightarrow> bool" where
  "epoch_spent e s =
     (e \<le> own_epoch s \<and>
      (case own_state s of Transitioning _ _ e' \<Rightarrow> e < e' | _ \<Rightarrow> True))"

lemma epoch_spent_apply: "epoch_spent e s \<Longrightarrow> epoch_spent e (own_apply op s)"
  by (cases op)
    (auto simp: epoch_spent_def own_defs split: ownership_state.splits option.splits
      dest!: checked_add_1_less)

lemma epoch_spent_run: "epoch_spent e s \<Longrightarrow> epoch_spent e (own_run ops s)"
  by (induction ops arbitrary: s) (simp_all add: epoch_spent_apply)

lemma epoch_spent_rejected:
  "epoch_spent (ack_epoch a) s \<Longrightarrow> \<exists>e. acknowledge_transition a s = (Inl e, s)"
  by (auto simp: epoch_spent_def acknowledge_transition_def split: ownership_state.splits)

lemma epoch_spent_older: "epoch_spent e s \<Longrightarrow> e' \<le> e \<Longrightarrow> epoch_spent e' s"
  by (auto simp: epoch_spent_def split: ownership_state.splits)

lemma accepted_spends:
  assumes "own_inv local s" "acknowledge_transition a s = (Inr c, s')"
  shows "epoch_spent (ack_epoch a) s'" "c = Activate (ack_target a) (ack_epoch a)"
    "active_destination s' = ack_target a"
  using assms
  by (auto simp: own_inv_def acknowledge_transition_def epoch_spent_def active_destination_def
      split: ownership_state.splits if_splits)

lemma failure_spends:
  assumes "enter_failure r d s = (Inr plan, s')"
  shows "epoch_spent (own_epoch s) s'"
  using assms
  by (auto simp: epoch_spent_def own_defs split: option.splits dest!: checked_add_1_less)

text \<open>C21: An acknowledgement is good for one activation. When it is accepted the pointer moves to
  exactly the target it names, and whatever happens to the ownership afterwards the same
  acknowledgement is refused and changes nothing.\<close>

theorem acknowledgement_single_use:
  assumes "own_reachable local s"
    and "acknowledge_transition a s = (Inr c, s1)"
  shows "c = Activate (ack_target a) (ack_epoch a) \<and> active_destination s1 = ack_target a \<and>
    (\<forall>ops. \<exists>e. acknowledge_transition a (own_run ops s1) = (Inl e, own_run ops s1))"
  using accepted_spends [OF own_reachable_inv [OF assms(1)] assms(2)]
  by (blast intro: epoch_spent_run epoch_spent_rejected)

text \<open>C22: A failure takes the pointer home. If the epoch counter is not exhausted the failure
  succeeds, the local target is the destination at once, the plan releases a remote exactly when
  the failed state involved one, no acknowledgement of an earlier handoff is accepted ever again,
  and the recovery with the plan's epoch ends in the local target being active.\<close>

theorem failure_takes_pointer_home:
  assumes "own_reachable local s" and "own_epoch s \<noteq> - 1"
  shows "\<exists>plan s1. enter_failure r d s = (Inr plan, s1) \<and>
     active_destination s1 = local \<and> rp_reason plan = r \<and> rp_local plan = local \<and>
     rp_epoch plan = own_epoch s + 1 \<and>
     (rp_remote_to_release plan = None \<longleftrightarrow>
        (case own_state s of
           RemoteActive _ _ \<Rightarrow> False
         | Transitioning from to _ \<Rightarrow>
             pt_machine from = pt_machine local \<and> pt_machine to = pt_machine local
         | _ \<Rightarrow> True)) \<and>
     (\<forall>ops a. ack_epoch a \<le> own_epoch s \<longrightarrow>
        (\<exists>e. acknowledge_transition a (own_run ops s1) = (Inl e, own_run ops s1))) \<and>
     own_state (own_run ((if d then [OpBeginRecovery] else []) @ [OpCompleteRecovery (rp_epoch plan)]) s1)
       = LocalActive local"
proof -
  have inv: "own_inv local s"
    using assms(1) by (rule own_reachable_inv)
  have "checked_add (own_epoch s) 1 = Some (own_epoch s + 1)"
    using assms(2) by (rule checked_add_1)
  then obtain plan s1 where f: "enter_failure r d s = (Inr plan, s1)"
    and plan: "plan = \<lparr>rp_reason = r, rp_local = local, rp_remote_to_release = remote_to_release s,
       rp_epoch = own_epoch s + 1\<rparr>"
    and s1: "s1 = s\<lparr>own_epoch := own_epoch s + 1,
       own_state := (if d then Disconnected local (own_epoch s + 1)
                     else Recovering local (own_epoch s + 1))\<rparr>"
    using inv by (simp add: enter_failure_def next_epoch_def own_inv_def)
  have rel: "rp_remote_to_release plan = None \<longleftrightarrow>
        (case own_state s of
           RemoteActive _ _ \<Rightarrow> False
         | Transitioning from to _ \<Rightarrow>
             pt_machine from = pt_machine local \<and> pt_machine to = pt_machine local
         | _ \<Rightarrow> True)"
    using inv by (auto simp: plan remote_to_release_def own_inv_def split: ownership_state.splits)
  have rejected: "\<exists>e. acknowledge_transition a (own_run ops s1) = (Inl e, own_run ops s1)"
    if "ack_epoch a \<le> own_epoch s" for a ops
    using failure_spends [OF f] that
    by (blast intro: epoch_spent_rejected epoch_spent_run epoch_spent_older)
  have home: "active_destination s1 = local"
    by (simp add: s1 active_destination_def)
  have recover: "own_state (own_run ((if d then [OpBeginRecovery] else [])
      @ [OpCompleteRecovery (rp_epoch plan)]) s1) = LocalActive local"
    by (simp add: plan s1 begin_recovery_def complete_recovery_def)
  show ?thesis
    using f home rel rejected recover plan by auto
qed

text \<open>C23: In every reachable state the local target is the one the ownership was built with, an
  active local destination is on the local machine and an active remote one is not, a pending
  transition has two different ends, and any epoch a state carries is the newest one issued.\<close>

theorem ownership_invariant:
  assumes "own_reachable local s"
  shows "own_inv local s \<and> (\<forall>ops. own_inv local (own_run ops s) \<and> own_epoch s \<le> own_epoch (own_run ops s))"
proof -
  have "own_inv local t \<Longrightarrow> own_inv local (own_run ops t)" for ops t
    by (induction ops arbitrary: t) (simp_all add: own_inv_apply)
  then show ?thesis
    using own_reachable_inv [OF assms] own_run_epoch_mono by blast
qed

subsection \<open>A concrete handoff\<close>

definition sample_local :: pointer_target where
  "sample_local = \<lparr>pt_machine = [1], pt_display = 1\<rparr>"

definition sample_remote :: pointer_target where
  "sample_remote = \<lparr>pt_machine = [2], pt_display = 7\<rparr>"

definition sample_pending :: pointer_ownership where
  "sample_pending = \<lparr>own_local = sample_local,
     own_state = Transitioning sample_local sample_remote 1, own_epoch = 1\<rparr>"

lemma sample_pending_reachable: "own_reachable sample_local sample_pending"
proof -
  have "own_reachable sample_local
      \<lparr>own_local = sample_local, own_state = LocalActive sample_local, own_epoch = 0\<rparr>"
    by (rule own_start) (simp add: ownership_new_def)
  from own_step [OF this, of "OpBegin sample_remote"] show ?thesis
    by (simp add: begin_transition_def transition_origin_def next_epoch_def checked_add_def
        sample_pending_def sample_local_def sample_remote_def)
qed

theorem acknowledgement_single_use_witness:
  "\<exists>s1. acknowledge_transition \<lparr>ack_target = sample_remote, ack_epoch = 1\<rparr> sample_pending
      = (Inr (Activate sample_remote 1), s1) \<and> active_destination s1 = sample_remote \<and>
     (\<exists>e. acknowledge_transition \<lparr>ack_target = sample_remote, ack_epoch = 1\<rparr>
        (own_run [OpBegin sample_local] s1) = (Inl e, own_run [OpBegin sample_local] s1))"
proof -
  obtain s1 where ack: "acknowledge_transition \<lparr>ack_target = sample_remote, ack_epoch = 1\<rparr> sample_pending
      = (Inr (Activate sample_remote 1), s1)"
    by (simp add: acknowledge_transition_def sample_pending_def)
  show ?thesis
    using acknowledgement_single_use [OF sample_pending_reachable ack] ack by fastforce
qed

theorem failure_takes_pointer_home_witness:
  "\<exists>plan s1. enter_failure FailTimeout False sample_pending = (Inr plan, s1) \<and>
     active_destination s1 = sample_local \<and> rp_remote_to_release plan \<noteq> None"
  using failure_takes_pointer_home [OF sample_pending_reachable, of FailTimeout False]
  by (auto simp: sample_pending_def sample_local_def sample_remote_def)

theorem ownership_invariant_witness:
  "own_inv sample_local sample_pending \<and>
   own_inv sample_local (own_run [OpFail FailDisconnected True] sample_pending)"
  using ownership_invariant [OF sample_pending_reachable] by blast

end
