(* ===== verification/Atomic_Cell.thy ===== *)
theory Atomic_Cell
  imports Prelude
begin

section \<open>Values packed into one atomic word\<close>

text \<open>
  Several components keep a whole record in one atomic integer and change it only by
  compare-and-exchange on the exact packed value it was decided from. \<open>compare_exchange\<close> is the
  standard library's operation: it answers with the previous word, on the right when the exchange
  happened. The locale states what packing must promise for a change to be exact.
\<close>

definition compare_exchange :: "'w \<Rightarrow> 'w \<Rightarrow> 'w \<Rightarrow> ('w + 'w) \<times> 'w" where
  "compare_exchange current new w = (if w = current then (Inr w, new) else (Inl w, w))"

locale packed_cell =
  fixes pack :: "'s \<Rightarrow> 'w"
    and unpack :: "'w \<Rightarrow> 's option"
    and wf :: "'s \<Rightarrow> bool"
  assumes unpack_pack: "wf s \<Longrightarrow> unpack (pack s) = Some s"
begin

lemma pack_inject: "wf s \<Longrightarrow> wf t \<Longrightarrow> pack s = pack t \<longleftrightarrow> s = t"
  by (metis unpack_pack option.inject)

lemma exchange_exact:
  assumes "wf from" "wf cur"
  shows "compare_exchange (pack from) new (pack cur) =
    (if cur = from then (Inr (pack from), new) else (Inl (pack cur), pack cur))"
  using assms by (auto simp: compare_exchange_def pack_inject)

text \<open>Of two changes decided from the same value, the second fails once the first changed it.\<close>

lemma second_exchange_fails:
  assumes "wf from" "wf to" "from \<noteq> to"
    and "compare_exchange (pack from) (pack to) w = (Inr v, w')"
  shows "compare_exchange (pack from) new w' = (Inl (pack to), pack to)"
  using assms by (auto simp: compare_exchange_def pack_inject split: if_splits)

end

end
