(* ===== verification/Floor.thy ===== *)
theory Floor
  imports Wire_Enum Atomic_Cell
begin

section \<open>The session floor: \<open>monhop-core/src/floor.rs\<close>\<close>

text \<open>
  At most one sharing direction, for one peer, is active per process. State, peer and generation
  share one 64-bit atomic word. A snapshot is a record; \<open>unpack\<close> is partial because the source
  panics on a state code it never writes, and every operation that unpacks returns \<open>None\<close> for
  that panic. An operation takes the current word and returns its answer with the next word.
\<close>

datatype floor_state = Free | Requesting | Sending | Returning | Receiving | Yielding

datatype floor_owner = Outbound | Inbound

fun floor_state_owner :: "floor_state \<Rightarrow> floor_owner option" where
  "floor_state_owner Free = None"
| "floor_state_owner Requesting = Some Outbound"
| "floor_state_owner Sending = Some Outbound"
| "floor_state_owner Returning = Some Outbound"
| "floor_state_owner Receiving = Some Inbound"
| "floor_state_owner Yielding = Some Inbound"

fun floor_state_code :: "floor_state \<Rightarrow> u64" where
  "floor_state_code Free = 0"
| "floor_state_code Requesting = 1"
| "floor_state_code Sending = 2"
| "floor_state_code Returning = 3"
| "floor_state_code Receiving = 4"
| "floor_state_code Yielding = 5"

definition floor_state_from_code :: "u64 \<Rightarrow> floor_state option" where
  "floor_state_from_code code =
     (if code = 0 then Some Free
      else if code = 1 then Some Requesting
      else if code = 2 then Some Sending
      else if code = 3 then Some Returning
      else if code = 4 then Some Receiving
      else if code = 5 then Some Yielding
      else None)"

fun floor_allows :: "floor_state \<Rightarrow> floor_state \<Rightarrow> bool" where
  "floor_allows Free to = (to = Requesting \<or> to = Receiving)"
| "floor_allows Requesting to = (to = Sending \<or> to = Free \<or> to = Receiving)"
| "floor_allows Sending to = (to = Returning)"
| "floor_allows Returning to = (to = Free)"
| "floor_allows Receiving to = (to = Yielding \<or> to = Free)"
| "floor_allows Yielding to = (to = Free)"

abbreviation (input) MAX_GROUP_PEERS :: nat where "MAX_GROUP_PEERS \<equiv> 7"

type_synonym floor_peer = u8

abbreviation (input) FLOOR_NONE :: floor_peer where "FLOOR_NONE \<equiv> 0"
abbreviation (input) FLOOR_SOLE :: floor_peer where "FLOOR_SOLE \<equiv> 1"
abbreviation (input) MAX_SLOT :: u8 where "MAX_SLOT \<equiv> 7"

definition floor_peer_slot :: "u8 \<Rightarrow> floor_peer option" where
  "floor_peer_slot slot = (if 1 \<le> slot \<and> slot \<le> MAX_SLOT then Some slot else None)"

record floor_snapshot =
  fl_state :: floor_state
  fl_generation :: u64
  fl_peer :: floor_peer

definition STATE_BITS :: nat where "STATE_BITS = 3"
definition PEER_BITS :: nat where "PEER_BITS = 4"
definition STATE_MASK :: u64 where "STATE_MASK = push_bit STATE_BITS 1 - 1"
definition PEER_MASK :: u64 where "PEER_MASK = push_bit PEER_BITS 1 - 1"
definition GENERATION_SHIFT :: nat where "GENERATION_SHIFT = STATE_BITS + PEER_BITS"
definition MAX_GENERATION :: u64 where "MAX_GENERATION = drop_bit GENERATION_SHIFT (- 1)"

definition floor_pack :: "floor_snapshot \<Rightarrow> u64" where
  "floor_pack s =
     (push_bit GENERATION_SHIFT (fl_generation s) OR push_bit STATE_BITS (ucast (fl_peer s)))
     OR floor_state_code (fl_state s)"

definition floor_unpack :: "u64 \<Rightarrow> floor_snapshot option" where
  "floor_unpack w =
     (case floor_state_from_code (w AND STATE_MASK) of
        None \<Rightarrow> None
      | Some st \<Rightarrow> Some \<lparr>fl_state = st, fl_generation = drop_bit GENERATION_SHIFT w,
          fl_peer = ucast (drop_bit STATE_BITS w AND PEER_MASK)\<rparr>)"

definition floor_well_formed :: "floor_snapshot \<Rightarrow> bool" where
  "floor_well_formed s =
     (fl_generation s \<noteq> 0 \<and> fl_generation s \<le> MAX_GENERATION \<and> fl_peer s \<le> MAX_SLOT \<and>
      (fl_state s = Free) = (fl_peer s = FLOOR_NONE))"

definition floor_next :: "floor_state \<Rightarrow> floor_peer \<Rightarrow> floor_snapshot \<Rightarrow> floor_snapshot" where
  "floor_next st peer s =
     \<lparr>fl_state = st,
      fl_generation = (if MAX_GENERATION \<le> fl_generation s then 1 else fl_generation s + 1),
      fl_peer = peer\<rparr>"

definition floor_freed :: "floor_snapshot \<Rightarrow> floor_snapshot" where
  "floor_freed = floor_next Free FLOOR_NONE"

subsection \<open>The shared word\<close>

text \<open>The answer of a fallible change: \<open>None\<close> is the panic, \<open>Inl\<close> the current snapshot.\<close>

type_synonym floor_answer = "(floor_snapshot + floor_snapshot) option"

definition floor_new :: u64 where
  "floor_new = floor_pack \<lparr>fl_state = Free, fl_generation = 1, fl_peer = FLOOR_NONE\<rparr>"

definition floor_refuse :: "u64 \<Rightarrow> floor_answer \<times> u64" where
  "floor_refuse w = (map_option Inl (floor_unpack w), w)"

definition floor_swap_exact :: "floor_snapshot \<Rightarrow> floor_snapshot \<Rightarrow> u64 \<Rightarrow> floor_answer \<times> u64" where
  "floor_swap_exact from to w =
     (case compare_exchange (floor_pack from) (floor_pack to) w of
        (Inr _, w') \<Rightarrow> (Some (Inr to), w')
      | (Inl seen, w') \<Rightarrow> (map_option Inl (floor_unpack seen), w'))"

definition floor_transition :: "floor_snapshot \<Rightarrow> floor_state \<Rightarrow> u64 \<Rightarrow> floor_answer \<times> u64" where
  "floor_transition from to w =
     (if \<not> floor_well_formed from \<or> \<not> floor_allows (fl_state from) to then floor_refuse w
      else let peer = (if to = Free then FLOOR_NONE
                       else if fl_state from = Free then FLOOR_SOLE
                       else fl_peer from)
           in floor_swap_exact from (floor_next to peer from) w)"

definition floor_claim_allowed :: "floor_snapshot \<Rightarrow> floor_state \<Rightarrow> floor_peer \<Rightarrow> bool" where
  "floor_claim_allowed from to peer =
     (if fl_state from = Free \<and> (to = Requesting \<or> to = Receiving) then peer \<noteq> FLOOR_NONE
      else if fl_state from = Requesting \<and> to = Receiving then fl_peer from = peer
      else False)"

definition floor_claim ::
    "floor_snapshot \<Rightarrow> floor_state \<Rightarrow> floor_peer \<Rightarrow> u64 \<Rightarrow> floor_answer \<times> u64" where
  "floor_claim from to peer w =
     (if \<not> floor_well_formed from \<or> \<not> floor_claim_allowed from to peer then floor_refuse w
      else floor_swap_exact from (floor_next to peer from) w)"

definition floor_hand_over :: "floor_snapshot \<Rightarrow> floor_peer \<Rightarrow> u64 \<Rightarrow> floor_answer \<times> u64" where
  "floor_hand_over from to w =
     (if \<not> floor_well_formed from \<or> fl_state from \<noteq> Returning \<or> to = FLOOR_NONE \<or> to = fl_peer from
      then floor_refuse w
      else floor_swap_exact from (floor_next Sending to from) w)"

definition is_swapped :: "floor_answer \<times> u64 \<Rightarrow> bool option \<times> u64" where
  "is_swapped r = (map_option is_ok (fst r), snd r)"

text \<open>
  The two releases read the word and then exchange it. \<open>seen\<close> is the word the first load
  returned and \<open>w\<close> the word at the exchange, so a change by another thread in between is
  \<open>seen \<noteq> w\<close>; undisturbed they are the same word.
\<close>

definition floor_release_racing :: "floor_owner \<Rightarrow> u64 \<Rightarrow> u64 \<Rightarrow> u64 \<Rightarrow> bool option \<times> u64" where
  "floor_release_racing owner generation seen w =
     (case floor_unpack seen of
        None \<Rightarrow> (None, w)
      | Some current \<Rightarrow>
          if fl_generation current = generation \<and> floor_state_owner (fl_state current) = Some owner
          then is_swapped (floor_swap_exact current (floor_freed current) w)
          else (Some False, w))"

definition floor_release :: "floor_owner \<Rightarrow> u64 \<Rightarrow> u64 \<Rightarrow> bool option \<times> u64" where
  "floor_release owner generation w = floor_release_racing owner generation w w"

definition floor_release_peer_racing :: "floor_peer \<Rightarrow> u64 \<Rightarrow> u64 \<Rightarrow> u64 \<Rightarrow> bool option \<times> u64" where
  "floor_release_peer_racing peer generation seen w =
     (case floor_unpack seen of
        None \<Rightarrow> (None, w)
      | Some current \<Rightarrow>
          if peer \<noteq> FLOOR_NONE \<and> fl_peer current = peer \<and> fl_generation current = generation
          then is_swapped (floor_swap_exact current (floor_freed current) w)
          else (Some False, w))"

definition floor_release_peer :: "floor_peer \<Rightarrow> u64 \<Rightarrow> u64 \<Rightarrow> bool option \<times> u64" where
  "floor_release_peer peer generation w = floor_release_peer_racing peer generation w w"

definition floor_reset :: "u64 \<Rightarrow> unit option \<times> u64" where
  "floor_reset w =
     (case floor_unpack w of
        None \<Rightarrow> (None, w)
      | Some current \<Rightarrow> (Some (), floor_pack (floor_freed current)))"

subsection \<open>Packing is exact\<close>

lemmas floor_bits = STATE_BITS_def PEER_BITS_def STATE_MASK_def PEER_MASK_def GENERATION_SHIFT_def

lemma floor_masks: "STATE_MASK = mask 3" "PEER_MASK = mask 4" "GENERATION_SHIFT = 7" "STATE_BITS = 3"
  by (simp_all add: floor_bits mask_eq_exp_minus_1)

lemma MAX_GENERATION_eq: "MAX_GENERATION = 2 ^ 57 - 1"
  by (simp add: MAX_GENERATION_def floor_masks mask_eq_exp_minus_1)

lemma le_MAX_GENERATION: "g \<le> MAX_GENERATION \<longleftrightarrow> unat g < 2 ^ 57"
  by (simp add: MAX_GENERATION_eq word_le_nat_alt) linarith

lemma floor_state_code_less: "unat (floor_state_code st) < 2 ^ 3"
  by (cases st) simp_all

lemma floor_from_code: "floor_state_from_code (floor_state_code st) = Some st"
  by (cases st) (simp_all add: floor_state_from_code_def)

lemma floor_unpack_pack:
  assumes "floor_well_formed s"
  shows "floor_unpack (floor_pack s) = Some s"
proof -
  define g p c where "g = fl_generation s" and "p = fl_peer s" and "c = floor_state_code (fl_state s)"
  have g: "bit g i \<Longrightarrow> i < 57" for i
    using assms low_bits [of g 57 i] by (simp add: floor_well_formed_def le_MAX_GENERATION g_def)
  have "unat p < 2 ^ 3"
    using assms by (simp add: floor_well_formed_def p_def word_le_nat_alt)
  then have p: "bit p i \<Longrightarrow> i < 3" for i
    using low_bits [of p 3 i] by simp
  have c: "bit c i \<Longrightarrow> i < 3" for i
    using low_bits [of c 3 i] floor_state_code_less by (simp add: c_def)
  have pack: "floor_pack s = (push_bit 7 g OR push_bit 3 (ucast p)) OR c"
    by (simp add: floor_pack_def g_def p_def c_def floor_masks)
  have "floor_pack s AND STATE_MASK = c"
    unfolding pack floor_masks by (rule bit_word_eqI) (auto simp: bit_simps dest: c)
  moreover have "drop_bit 7 (floor_pack s) = g"
    unfolding pack by (rule bit_word_eqI) (auto simp: bit_simps dest: c p g)
  moreover have "ucast (drop_bit 3 (floor_pack s) AND PEER_MASK) = p"
    unfolding pack floor_masks by (rule bit_word_eqI) (auto simp: bit_simps dest: c p g)
  ultimately show ?thesis
    by (simp add: floor_unpack_def c_def floor_from_code floor_masks g_def p_def)
qed

interpretation floor_word: packed_cell floor_pack floor_unpack floor_well_formed
  by unfold_locales (rule floor_unpack_pack)


lemma floor_pack_unpack:
  assumes "floor_unpack w = Some s"
  shows "floor_pack s = w"
proof -
  have code: "floor_state_code (fl_state s) = w AND mask 3"
    using assms
    by (auto simp: floor_unpack_def floor_masks floor_state_from_code_def
        split: option.splits if_splits)
  have sel: "fl_generation s = drop_bit 7 w" "fl_peer s = ucast (drop_bit 3 w AND mask 4)"
    using assms by (auto simp: floor_unpack_def floor_masks split: option.splits)
  show ?thesis
    unfolding floor_pack_def code sel floor_masks
    by (rule bit_word_eqI) (auto simp: bit_simps intro: ccontr)
qed

lemma floor_swap_exact_at:
  assumes "floor_well_formed cur" "floor_well_formed from"
  shows "floor_swap_exact from to (floor_pack cur) =
    (if cur = from then (Some (Inr to), floor_pack to) else (Some (Inl cur), floor_pack cur))"
  using assms by (simp add: floor_swap_exact_def floor_word.exchange_exact floor_unpack_pack)

lemma floor_next_sel [simp]:
  "fl_state (floor_next st p s) = st" "fl_peer (floor_next st p s) = p"
  by (simp_all add: floor_next_def)

lemma unat_MAX_GENERATION: "unat MAX_GENERATION = 2 ^ 57 - 1"
  by (simp add: MAX_GENERATION_eq)

lemma floor_next_generation:
  assumes "fl_generation s \<noteq> 0" "fl_generation s \<le> MAX_GENERATION"
  shows "unat (fl_generation (floor_next st p s)) = (unat (fl_generation s) - 1 + 1) mod (2 ^ 57 - 1) + 1"
proof -
  have g: "0 < unat (fl_generation s)" "unat (fl_generation s) \<le> 2 ^ 57 - 1"
    using assms unat_MAX_GENERATION by (auto simp: word_le_nat_alt unat_gt_0)
  show ?thesis
  proof (cases "MAX_GENERATION \<le> fl_generation s")
    case True
    then have "unat (fl_generation s) = 2 ^ 57 - 1"
      using g(2) unat_MAX_GENERATION by (simp add: word_le_nat_alt)
    with True show ?thesis by (simp add: floor_next_def)
  next
    case False
    then have "unat (fl_generation s) < 2 ^ 57 - 1"
      using unat_MAX_GENERATION by (simp add: word_le_nat_alt)
    moreover from this have "unat (fl_generation s + 1) = unat (fl_generation s) + 1"
      by (simp add: unat_word_ariths)
    ultimately show ?thesis using False g(1) by (simp add: floor_next_def)
  qed
qed

lemma floor_next_well_formed:
  assumes "floor_well_formed s" "p \<le> MAX_SLOT" "st = Free \<longleftrightarrow> p = FLOOR_NONE"
  shows "floor_well_formed (floor_next st p s)"
proof -
  have "unat (fl_generation (floor_next st p s)) = (unat (fl_generation s) - 1 + 1) mod (2 ^ 57 - 1) + 1"
    using assms(1) by (intro floor_next_generation) (auto simp: floor_well_formed_def)
  then have "fl_generation (floor_next st p s) \<noteq> 0" "fl_generation (floor_next st p s) \<le> MAX_GENERATION"
    by (auto simp: word_unat_eq_iff word_le_nat_alt unat_MAX_GENERATION simp flip: Suc_le_eq)
  then show ?thesis
    using assms(2,3) by (simp add: floor_well_formed_def)
qed


subsection \<open>Every change the shared word can see\<close>

text \<open>
  One step is one successful atomic write by any thread: an operation given whatever snapshot its
  caller decided from, however old, or a release whose first load returned any word at all.
\<close>

inductive floor_step :: "u64 \<Rightarrow> u64 \<Rightarrow> bool" where
  step_transition: "floor_transition from to w = (Some (Inr s), w') \<Longrightarrow> floor_step w w'"
| step_claim: "peer \<le> MAX_SLOT \<Longrightarrow> floor_claim from to peer w = (Some (Inr s), w') \<Longrightarrow> floor_step w w'"
| step_hand_over: "peer \<le> MAX_SLOT \<Longrightarrow> floor_hand_over from peer w = (Some (Inr s), w') \<Longrightarrow> floor_step w w'"
| step_release: "floor_release_racing owner g seen w = (Some True, w') \<Longrightarrow> floor_step w w'"
| step_release_peer: "floor_release_peer_racing peer g seen w = (Some True, w') \<Longrightarrow> floor_step w w'"
| step_reset: "floor_reset w = (Some (), w') \<Longrightarrow> floor_step w w'"

definition floor_reachable :: "u64 \<Rightarrow> bool" where
  "floor_reachable w = floor_step\<^sup>*\<^sup>* floor_new w"

text \<open>The edges of the floor: who may follow whom, and when the peer may change.\<close>

definition floor_edge :: "floor_snapshot \<Rightarrow> floor_snapshot \<Rightarrow> bool" where
  "floor_edge s t =
     (fl_state t = Free \<or>
      fl_state s = Free \<and> fl_state t \<in> {Requesting, Receiving} \<or>
      fl_state s = Requesting \<and> fl_state t \<in> {Sending, Receiving} \<and> fl_peer t = fl_peer s \<or>
      fl_state s = Sending \<and> fl_state t = Returning \<and> fl_peer t = fl_peer s \<or>
      fl_state s = Returning \<and> fl_state t = Sending \<and> fl_peer t \<noteq> fl_peer s \<or>
      fl_state s = Receiving \<and> fl_state t = Yielding \<and> fl_peer t = fl_peer s)"

definition floor_follows :: "floor_snapshot \<Rightarrow> floor_snapshot \<Rightarrow> bool" where
  "floor_follows s t =
     (floor_well_formed t \<and> floor_edge s t \<and> t = floor_next (fl_state t) (fl_peer t) s)"

lemma floor_follows_next:
  assumes "floor_well_formed s" "p \<le> MAX_SLOT" "st = Free \<longleftrightarrow> p = FLOOR_NONE"
    and "floor_edge s (floor_next st p s)"
  shows "floor_follows s (floor_next st p s)"
  using assms by (simp add: floor_follows_def floor_next_well_formed)

lemma floor_follows_freed: "floor_well_formed s \<Longrightarrow> floor_follows s (floor_freed s)"
  unfolding floor_freed_def
  by (rule floor_follows_next) (simp_all add: floor_edge_def)

lemma floor_swap_exact_Inr:
  "floor_swap_exact from to w = (Some (Inr s), w') \<longleftrightarrow>
     w = floor_pack from \<and> s = to \<and> w' = floor_pack to"
  by (auto simp: floor_swap_exact_def compare_exchange_def)

lemma floor_transition_Inr:
  assumes "floor_transition from to w = (Some (Inr s), w')"
  shows "floor_well_formed from \<and> w = floor_pack from \<and> w' = floor_pack s \<and> floor_follows from s"
proof -
  from assms have wf: "floor_well_formed from" and al: "floor_allows (fl_state from) to"
    by (auto simp: floor_transition_def floor_refuse_def split: if_splits)
  define p where "p = (if to = Free then FLOOR_NONE
      else if fl_state from = Free then FLOOR_SOLE else fl_peer from)"
  have sw: "floor_swap_exact from (floor_next to p from) w = (Some (Inr s), w')"
    using assms wf al by (simp add: floor_transition_def p_def Let_def)
  have "floor_follows from (floor_next to p from)"
    using wf al
    by (intro floor_follows_next)
      (auto simp: p_def floor_well_formed_def floor_edge_def
        elim!: floor_allows.elims)
  then show ?thesis
    using sw wf by (simp add: floor_swap_exact_Inr)
qed

text \<open>A transition that lands leaves the word at the snapshot it answers with, in the state asked for.\<close>

lemma transition_result:
  assumes "floor_transition a st w = (Some (Inr t), w1)"
  shows "fl_state t = st \<and> floor_unpack w1 = Some t"
proof -
  have "fl_state t = st"
    using assms by (auto simp: floor_transition_def floor_refuse_def Let_def floor_swap_exact_Inr split: if_splits)
  moreover have "floor_unpack w1 = Some t"
    using floor_transition_Inr [OF assms] by (auto simp: floor_follows_def floor_unpack_pack)
  ultimately show ?thesis by simp
qed

lemma floor_claim_Inr:
  assumes "floor_claim from to peer w = (Some (Inr s), w')" "peer \<le> MAX_SLOT"
  shows "floor_well_formed from \<and> w = floor_pack from \<and> w' = floor_pack s \<and> floor_follows from s"
proof -
  from assms(1) have wf: "floor_well_formed from" and al: "floor_claim_allowed from to peer"
    and sw: "floor_swap_exact from (floor_next to peer from) w = (Some (Inr s), w')"
    by (auto simp: floor_claim_def floor_refuse_def split: if_splits)
  have "floor_follows from (floor_next to peer from)"
    using wf al assms(2)
    by (intro floor_follows_next)
      (auto simp: floor_claim_allowed_def floor_well_formed_def floor_edge_def split: if_splits)
  then show ?thesis
    using sw wf by (simp add: floor_swap_exact_Inr)
qed

lemma floor_hand_over_Inr:
  assumes "floor_hand_over from peer w = (Some (Inr s), w')" "peer \<le> MAX_SLOT"
  shows "floor_well_formed from \<and> w = floor_pack from \<and> w' = floor_pack s \<and> floor_follows from s"
proof -
  from assms(1) have wf: "floor_well_formed from"
    and al: "fl_state from = Returning" "peer \<noteq> FLOOR_NONE" "peer \<noteq> fl_peer from"
    and sw: "floor_swap_exact from (floor_next Sending peer from) w = (Some (Inr s), w')"
    by (auto simp: floor_hand_over_def floor_refuse_def split: if_splits)
  have "floor_follows from (floor_next Sending peer from)"
    using wf al assms(2) by (intro floor_follows_next) (auto simp: floor_edge_def)
  then show ?thesis
    using sw wf by (simp add: floor_swap_exact_Inr)
qed

lemma is_swapped_True:
  "is_swapped r = (Some True, w') \<longleftrightarrow> (\<exists>s. r = (Some (Inr s), w'))"
  by (cases r) (auto simp: is_swapped_def is_ok_iff)

lemma floor_release_True:
  assumes "floor_release_racing owner g seen w = (Some True, w')"
  shows "\<exists>s. seen = w \<and> floor_unpack w = Some s \<and> w' = floor_pack (floor_freed s) \<and>
    fl_generation s = g \<and> floor_state_owner (fl_state s) = Some owner"
  using assms
  by (auto simp: floor_release_racing_def is_swapped_True floor_swap_exact_Inr floor_pack_unpack
      split: option.splits if_splits)

lemma floor_release_peer_True:
  assumes "floor_release_peer_racing peer g seen w = (Some True, w')"
  shows "\<exists>s. seen = w \<and> floor_unpack w = Some s \<and> w' = floor_pack (floor_freed s) \<and>
    fl_generation s = g \<and> fl_peer s = peer"
  using assms
  by (auto simp: floor_release_peer_racing_def is_swapped_True floor_swap_exact_Inr floor_pack_unpack
      split: option.splits if_splits)

lemma floor_step_follows:
  assumes "floor_step (floor_pack s) w'" "floor_well_formed s"
  shows "\<exists>t. w' = floor_pack t \<and> floor_follows s t"
  using assms(1)
proof cases
  case (step_transition s0 st t)
  then show ?thesis using floor_transition_Inr assms(2) floor_word.pack_inject by metis
next
  case (step_claim peer s0 st t)
  then show ?thesis using floor_claim_Inr assms(2) floor_word.pack_inject by metis
next
  case (step_hand_over peer s0 t)
  then show ?thesis using floor_hand_over_Inr assms(2) floor_word.pack_inject by metis
next
  case (step_release owner g seen)
  then show ?thesis
    using floor_release_True [OF step_release] floor_unpack_pack [OF assms(2)]
      floor_follows_freed [OF assms(2)] by auto
next
  case (step_release_peer peer g seen)
  then show ?thesis
    using floor_release_peer_True [OF step_release_peer] floor_unpack_pack [OF assms(2)]
      floor_follows_freed [OF assms(2)] by auto
next
  case step_reset
  then show ?thesis
    using floor_unpack_pack [OF assms(2)] floor_follows_freed [OF assms(2)]
    by (auto simp: floor_reset_def)
qed

lemma floor_new_well_formed:
  "floor_well_formed \<lparr>fl_state = Free, fl_generation = 1, fl_peer = FLOOR_NONE\<rparr>"
  by (simp add: floor_well_formed_def MAX_GENERATION_eq)

lemma floor_steps_well_formed:
  assumes "floor_step\<^sup>*\<^sup>* (floor_pack s) w" "floor_well_formed s"
  shows "\<exists>t. w = floor_pack t \<and> floor_well_formed t"
  using assms
proof (induction rule: rtranclp_induct)
  case (step w w')
  then show ?case using floor_step_follows by (metis floor_follows_def)
qed auto

lemma floor_reachable_well_formed:
  "floor_reachable w \<Longrightarrow> \<exists>s. w = floor_pack s \<and> floor_well_formed s"
  unfolding floor_reachable_def floor_new_def
  using floor_steps_well_formed floor_new_well_formed by blast

subsection \<open>Generations\<close>

text \<open>The generation counts changes modulo the number of generations that fit.\<close>

definition floor_index :: "floor_snapshot \<Rightarrow> nat" where
  "floor_index s = unat (fl_generation s) - 1"

lemma floor_index_less: "floor_well_formed s \<Longrightarrow> floor_index s < 2 ^ 57 - 1"
  unfolding floor_index_def floor_well_formed_def le_MAX_GENERATION by simp linarith

lemma floor_follows_index:
  "floor_well_formed s \<Longrightarrow> floor_follows s t \<Longrightarrow> floor_index t = Suc (floor_index s) mod (2 ^ 57 - 1)"
  unfolding floor_follows_def floor_index_def floor_well_formed_def
  by (metis add_diff_cancel_right' floor_next_generation Suc_eq_plus1)

lemma floor_steps_index:
  assumes "(floor_step ^^ n) (floor_pack s) w" "floor_well_formed s"
  shows "\<exists>t. w = floor_pack t \<and> floor_well_formed t \<and> floor_index t = (floor_index s + n) mod (2 ^ 57 - 1)"
  using assms
proof (induction n arbitrary: w)
  case 0
  then show ?case using floor_index_less by (auto simp del: One_nat_def)
next
  case (Suc n)
  from Suc.prems(1) obtain v where v: "(floor_step ^^ n) (floor_pack s) v" "floor_step v w"
    by (rule relpowp_Suc_E)
  obtain t where t: "v = floor_pack t" "floor_well_formed t"
    "floor_index t = (floor_index s + n) mod (2 ^ 57 - 1)"
    using Suc.IH [OF v(1) Suc.prems(2)] by blast
  obtain u where u: "w = floor_pack u" "floor_follows t u"
    using floor_step_follows v(2) t(1,2) by blast
  then have "floor_index u = Suc ((floor_index s + n) mod (2 ^ 57 - 1)) mod (2 ^ 57 - 1)"
    using floor_follows_index t by simp
  also have "\<dots> = (floor_index s + Suc n) mod (2 ^ 57 - 1)"
    unfolding mod_Suc_eq by simp
  finally show ?case using u by (auto simp: floor_follows_def)
qed

lemma shifted_mod_neq: "0 < n \<Longrightarrow> n < m \<Longrightarrow> i < m \<Longrightarrow> (i + n) mod m \<noteq> (i::nat)"
  by (metis add_diff_cancel_left' less_add_same_cancel1 mod_eq_dvd_iff_nat mod_less nat_dvd_not_less less_imp_le)

subsection \<open>Properties of the floor\<close>

text \<open>Packing loses nothing: every snapshot the floor writes is read back as it was, two of them
  share a word only if they are equal, and a word that unpacks at all packs back to itself.\<close>

theorem floor_pack_round_trip:
  "(floor_well_formed s \<longrightarrow> floor_unpack (floor_pack s) = Some s) \<and>
   (floor_well_formed s \<and> floor_well_formed t \<longrightarrow> (floor_pack s = floor_pack t \<longleftrightarrow> s = t)) \<and>
   (floor_unpack w = Some s \<longrightarrow> floor_pack s = w)"
  using floor_unpack_pack floor_word.pack_inject floor_pack_unpack by blast

theorem floor_pack_round_trip_witness:
  "floor_unpack (floor_pack \<lparr>fl_state = Sending, fl_generation = 9, fl_peer = 3\<rparr>)
     = Some \<lparr>fl_state = Sending, fl_generation = 9, fl_peer = 3\<rparr>"
  using floor_pack_round_trip
    [of "\<lparr>fl_state = Sending, fl_generation = 9, fl_peer = 3\<rparr>"
        "\<lparr>fl_state = Sending, fl_generation = 9, fl_peer = 3\<rparr>" 0]
  by (simp add: floor_well_formed_def MAX_GENERATION_eq)

text \<open>C17: Whatever operations any threads run with whatever snapshots they hold, the word always holds
  a well-formed snapshot (a peer exactly when the floor is held, generation never zero), reading it
  never panics, and every change follows an edge of the floor: only a request may turn into
  receiving, for the same peer, and only a returning floor may be handed to another peer.\<close>

theorem floor_changes_follow_edges:
  assumes "floor_reachable w"
  shows "\<exists>s. floor_well_formed s \<and> floor_unpack w = Some s \<and>
    (\<forall>w'. floor_step w w' \<longrightarrow> (\<exists>t. floor_unpack w' = Some t \<and> floor_follows s t))"
proof -
  obtain s where s: "w = floor_pack s" "floor_well_formed s"
    using floor_reachable_well_formed [OF assms] by blast
  have "\<exists>t. floor_unpack w' = Some t \<and> floor_follows s t" if "floor_step w w'" for w'
    using floor_step_follows [of s w'] that s floor_unpack_pack by (auto simp: floor_follows_def)
  then show ?thesis using s floor_unpack_pack by blast
qed

text \<open>C16: A decision taken from an old snapshot never lands. After one or more changes (fewer than
  the number of generations) every operation still holding the old snapshot or its generation
  fails, leaves the word alone, and reports the current snapshot, which has another generation.\<close>

theorem floor_stale_decisions_fail:
  assumes "floor_reachable w" "floor_unpack w = Some s"
    and "(floor_step ^^ n) w w'" "0 < n" "n < 2 ^ 57 - 1"
  shows "\<exists>cur. floor_unpack w' = Some cur \<and> fl_generation cur \<noteq> fl_generation s \<and>
    floor_transition s to w' = (Some (Inl cur), w') \<and>
    floor_claim s to p w' = (Some (Inl cur), w') \<and>
    floor_hand_over s p w' = (Some (Inl cur), w') \<and>
    floor_release owner (fl_generation s) w' = (Some False, w') \<and>
    floor_release_peer p (fl_generation s) w' = (Some False, w')"
proof -
  have s: "floor_well_formed s" "w = floor_pack s"
    using floor_reachable_well_formed [OF assms(1)] assms(2) floor_unpack_pack floor_pack_unpack
    by auto
  obtain cur where cur: "w' = floor_pack cur" "floor_well_formed cur"
    "floor_index cur = (floor_index s + n) mod (2 ^ 57 - 1)"
    using floor_steps_index assms(3) s by blast
  have "floor_index cur \<noteq> floor_index s"
    using cur(3) shifted_mod_neq [OF assms(4,5) floor_index_less [OF s(1)]] by simp
  then have gen: "fl_generation cur \<noteq> fl_generation s" and neq: "cur \<noteq> s"
    by (auto simp: floor_index_def)
  have un: "floor_unpack w' = Some cur"
    using cur floor_unpack_pack by simp
  have swap: "floor_swap_exact s t w' = (Some (Inl cur), w')" for t
    using floor_swap_exact_at [OF cur(2) s(1)] cur(1) neq by simp
  have "floor_transition s to w' = (Some (Inl cur), w')" "floor_claim s to p w' = (Some (Inl cur), w')"
    "floor_hand_over s p w' = (Some (Inl cur), w')"
    by (simp_all add: floor_transition_def floor_claim_def floor_hand_over_def floor_refuse_def
        swap un Let_def)
  moreover have "floor_release owner (fl_generation s) w' = (Some False, w')"
    "floor_release_peer p (fl_generation s) w' = (Some False, w')"
    using gen by (auto simp: floor_release_def floor_release_racing_def floor_release_peer_def
        floor_release_peer_racing_def un)
  ultimately show ?thesis using un gen by blast
qed

lemma floor_new_claim:
  "floor_step floor_new (floor_pack \<lparr>fl_state = Requesting, fl_generation = 2, fl_peer = 3\<rparr>)"
proof (rule step_claim)
  let ?free = "\<lparr>fl_state = Free, fl_generation = 1, fl_peer = FLOOR_NONE\<rparr>"
  show "(3::u8) \<le> MAX_SLOT" by simp
  show "floor_claim ?free Requesting 3 floor_new =
      (Some (Inr (floor_next Requesting 3 ?free)),
       floor_pack \<lparr>fl_state = Requesting, fl_generation = 2, fl_peer = 3\<rparr>)"
    using floor_new_well_formed
    by (simp add: floor_claim_def floor_claim_allowed_def floor_swap_exact_def
        compare_exchange_def floor_new_def floor_next_def MAX_GENERATION_eq word_le_nat_alt)
qed

theorem floor_changes_follow_edges_witness:
  "\<exists>s. floor_unpack floor_new = Some s \<and>
     (\<exists>t. floor_unpack (floor_pack \<lparr>fl_state = Requesting, fl_generation = 2, fl_peer = 3\<rparr>) = Some t \<and>
        floor_follows s t)"
  using floor_changes_follow_edges [of floor_new] floor_new_claim
  by (auto simp: floor_reachable_def)

theorem floor_stale_decisions_fail_witness:
  "\<exists>cur. fl_generation cur \<noteq> 1 \<and>
     floor_transition \<lparr>fl_state = Free, fl_generation = 1, fl_peer = FLOOR_NONE\<rparr> Receiving
       (floor_pack \<lparr>fl_state = Requesting, fl_generation = 2, fl_peer = 3\<rparr>)
     = (Some (Inl cur), floor_pack \<lparr>fl_state = Requesting, fl_generation = 2, fl_peer = 3\<rparr>)"
  using floor_stale_decisions_fail
    [of floor_new "\<lparr>fl_state = Free, fl_generation = 1, fl_peer = FLOOR_NONE\<rparr>" 1
      "floor_pack \<lparr>fl_state = Requesting, fl_generation = 2, fl_peer = 3\<rparr>" Receiving]
    floor_new_claim floor_unpack_pack [OF floor_new_well_formed]
  by (auto simp: floor_reachable_def floor_new_def)

end
