(* ===== verification/Take_Back.thy ===== *)
theory Take_Back
  imports Floor
begin

section \<open>Local input wins: \<open>monhop-core/src/take_back.rs\<close>\<close>

text \<open>
  The gate the capture callback, the injector and the coordinator share. The first part has every
  operation of the gate; the second splits the operations of the injector and of the callback
  into their single atomic accesses and lets them interleave with each other and with any change
  of the floor, which is what the sequentially consistent orderings of the source permit.
\<close>

abbreviation (input) TAKE_BACK_WINDOW :: duration where "TAKE_BACK_WINDOW \<equiv> from_millis 100"

abbreviation (input) CLOSED :: u64 where "CLOSED \<equiv> 0"

record 'k take_back_gate =
  tb_floor :: u64
  tb_admission :: u64
  tb_held :: u32
  tb_changes :: u64
  tb_triggered :: u64
  tb_waker :: "'k option"

datatype take_back_outcome = NotReceiving | Triggered bool

definition gate_new :: "u64 \<Rightarrow> 'k take_back_gate" where
  "gate_new fl = \<lparr>tb_floor = fl, tb_admission = CLOSED, tb_held = 0, tb_changes = 0,
     tb_triggered = 0, tb_waker = None\<rparr>"

definition open_injection :: "u64 \<Rightarrow> 'k take_back_gate \<Rightarrow> 'k take_back_gate" where
  "open_injection generation g = g\<lparr>tb_admission := generation\<rparr>"

text \<open>The check the injector makes between its two loads: the admission it read, then the floor.\<close>

definition admits_with :: "u64 \<Rightarrow> u64 \<Rightarrow> bool option" where
  "admits_with admitted fl =
     (if admitted = CLOSED then Some False
      else case floor_unpack fl of
          None \<Rightarrow> None
        | Some s \<Rightarrow> Some (fl_state s = Receiving \<and> fl_generation s = admitted))"

definition admits_injection :: "'k take_back_gate \<Rightarrow> bool option" where
  "admits_injection g = admits_with (tb_admission g) (tb_floor g)"

definition note_injection_change :: "'k take_back_gate \<Rightarrow> 'k take_back_gate" where
  "note_injection_change g = g\<lparr>tb_changes := tb_changes g + 1\<rparr>"

definition note_injected_press :: "'k take_back_gate \<Rightarrow> 'k take_back_gate" where
  "note_injected_press g = note_injection_change (g\<lparr>tb_held := tb_held g + 1\<rparr>)"

definition note_injected_up :: "'k take_back_gate \<Rightarrow> 'k take_back_gate" where
  "note_injected_up g =
     note_injection_change (if tb_held g = 0 then g else g\<lparr>tb_held := tb_held g - 1\<rparr>)"

definition note_injected_released :: "'k take_back_gate \<Rightarrow> 'k take_back_gate" where
  "note_injected_released g = note_injection_change (g\<lparr>tb_held := 0\<rparr>)"

definition injected_held :: "'k take_back_gate \<Rightarrow> bool" where
  "injected_held g = (tb_held g > 0)"

definition set_waker :: "'k \<Rightarrow> 'k take_back_gate \<Rightarrow> bool \<times> 'k take_back_gate" where
  "set_waker k g = (case tb_waker g of
       None \<Rightarrow> (True, g\<lparr>tb_waker := Some k\<rparr>)
     | Some _ \<Rightarrow> (False, g))"

definition take_triggered :: "'k take_back_gate \<Rightarrow> u64 option \<times> 'k take_back_gate" where
  "take_triggered g =
     (if tb_triggered g = 0 then None else Some (tb_triggered g), g\<lparr>tb_triggered := 0\<rparr>)"

text \<open>
  One turn of the loop that moves the floor off Receiving. It ends with what it yielded, goes
  round again with the snapshot the failed exchange reported, or panics on a foreign word.
\<close>

datatype yield_progress =
    YieldDone "(floor_snapshot \<times> floor_snapshot) option"
  | YieldAgain floor_snapshot
  | YieldPanic

definition yield_attempt :: "floor_snapshot \<Rightarrow> u64 \<Rightarrow> yield_progress \<times> u64" where
  "yield_attempt current w =
     (if fl_state current \<noteq> Receiving then (YieldDone None, w)
      else case floor_transition current Yielding w of
          (Some (Inr yielding), w') \<Rightarrow> (YieldDone (Some (current, yielding)), w')
        | (Some (Inl changed), w') \<Rightarrow> (YieldAgain changed, w')
        | (None, w') \<Rightarrow> (YieldPanic, w'))"

text \<open>The loop, with what other threads do to the word before each attempt as the list.\<close>

fun yield_loop ::
    "(u64 \<Rightarrow> u64) list \<Rightarrow> floor_snapshot \<Rightarrow> u64
     \<Rightarrow> (floor_snapshot \<times> floor_snapshot) option option \<times> u64"
where
  "yield_loop [] current w = (None, w)"
| "yield_loop (others # rest) current w =
     (case yield_attempt current (others w) of
        (YieldDone r, w') \<Rightarrow> (Some r, w')
      | (YieldAgain changed, w') \<Rightarrow> yield_loop rest changed w'
      | (YieldPanic, w') \<Rightarrow> (None, w'))"

definition yield_floor ::
    "(u64 \<Rightarrow> u64) list \<Rightarrow> u64 \<Rightarrow> (floor_snapshot \<times> floor_snapshot) option option \<times> u64" where
  "yield_floor others w = (case floor_unpack w of
       None \<Rightarrow> (None, w)
     | Some current \<Rightarrow> yield_loop others current w)"

definition close_admission :: "u64 \<Rightarrow> 'k take_back_gate \<Rightarrow> 'k take_back_gate" where
  "close_admission generation g =
     g\<lparr>tb_admission := snd (compare_exchange generation CLOSED (tb_admission g))\<rparr>"

definition report_triggered :: "floor_snapshot \<Rightarrow> 'k take_back_gate \<Rightarrow> 'k take_back_gate" where
  "report_triggered yielding g = g\<lparr>tb_triggered := fl_generation yielding\<rparr>"

text \<open>\<open>close_yielded\<close> also answers with the waker it ran.\<close>

definition close_yielded ::
    "floor_snapshot \<times> floor_snapshot \<Rightarrow> 'k take_back_gate
     \<Rightarrow> (take_back_outcome \<times> 'k option) \<times> 'k take_back_gate"
where
  "close_yielded ry g =
     (let g1 = close_admission (fl_generation (fst ry)) g;
          withhold = injected_held g1;
          g2 = report_triggered (snd ry) g1
      in ((Triggered withhold, tb_waker g2), g2))"

definition trigger ::
    "(u64 \<Rightarrow> u64) list \<Rightarrow> 'k take_back_gate
     \<Rightarrow> (take_back_outcome \<times> 'k option) option \<times> 'k take_back_gate"
where
  "trigger others g =
     (case yield_floor others (tb_floor g) of
        (None, w) \<Rightarrow> (None, g\<lparr>tb_floor := w\<rparr>)
      | (Some None, w) \<Rightarrow> (Some (NotReceiving, None), g\<lparr>tb_floor := w\<rparr>)
      | (Some (Some ry), w) \<Rightarrow>
          (let (out, g') = close_yielded ry (g\<lparr>tb_floor := w\<rparr>) in (Some out, g')))"

subsection \<open>An undisturbed take-back\<close>

lemma yield_attempt_current:
  assumes "floor_well_formed s"
  shows "yield_attempt s (floor_pack s) =
    (if fl_state s = Receiving
     then (YieldDone (Some (s, floor_next Yielding (fl_peer s) s)), floor_pack (floor_next Yielding (fl_peer s) s))
     else (YieldDone None, floor_pack s))"
  using assms
  by (simp add: yield_attempt_def floor_transition_def floor_swap_exact_at Let_def)

text \<open>However the first attempt is disturbed, an undisturbed second one ends the loop.\<close>

lemma yield_floor_terminates:
  assumes "floor_well_formed s" "f (floor_pack s) = floor_pack t" "floor_well_formed t"
  shows "\<exists>r w. yield_floor [f, \<lambda>w. w] (floor_pack s) = (Some r, w)"
proof -
  have un: "floor_unpack (floor_pack s) = Some s"
    using assms(1) by (rule floor_unpack_pack)
  consider "s = t" | "fl_state s \<noteq> Receiving" | "s \<noteq> t" "fl_state s = Receiving" by blast
  then show ?thesis
  proof cases
    case 1
    with assms un show ?thesis by (simp add: yield_floor_def yield_attempt_current)
  next
    case 2
    then show ?thesis by (simp add: yield_floor_def un yield_attempt_def)
  next
    case 3
    then have "yield_attempt s (floor_pack t) = (YieldAgain t, floor_pack t)"
      using assms by (simp add: yield_attempt_def floor_transition_def floor_swap_exact_at Let_def)
    then show ?thesis by (simp add: yield_floor_def un assms yield_attempt_current)
  qed
qed

subsection \<open>The interleaved system\<close>

text \<open>
  The injector's and the callback's positions between two atomic accesses. \<open>InjUncount\<close> is a
  counted press that was refused, or a posted release, whose count is still to be taken back.
  The two writes of a note are one step: nothing here reads the second one.
\<close>

datatype inj_pc = InjIdle | InjCounted | InjLoaded u64 | InjAdmitted | InjUncount | InjReleased

datatype cb_pc =
    CbIdle
  | CbTrying floor_snapshot
  | CbYielded floor_snapshot floor_snapshot
  | CbClosed floor_snapshot
  | CbDecided bool floor_snapshot

record 'k tb_system =
  sys_gate :: "'k take_back_gate"
  sys_inj :: inj_pc
  sys_cb :: cb_pc
  sys_down :: nat \<comment> \<open>injected keys and buttons down in the operating system\<close>

definition with_gate :: "('k take_back_gate \<Rightarrow> 'k take_back_gate) \<Rightarrow> 'k tb_system \<Rightarrow> 'k tb_system" where
  "with_gate f s = s\<lparr>sys_gate := f (sys_gate s)\<rparr>"

inductive tb_step :: "'k tb_system \<Rightarrow> 'k tb_system \<Rightarrow> bool" where
  env_floor: "floor_step (tb_floor (sys_gate s)) w \<Longrightarrow> tb_step s (with_gate (tb_floor_update (\<lambda>_. w)) s)"
| env_open: "tb_step s (with_gate (open_injection generation) s)"
| env_take: "tb_step s (with_gate (\<lambda>g. snd (take_triggered g)) s)"
| inj_count: "sys_inj s = InjIdle \<Longrightarrow> sys_down s + 1 < 2 ^ 32 \<Longrightarrow>
    tb_step s (with_gate note_injected_press s\<lparr>sys_inj := InjCounted\<rparr>)"
| inj_load: "sys_inj s = InjCounted \<Longrightarrow>
    tb_step s (s\<lparr>sys_inj := InjLoaded (tb_admission (sys_gate s))\<rparr>)"
| inj_admit: "sys_inj s = InjLoaded a \<Longrightarrow> admits_with a (tb_floor (sys_gate s)) = Some True \<Longrightarrow>
    tb_step s (s\<lparr>sys_inj := InjAdmitted\<rparr>)"
| inj_refuse: "sys_inj s = InjLoaded a \<Longrightarrow> admits_with a (tb_floor (sys_gate s)) = Some False \<Longrightarrow>
    tb_step s (s\<lparr>sys_inj := InjUncount\<rparr>)"
| inj_post: "sys_inj s = InjAdmitted \<Longrightarrow>
    tb_step s (s\<lparr>sys_inj := InjIdle, sys_down := sys_down s + 1\<rparr>)"
| inj_post_up: "sys_inj s = InjIdle \<Longrightarrow> 0 < sys_down s \<Longrightarrow>
    tb_step s (s\<lparr>sys_inj := InjUncount, sys_down := sys_down s - 1\<rparr>)"
| inj_uncount: "sys_inj s = InjUncount \<Longrightarrow>
    tb_step s (with_gate note_injected_up s\<lparr>sys_inj := InjIdle\<rparr>)"
| inj_release_all: "sys_inj s = InjIdle \<Longrightarrow>
    tb_step s (s\<lparr>sys_inj := InjReleased, sys_down := 0\<rparr>)"
| inj_released: "sys_inj s = InjReleased \<Longrightarrow>
    tb_step s (with_gate note_injected_released s\<lparr>sys_inj := InjIdle\<rparr>)"
| cb_start: "sys_cb s = CbIdle \<Longrightarrow> floor_unpack (tb_floor (sys_gate s)) = Some current \<Longrightarrow>
    tb_step s (s\<lparr>sys_cb := CbTrying current\<rparr>)"
| cb_not_receiving: "sys_cb s = CbTrying current \<Longrightarrow>
    yield_attempt current (tb_floor (sys_gate s)) = (YieldDone None, w) \<Longrightarrow>
    tb_step s (with_gate (tb_floor_update (\<lambda>_. w)) s\<lparr>sys_cb := CbIdle\<rparr>)"
| cb_again: "sys_cb s = CbTrying current \<Longrightarrow>
    yield_attempt current (tb_floor (sys_gate s)) = (YieldAgain changed, w) \<Longrightarrow>
    tb_step s (with_gate (tb_floor_update (\<lambda>_. w)) s\<lparr>sys_cb := CbTrying changed\<rparr>)"
| cb_yield: "sys_cb s = CbTrying current \<Longrightarrow>
    yield_attempt current (tb_floor (sys_gate s)) = (YieldDone (Some (receiving, yielding)), w) \<Longrightarrow>
    tb_step s (with_gate (tb_floor_update (\<lambda>_. w)) s\<lparr>sys_cb := CbYielded receiving yielding\<rparr>)"
| cb_close: "sys_cb s = CbYielded receiving yielding \<Longrightarrow>
    tb_step s (with_gate (close_admission (fl_generation receiving)) s\<lparr>sys_cb := CbClosed yielding\<rparr>)"
| cb_decide: "sys_cb s = CbClosed yielding \<Longrightarrow>
    tb_step s (s\<lparr>sys_cb := CbDecided (injected_held (sys_gate s)) yielding\<rparr>)"
| cb_report: "sys_cb s = CbDecided withhold yielding \<Longrightarrow>
    tb_step s (with_gate (report_triggered yielding) s\<lparr>sys_cb := CbIdle\<rparr>)"

definition tb_initial :: "u64 \<Rightarrow> 'k tb_system" where
  "tb_initial fl = \<lparr>sys_gate = gate_new fl, sys_inj = InjIdle, sys_cb = CbIdle, sys_down = 0\<rparr>"

definition tb_reachable :: "'k tb_system \<Rightarrow> bool" where
  "tb_reachable s = (\<exists>fl. floor_reachable fl \<and> tb_step\<^sup>*\<^sup>* (tb_initial fl) s)"

definition floor_receiving :: "'k tb_system \<Rightarrow> bool" where
  "floor_receiving s =
     (case floor_unpack (tb_floor (sys_gate s)) of
        None \<Rightarrow> False | Some f \<Rightarrow> fl_state f = Receiving)"

subsection \<open>The count covers everything that is down or may still be posted\<close>

fun inj_pending :: "inj_pc \<Rightarrow> nat" where
  "inj_pending InjIdle = 0"
| "inj_pending InjReleased = 0"
| "inj_pending _ = 1"

definition tb_inv :: "'k tb_system \<Rightarrow> bool" where
  "tb_inv s =
     (if sys_inj s = InjReleased then sys_down s = 0
      else unat (tb_held (sys_gate s)) = sys_down s + inj_pending (sys_inj s))"

lemma with_gate_sel [simp]:
  "sys_gate (with_gate f s) = f (sys_gate s)" "sys_inj (with_gate f s) = sys_inj s"
  "sys_cb (with_gate f s) = sys_cb s" "sys_down (with_gate f s) = sys_down s"
  by (simp_all add: with_gate_def)

lemma tb_held_notes [simp]:
  "tb_held (note_injection_change g) = tb_held g"
  "tb_held (note_injected_press g) = tb_held g + 1"
  "tb_held (note_injected_up g) = (if tb_held g = 0 then 0 else tb_held g - 1)"
  "tb_held (note_injected_released g) = 0"
  "tb_held (open_injection a g) = tb_held g"
  "tb_held (close_admission a g) = tb_held g"
  "tb_held (report_triggered y g) = tb_held g"
  "tb_held (snd (take_triggered g)) = tb_held g"
  by (simp_all add: note_injection_change_def note_injected_press_def note_injected_up_def
      note_injected_released_def open_injection_def close_admission_def report_triggered_def
      take_triggered_def)

lemma tb_inv_step: "tb_step s t \<Longrightarrow> tb_inv s \<Longrightarrow> tb_inv t"
proof (induction rule: tb_step.induct)
  case (inj_count s)
  then have "unat (tb_held (sys_gate s) + 1) = unat (tb_held (sys_gate s)) + 1"
    by (simp add: tb_inv_def unat_word_ariths)
  with inj_count show ?case by (simp add: tb_inv_def)
next
  case (inj_uncount s)
  then have "unat (tb_held (sys_gate s)) = Suc (sys_down s)"
    by (simp add: tb_inv_def)
  moreover from this have "unat (tb_held (sys_gate s) - 1) = sys_down s" "tb_held (sys_gate s) \<noteq> 0"
    by (auto simp: unat_sub word_le_nat_alt)
  ultimately show ?case by (simp add: tb_inv_def)
qed (auto simp: tb_inv_def)

lemma tb_reachable_inv: "tb_reachable s \<Longrightarrow> tb_inv s"
proof -
  have "tb_inv (tb_initial fl)" for fl
    by (simp add: tb_inv_def tb_initial_def gate_new_def)
  moreover have "tb_step\<^sup>*\<^sup>* s t \<Longrightarrow> tb_inv s \<Longrightarrow> tb_inv t" for s t
    by (induction rule: rtranclp_induct) (auto intro: tb_inv_step)
  ultimately show "tb_reachable s \<Longrightarrow> tb_inv s"
    by (auto simp: tb_reachable_def)
qed

text \<open>
  A step grants an activation when it takes a floor that is not receiving to one that is. Nothing
  else is asked of a step here: that the floor stops receiving is the yield's own doing.
\<close>

definition grants_activation :: "'k tb_system \<Rightarrow> 'k tb_system \<Rightarrow> bool" where
  "grants_activation s t \<longleftrightarrow> \<not> floor_receiving s \<and> floor_receiving t"

definition tb_ungranted :: "'k tb_system \<Rightarrow> 'k tb_system \<Rightarrow> bool" where
  "tb_ungranted s t \<longleftrightarrow> tb_step s t \<and> \<not> grants_activation s t"

definition nothing_in_flight :: "'k tb_system \<Rightarrow> bool" where
  "nothing_in_flight s = (sys_down s = 0 \<and> sys_inj s \<noteq> InjAdmitted)"

lemma admits_needs_receiving:
  "admits_with a (tb_floor (sys_gate s)) = Some True \<Longrightarrow> floor_receiving s"
  by (auto simp: admits_with_def floor_receiving_def split: if_splits option.splits)

lemma nothing_in_flight_step:
  "tb_step s t \<Longrightarrow> \<not> floor_receiving s \<Longrightarrow> nothing_in_flight s \<Longrightarrow> nothing_in_flight t"
  by (induction rule: tb_step.induct)
    (auto simp: nothing_in_flight_def dest: admits_needs_receiving)

text \<open>The yield moves the floor itself off receiving, to the snapshot it reports.\<close>

lemma yield_attempt_yields:
  assumes "yield_attempt current w = (YieldDone (Some (receiving, yielding)), w1)"
  shows "fl_state yielding = Yielding \<and> floor_unpack w1 = Some yielding"
proof -
  have "floor_transition current Yielding w = (Some (Inr yielding), w1)"
    using assms by (auto simp: yield_attempt_def split: if_splits prod.splits option.splits sum.splits)
  then show ?thesis by (rule transition_result)
qed

lemma yield_step:
  assumes "tb_step s t" "sys_cb s = CbTrying current" "sys_cb t = CbYielded receiving yielding"
  shows "fl_state yielding = Yielding \<and> floor_unpack (tb_floor (sys_gate t)) = Some yielding"
  using assms(1)
proof cases
  case (cb_yield current' receiving' yielding' w)
  then show ?thesis using assms(2,3) yield_attempt_yields by auto
qed (use assms(2,3) in auto)

lemma ungranted_keeps_off:
  assumes "tb_ungranted\<^sup>*\<^sup>* s t" "\<not> floor_receiving s"
  shows "\<not> floor_receiving t"
  using assms by (induction rule: rtranclp_induct) (auto simp: tb_ungranted_def grants_activation_def)

lemma nothing_in_flight_stays:
  assumes "tb_ungranted\<^sup>*\<^sup>* s t" "\<not> floor_receiving s" "nothing_in_flight s"
  shows "nothing_in_flight t"
  using assms
proof (induction rule: rtranclp_induct)
  case (step t u)
  then have "\<not> floor_receiving t" using ungranted_keeps_off by blast
  then show ?case using step by (auto simp: tb_ungranted_def intro: nothing_in_flight_step)
qed

lemma tb_reachable_steps: "tb_reachable s \<Longrightarrow> tb_ungranted\<^sup>*\<^sup>* s t \<Longrightarrow> tb_reachable t"
proof -
  have "tb_ungranted\<^sup>*\<^sup>* s t \<Longrightarrow> tb_step\<^sup>*\<^sup>* s t"
    by (rule mono_rtranclp [rule_format, of tb_ungranted]) (simp add: tb_ungranted_def)
  then show "tb_reachable s \<Longrightarrow> tb_ungranted\<^sup>*\<^sup>* s t \<Longrightarrow> tb_reachable t"
    unfolding tb_reachable_def using rtranclp_trans by fast
qed

text \<open>C14: No injected press lands after a take-back that decided not to withhold. Take any reachable
  state of injector, callback, coordinator and floor in which the callback's attempt to yield lands.
  The yield itself has then taken the floor to yielding, and as long as no new activation is granted
  it stays off receiving, under every interleaving and every other change of the floor. When the
  callback later reads the held count as zero, nothing injected is down and no press has passed its
  admission check, and from then on, as long as no activation is granted, nothing injected goes down
  and no press passes its check.\<close>

theorem take_back_strands_nothing:
  assumes "tb_reachable s0" "tb_step s0 s1" "sys_cb s0 = CbTrying current" "sys_cb s1 = CbYielded receiving yielding"
    and "tb_ungranted\<^sup>*\<^sup>* s1 s" "sys_cb s = CbClosed yielded" "\<not> injected_held (sys_gate s)"
    and "tb_ungranted\<^sup>*\<^sup>* s t"
  shows "floor_unpack (tb_floor (sys_gate s1)) = Some yielding \<and> fl_state yielding = Yielding \<and>
    \<not> floor_receiving s \<and> sys_down s = 0 \<and> sys_inj s \<noteq> InjAdmitted \<and>
    \<not> floor_receiving t \<and> sys_down t = 0 \<and> sys_inj t \<noteq> InjAdmitted"
proof -
  have moved: "fl_state yielding = Yielding" "floor_unpack (tb_floor (sys_gate s1)) = Some yielding"
    using yield_step [OF assms(2-4)] by auto
  then have "\<not> floor_receiving s1" by (simp add: floor_receiving_def)
  then have off: "\<not> floor_receiving s" by (rule ungranted_keeps_off [OF assms(5)])
  have "tb_reachable s1"
    using assms(1,2) unfolding tb_reachable_def by (meson rtranclp.rtrancl_into_rtrancl)
  then have "tb_inv s" using tb_reachable_inv tb_reachable_steps assms(5) by blast
  then have now: "nothing_in_flight s"
    using assms(7)
    by (auto simp: tb_inv_def nothing_in_flight_def injected_held_def word_gt_0 split: if_splits)
  show ?thesis
    using moved off now nothing_in_flight_stays [OF assms(8) off now] ungranted_keeps_off [OF assms(8) off]
    by (simp add: nothing_in_flight_def)
qed

text \<open>C15: An undisturbed take-back while receiving moves the floor to yielding for the same peer,
  closes the yielded generation's admission and no other, withholds exactly when injected input is
  down, runs the registered waker, and hands the coordinator the new generation exactly once.
  Injection is not admitted afterwards. When the floor is not receiving nothing changes.\<close>

theorem trigger_behaviour:
  assumes "tb_floor g = floor_pack s" "floor_well_formed s"
  shows "(fl_state s \<noteq> Receiving \<longrightarrow> trigger [\<lambda>w. w] g = (Some (NotReceiving, None), g)) \<and>
   (fl_state s = Receiving \<longrightarrow>
     (\<exists>g' y. trigger [\<lambda>w. w] g = (Some (Triggered (injected_held g), tb_waker g), g') \<and>
       y = floor_next Yielding (fl_peer s) s \<and>
       tb_floor g' = floor_pack y \<and> admits_injection g' = Some False \<and>
       tb_admission g' = (if tb_admission g = fl_generation s then CLOSED else tb_admission g) \<and>
       fst (take_triggered g') = Some (fl_generation y) \<and>
       fst (take_triggered (snd (take_triggered g'))) = None))"
proof -
  have un: "floor_unpack (floor_pack s) = Some s"
    using assms(2) by (rule floor_unpack_pack)
  define y where "y = floor_next Yielding (fl_peer s) s"
  have "floor_well_formed y" if "fl_state s = Receiving"
    unfolding y_def using assms(2) that
    by (intro floor_next_well_formed) (auto simp: floor_well_formed_def)
  moreover have "fl_generation y \<noteq> 0" if "floor_well_formed y"
    using that by (simp add: floor_well_formed_def)
  moreover have "fl_state y = Yielding" by (simp add: y_def)
  ultimately show ?thesis
    using assms un floor_unpack_pack [of y]
    by (auto simp: trigger_def yield_floor_def yield_attempt_current y_def [symmetric]
        close_yielded_def close_admission_def report_triggered_def injected_held_def Let_def
        admits_injection_def admits_with_def compare_exchange_def take_triggered_def)
qed

subsection \<open>A concrete take-back\<close>

definition sample_receiving :: floor_snapshot where
  "sample_receiving = \<lparr>fl_state = Receiving, fl_generation = 2, fl_peer = 3\<rparr>"

definition sample_yielding :: floor_snapshot where
  "sample_yielding = \<lparr>fl_state = Yielding, fl_generation = 3, fl_peer = 3\<rparr>"

definition sample_trying :: "unit tb_system" where
  "sample_trying = (tb_initial (floor_pack sample_receiving))\<lparr>sys_cb := CbTrying sample_receiving\<rparr>"

definition sample_yielded :: "unit tb_system" where
  "sample_yielded =
     (tb_initial (floor_pack sample_yielding))\<lparr>sys_cb := CbYielded sample_receiving sample_yielding\<rparr>"

definition sample_closed :: "unit tb_system" where
  "sample_closed =
     (tb_initial (floor_pack sample_yielding))\<lparr>sys_cb := CbClosed sample_yielding\<rparr>"

definition sample_late_press :: "unit tb_system" where
  "sample_late_press = with_gate note_injected_press sample_closed\<lparr>sys_inj := InjCounted\<rparr>"

lemma sample_snapshots:
  "floor_well_formed sample_receiving" "floor_well_formed sample_yielding"
  "floor_next Yielding 3 sample_receiving = sample_yielding"
  "fl_state sample_receiving = Receiving" "fl_peer sample_receiving = 3"
  by (simp_all add: floor_well_formed_def sample_receiving_def sample_yielding_def
      MAX_GENERATION_eq floor_next_def word_le_nat_alt)

lemma sample_floor_reachable: "floor_reachable (floor_pack sample_receiving)"
proof -
  let ?free = "\<lparr>fl_state = Free, fl_generation = 1, fl_peer = FLOOR_NONE\<rparr>"
  have "floor_claim ?free Receiving 3 floor_new = (Some (Inr sample_receiving), floor_pack sample_receiving)"
    using floor_new_well_formed
    by (simp add: floor_claim_def floor_claim_allowed_def floor_swap_exact_def
        compare_exchange_def floor_new_def floor_next_def MAX_GENERATION_eq word_le_nat_alt
        sample_receiving_def)
  moreover have "(3::u8) \<le> MAX_SLOT" by simp
  ultimately show ?thesis
    unfolding floor_reachable_def by (blast intro: step_claim)
qed

lemma sample_trying_reachable: "tb_reachable sample_trying"
proof -
  let ?s0 = "tb_initial (floor_pack sample_receiving) :: unit tb_system"
  have "tb_step ?s0 sample_trying"
    unfolding sample_trying_def
    by (rule cb_start) (simp_all add: tb_initial_def gate_new_def floor_unpack_pack sample_snapshots)
  then show ?thesis
    unfolding tb_reachable_def using sample_floor_reachable by blast
qed

lemma sample_yield_step: "tb_step sample_trying sample_yielded"
proof -
  have "yield_attempt sample_receiving (tb_floor (sys_gate sample_trying)) =
      (YieldDone (Some (sample_receiving, sample_yielding)), floor_pack sample_yielding)"
    using yield_attempt_current [OF sample_snapshots(1)] sample_snapshots
    by (simp add: sample_trying_def tb_initial_def gate_new_def)
  from cb_yield [OF _ this] show ?thesis
    by (simp add: sample_trying_def sample_yielded_def tb_initial_def gate_new_def with_gate_def)
qed

lemma sample_closed_steps: "tb_ungranted sample_yielded sample_closed" "tb_ungranted sample_closed sample_late_press"
proof -
  have "tb_step sample_yielded sample_closed"
    using cb_close [of sample_yielded sample_receiving sample_yielding]
    by (simp add: sample_yielded_def sample_closed_def with_gate_def close_admission_def compare_exchange_def
        tb_initial_def gate_new_def split: if_splits)
  moreover have "tb_step sample_closed sample_late_press"
    unfolding sample_late_press_def
    by (rule inj_count) (simp_all add: sample_closed_def tb_initial_def)
  moreover have "\<not> floor_receiving sample_closed" "\<not> floor_receiving sample_late_press"
    by (simp_all add: floor_receiving_def sample_late_press_def sample_closed_def tb_initial_def
        gate_new_def note_injected_press_def note_injection_change_def floor_unpack_pack
        sample_snapshots) (simp_all add: sample_yielding_def)
  ultimately show "tb_ungranted sample_yielded sample_closed" "tb_ungranted sample_closed sample_late_press"
    by (simp_all add: tb_ungranted_def grants_activation_def)
qed

text \<open>A press counted too late, after the decision, with the floor yielded.\<close>

theorem take_back_strands_nothing_witness:
  "tb_reachable sample_trying \<and> tb_step sample_trying sample_yielded \<and> sys_cb sample_closed = CbClosed sample_yielding \<and>
   sys_inj sample_late_press = InjCounted \<and> sys_down sample_late_press = 0 \<and> \<not> floor_receiving sample_late_press"
proof -
  have a: "sys_cb sample_trying = CbTrying sample_receiving" "sys_cb sample_yielded = CbYielded sample_receiving sample_yielding"
    "sys_cb sample_closed = CbClosed sample_yielding" "\<not> injected_held (sys_gate sample_closed)"
    by (simp_all add: sample_trying_def sample_yielded_def sample_closed_def tb_initial_def gate_new_def injected_held_def)
  have "\<not> floor_receiving sample_late_press \<and> sys_down sample_late_press = 0"
    using take_back_strands_nothing [OF sample_trying_reachable sample_yield_step a(1,2)
        r_into_rtranclp [of tb_ungranted, OF sample_closed_steps(1)] a(3,4)
        r_into_rtranclp [of tb_ungranted, OF sample_closed_steps(2)]] by simp
  then show ?thesis
    using sample_trying_reachable sample_yield_step a(3) by (simp add: sample_late_press_def)
qed

theorem trigger_behaviour_witness:
  "\<exists>g'. trigger [\<lambda>w. w] ((gate_new (floor_pack sample_receiving))\<lparr>tb_admission := 2, tb_held := 1\<rparr>)
      = (Some (Triggered True, None), g' :: unit take_back_gate) \<and>
     tb_admission g' = CLOSED \<and> fst (take_triggered g') = Some 3"
  using trigger_behaviour [of "(gate_new (floor_pack sample_receiving))\<lparr>tb_admission := 2, tb_held := 1\<rparr>
      :: unit take_back_gate" sample_receiving] sample_snapshots
  by (auto simp: gate_new_def injected_held_def sample_receiving_def sample_yielding_def)

end
