(* ===== verification/Topology.thy ===== *)
theory Topology
  imports Core_Types
begin

section \<open>Display geometry and edge transitions: \<open>monhop-core/src/topology.rs\<close>\<close>

text \<open>
  Machines, displays and the directed links between their edges, the validation that builds a
  topology, and the decision whether one motion sample crosses a link. All coordinates are
  doubles with their rounding; a panic of \<open>clamp\<close> is the outer \<open>None\<close> of the operations that
  clamp. The source's ordered maps are maps from keys, and a name is its UTF-8 bytes.
\<close>

abbreviation (input) MAX_DISPLAYS :: nat where "MAX_DISPLAYS \<equiv> 16"

record machine =
  mach_id :: device_id
  mach_platform :: platform

record native_size =
  ns_width :: u32
  ns_height :: u32

record logical_size =
  ls_width :: f64
  ls_height :: f64

record logical_rect =
  rect_origin :: point
  rect_size :: logical_size

definition max_x :: "logical_rect \<Rightarrow> f64" where
  "max_x r = f64_add (pt_x (rect_origin r)) (ls_width (rect_size r))"

definition max_y :: "logical_rect \<Rightarrow> f64" where
  "max_y r = f64_add (pt_y (rect_origin r)) (ls_height (rect_size r))"

definition rect_contains :: "logical_rect \<Rightarrow> point \<Rightarrow> bool" where
  "rect_contains r p =
     (point_is_finite p \<and> f64_le (pt_x (rect_origin r)) (pt_x p) \<and> f64_le (pt_x p) (max_x r) \<and>
      f64_le (pt_y (rect_origin r)) (pt_y p) \<and> f64_le (pt_y p) (max_y r))"

definition rect_contains_half_open :: "logical_rect \<Rightarrow> point \<Rightarrow> bool" where
  "rect_contains_half_open r p =
     (point_is_finite p \<and> f64_le (pt_x (rect_origin r)) (pt_x p) \<and> f64_lt (pt_x p) (max_x r) \<and>
      f64_le (pt_y (rect_origin r)) (pt_y p) \<and> f64_lt (pt_y p) (max_y r))"

definition rect_clamp_half_open :: "logical_rect \<Rightarrow> point \<Rightarrow> point option" where
  "rect_clamp_half_open r p =
     (case f64_clamp (pt_x p) (pt_x (rect_origin r)) (f64_next_down (max_x r)) of
        None \<Rightarrow> None
      | Some x \<Rightarrow>
          (case f64_clamp (pt_y p) (pt_y (rect_origin r)) (f64_next_down (max_y r)) of
             None \<Rightarrow> None
           | Some y \<Rightarrow> Some (point_new x y)))"

record display =
  disp_id :: display_id
  disp_machine :: device_id
  disp_name :: "u8 list"
  disp_native_size :: native_size
  disp_logical_size :: logical_size
  disp_origin :: point
  disp_scale_factor :: f64
  disp_refresh_rate_hz :: "f64 option"
  disp_primary :: bool
  disp_monitor :: "monitor_identity option"
  disp_in_use :: bool

definition display_new ::
    "display_id \<Rightarrow> device_id \<Rightarrow> u8 list \<Rightarrow> native_size \<Rightarrow> logical_size \<Rightarrow> point \<Rightarrow> f64
     \<Rightarrow> f64 option \<Rightarrow> bool \<Rightarrow> display"
where
  "display_new i m n ns ls o' scale hz prim =
     \<lparr>disp_id = i, disp_machine = m, disp_name = n, disp_native_size = ns, disp_logical_size = ls,
      disp_origin = o', disp_scale_factor = scale, disp_refresh_rate_hz = hz, disp_primary = prim,
      disp_monitor = None, disp_in_use = True\<rparr>"

definition with_monitor :: "monitor_identity option \<Rightarrow> display \<Rightarrow> display" where
  "with_monitor mon d = d\<lparr>disp_monitor := mon\<rparr>"

definition with_in_use :: "bool \<Rightarrow> display \<Rightarrow> display" where
  "with_in_use u d = d\<lparr>disp_in_use := u\<rparr>"

definition bounds :: "display \<Rightarrow> logical_rect" where
  "bounds d = \<lparr>rect_origin = disp_origin d, rect_size = disp_logical_size d\<rparr>"

datatype edge = LeftEdge | RightEdge | TopEdge | BottomEdge

fun normal_extent :: "edge \<Rightarrow> logical_rect \<Rightarrow> f64" where
  "normal_extent LeftEdge r = ls_width (rect_size r)"
| "normal_extent RightEdge r = ls_width (rect_size r)"
| "normal_extent TopEdge r = ls_height (rect_size r)"
| "normal_extent BottomEdge r = ls_height (rect_size r)"

record normalized_span =
  span_start :: f64
  span_end :: f64

datatype topology_error =
    EmptyTopology
  | TooManyDisplays nat
  | DuplicateMachine device_id
  | DuplicateDisplay display_id
  | UnknownMachine device_id
  | UnknownDisplay display_id
  | InvalidNativeSize display_id
  | InvalidLogicalSize display_id
  | InvalidOrigin display_id
  | InvalidScaleFactor display_id
  | InvalidRefreshRate display_id
  | InvalidNormalizedSpan f64 f64
  | SameDisplayLink display_id
  | InvalidHysteresis f64
  | HysteresisExceedsDisplay display_id display_id
  | OverlappingSourceLinks display_id edge
  | NonFiniteMotionPoint

text \<open>\<open>(0.0..=1.0).contains(&x)\<close>.\<close>

definition in_unit :: "f64 \<Rightarrow> bool" where
  "in_unit x = (f64_le f64_zero x \<and> f64_le x f64_one)"

definition span_new :: "f64 \<Rightarrow> f64 \<Rightarrow> topology_error + normalized_span" where
  "span_new s e =
     (if \<not> f64_is_finite s \<or> \<not> f64_is_finite e \<or> \<not> in_unit s \<or> \<not> in_unit e \<or> f64_le e s
      then Inl (InvalidNormalizedSpan s e)
      else Inr \<lparr>span_start = s, span_end = e\<rparr>)"

definition span_contains :: "normalized_span \<Rightarrow> f64 \<Rightarrow> bool" where
  "span_contains s position =
     (f64_le (span_start s) position \<and>
      (f64_lt position (span_end s) \<or> f64_eq (span_end s) f64_one \<and> f64_eq position f64_one))"

definition span_map_to :: "normalized_span \<Rightarrow> normalized_span \<Rightarrow> f64 \<Rightarrow> f64" where
  "span_map_to s destination position =
     (let progress = f64_div (f64_sub position (span_start s)) (f64_sub (span_end s) (span_start s))
      in f64_add (span_start destination)
           (f64_mul progress (f64_sub (span_end destination) (span_start destination))))"

definition span_overlaps :: "normalized_span \<Rightarrow> normalized_span \<Rightarrow> bool" where
  "span_overlaps s t =
     (f64_lt (span_start s) (span_end t) \<and> f64_lt (span_start t) (span_end s))"

record edge_link =
  link_from_display :: display_id
  link_from_edge :: edge
  link_from_span :: normalized_span
  link_to_display :: display_id
  link_to_edge :: edge
  link_to_span :: normalized_span
  link_hysteresis :: f64

record edge_transition =
  tr_from_display :: display_id
  tr_to_display :: display_id
  tr_from_edge :: edge
  tr_to_edge :: edge
  tr_crossing_point :: point
  tr_entry_point :: point

record topology =
  topo_machines :: "device_id \<rightharpoonup> machine"
  topo_displays :: "display_id \<rightharpoonup> display"
  topo_links :: "edge_link list"
  topo_links_by_source :: "display_id \<rightharpoonup> edge_link list"

subsection \<open>Validation\<close>

definition size_finite_positive :: "logical_size \<Rightarrow> bool" where
  "size_finite_positive s =
     (f64_is_finite (ls_width s) \<and> f64_is_finite (ls_height s) \<and>
      \<not> f64_le (ls_width s) f64_zero \<and> \<not> f64_le (ls_height s) f64_zero)"

definition extent_finite_positive :: "display \<Rightarrow> bool" where
  "extent_finite_positive d =
     (f64_is_finite (max_x (bounds d)) \<and> f64_is_finite (max_y (bounds d)) \<and>
      \<not> f64_le (max_x (bounds d)) (pt_x (disp_origin d)) \<and>
      \<not> f64_le (max_y (bounds d)) (pt_y (disp_origin d)))"

definition finite_positive :: "f64 \<Rightarrow> bool" where
  "finite_positive x = (f64_is_finite x \<and> \<not> f64_le x f64_zero)"

definition validate_display :: "display \<Rightarrow> topology_error + unit" where
  "validate_display d =
     (if ns_width (disp_native_size d) = 0 \<or> ns_height (disp_native_size d) = 0
      then Inl (InvalidNativeSize (disp_id d))
      else if \<not> size_finite_positive (disp_logical_size d) then Inl (InvalidLogicalSize (disp_id d))
      else if \<not> point_is_finite (disp_origin d) then Inl (InvalidOrigin (disp_id d))
      else if \<not> extent_finite_positive d then Inl (InvalidLogicalSize (disp_id d))
      else if \<not> finite_positive (disp_scale_factor d) then Inl (InvalidScaleFactor (disp_id d))
      else if (case disp_refresh_rate_hz d of None \<Rightarrow> False | Some hz \<Rightarrow> \<not> finite_positive hz)
      then Inl (InvalidRefreshRate (disp_id d))
      else Inr ())"

definition validate_link_shape :: "display_id \<Rightarrow> display_id \<Rightarrow> f64 \<Rightarrow> topology_error + unit" where
  "validate_link_shape src dst hysteresis =
     (if src = dst then Inl (SameDisplayLink src)
      else if \<not> finite_positive hysteresis then Inl (InvalidHysteresis hysteresis)
      else Inr ())"

definition link_new ::
    "display_id \<Rightarrow> edge \<Rightarrow> normalized_span \<Rightarrow> display_id \<Rightarrow> edge \<Rightarrow> normalized_span \<Rightarrow> f64
     \<Rightarrow> topology_error + edge_link"
where
  "link_new fd fe fs td te ts h =
     rbind (validate_link_shape fd td h) (\<lambda>_.
       Inr \<lparr>link_from_display = fd, link_from_edge = fe, link_from_span = fs,
            link_to_display = td, link_to_edge = te, link_to_span = ts, link_hysteresis = h\<rparr>)"

definition validate_link :: "(display_id \<rightharpoonup> display) \<Rightarrow> edge_link \<Rightarrow> topology_error + unit" where
  "validate_link ds l =
     rbind (validate_link_shape (link_from_display l) (link_to_display l) (link_hysteresis l)) (\<lambda>_.
     rbind (ok_or (UnknownDisplay (link_from_display l)) (ds (link_from_display l))) (\<lambda>src.
     rbind (ok_or (UnknownDisplay (link_to_display l)) (ds (link_to_display l))) (\<lambda>dst.
       if f64_le (normal_extent (link_from_edge l) (bounds src)) (link_hysteresis l) \<or>
          f64_le (normal_extent (link_to_edge l) (bounds dst)) (link_hysteresis l)
       then Inl (HysteresisExceedsDisplay (link_from_display l) (link_to_display l))
       else Inr ())))"

definition links_conflict :: "edge_link \<Rightarrow> edge_link \<Rightarrow> bool" where
  "links_conflict l m =
     (link_from_display l = link_from_display m \<and> link_from_edge l = link_from_edge m \<and>
      span_overlaps (link_from_span l) (link_from_span m))"

fun validate_each :: "(display_id \<rightharpoonup> display) \<Rightarrow> edge_link list \<Rightarrow> topology_error + unit" where
  "validate_each ds [] = Inr ()"
| "validate_each ds (l # ls) = rbind (validate_link ds l) (\<lambda>_. validate_each ds ls)"

fun validate_disjoint :: "edge_link list \<Rightarrow> topology_error + unit" where
  "validate_disjoint [] = Inr ()"
| "validate_disjoint (l # ls) =
     (if list_ex (links_conflict l) ls
      then Inl (OverlappingSourceLinks (link_from_display l) (link_from_edge l))
      else validate_disjoint ls)"

definition validate_links :: "(display_id \<rightharpoonup> display) \<Rightarrow> edge_link list \<Rightarrow> topology_error + unit" where
  "validate_links ds ls = rbind (validate_each ds ls) (\<lambda>_. validate_disjoint ls)"

fun insert_machines ::
    "machine list \<Rightarrow> (device_id \<rightharpoonup> machine) \<Rightarrow> topology_error + (device_id \<rightharpoonup> machine)" where
  "insert_machines [] ms = Inr ms"
| "insert_machines (m # rest) ms =
     (if ms (mach_id m) \<noteq> None then Inl (DuplicateMachine (mach_id m))
      else insert_machines rest (ms(mach_id m \<mapsto> m)))"

fun insert_displays ::
    "(device_id \<rightharpoonup> machine) \<Rightarrow> display list \<Rightarrow> (display_id \<rightharpoonup> display)
     \<Rightarrow> topology_error + (display_id \<rightharpoonup> display)" where
  "insert_displays ms [] ds = Inr ds"
| "insert_displays ms (d # rest) ds =
     rbind (validate_display d) (\<lambda>_.
       if ms (disp_machine d) = None then Inl (UnknownMachine (disp_machine d))
       else if ds (disp_id d) \<noteq> None then Inl (DuplicateDisplay (disp_id d))
       else insert_displays ms rest (ds(disp_id d \<mapsto> d)))"

text \<open>\<open>entry(key).or_default().push(link)\<close>.\<close>

definition push_link ::
    "edge_link \<Rightarrow> (display_id \<rightharpoonup> edge_link list) \<Rightarrow> (display_id \<rightharpoonup> edge_link list)" where
  "push_link l ix =
     ix(link_from_display l \<mapsto>
        (case ix (link_from_display l) of None \<Rightarrow> [] | Some ls \<Rightarrow> ls) @ [l])"

definition topology_new ::
    "machine list \<Rightarrow> display list \<Rightarrow> edge_link list \<Rightarrow> topology_error + topology"
where
  "topology_new machines displays links =
     (if displays = [] then Inl EmptyTopology
      else if MAX_DISPLAYS < length displays then Inl (TooManyDisplays (length displays))
      else
        rbind (insert_machines machines Map.empty) (\<lambda>ms.
        rbind (insert_displays ms displays Map.empty) (\<lambda>ds.
        rbind (validate_links ds links) (\<lambda>_.
          Inr \<lparr>topo_machines = ms, topo_displays = ds, topo_links = links,
               topo_links_by_source = fold push_link links Map.empty\<rparr>))))"

definition topo_display :: "topology \<Rightarrow> display_id \<Rightarrow> topology_error + display" where
  "topo_display t i = ok_or (UnknownDisplay i) (topo_displays t i)"

definition machine_for_display :: "topology \<Rightarrow> display_id \<Rightarrow> topology_error + machine" where
  "machine_for_display t i =
     rbind (topo_display t i) (\<lambda>d.
       ok_or (UnknownMachine (disp_machine d)) (topo_machines t (disp_machine d)))"

subsection \<open>Crossing an edge\<close>

definition interpolate_at_x :: "point \<Rightarrow> point \<Rightarrow> f64 \<Rightarrow> point" where
  "interpolate_at_x previous current x =
     (let progress = f64_div (f64_sub x (pt_x previous)) (f64_sub (pt_x current) (pt_x previous))
      in point_new x
           (f64_add (pt_y previous) (f64_mul (f64_sub (pt_y current) (pt_y previous)) progress)))"

definition interpolate_at_y :: "point \<Rightarrow> point \<Rightarrow> f64 \<Rightarrow> point" where
  "interpolate_at_y previous current y =
     (let progress = f64_div (f64_sub y (pt_y previous)) (f64_sub (pt_y current) (pt_y previous))
      in point_new
           (f64_add (pt_x previous) (f64_mul (f64_sub (pt_x current) (pt_x previous)) progress)) y)"

definition crosses_low :: "f64 \<Rightarrow> f64 \<Rightarrow> f64 \<Rightarrow> f64 \<Rightarrow> f64 \<Rightarrow> bool" where
  "crosses_low previous current origin maximum h =
     (f64_le previous maximum \<and> f64_le (f64_sub origin h) previous \<and>
      f64_lt current (f64_sub origin h) \<and> f64_lt current previous)"

definition crosses_high :: "f64 \<Rightarrow> f64 \<Rightarrow> f64 \<Rightarrow> f64 \<Rightarrow> f64 \<Rightarrow> bool" where
  "crosses_high previous current origin maximum h =
     (f64_le origin previous \<and> f64_le previous (f64_add maximum h) \<and>
      f64_lt (f64_add maximum h) current \<and> f64_lt previous current)"

definition crossing_point :: "logical_rect \<Rightarrow> edge_link \<Rightarrow> point \<Rightarrow> point \<Rightarrow> point option" where
  "crossing_point r l previous current =
     (let o' = rect_origin r; h = link_hysteresis l in
      case link_from_edge l of
        LeftEdge \<Rightarrow>
          if crosses_low (pt_x previous) (pt_x current) (pt_x o') (max_x r) h
          then Some (point_new (pt_x o')
            (pt_y (interpolate_at_x previous current (f64_sub (pt_x o') h))))
          else None
      | RightEdge \<Rightarrow>
          if crosses_high (pt_x previous) (pt_x current) (pt_x o') (max_x r) h
          then Some (point_new (max_x r)
            (pt_y (interpolate_at_x previous current (f64_add (max_x r) h))))
          else None
      | TopEdge \<Rightarrow>
          if crosses_low (pt_y previous) (pt_y current) (pt_y o') (max_y r) h
          then Some (point_new
            (pt_x (interpolate_at_y previous current (f64_sub (pt_y o') h))) (pt_y o'))
          else None
      | BottomEdge \<Rightarrow>
          if crosses_high (pt_y previous) (pt_y current) (pt_y o') (max_y r) h
          then Some (point_new
            (pt_x (interpolate_at_y previous current (f64_add (max_y r) h))) (max_y r))
          else None)"

definition normalized_position :: "logical_rect \<Rightarrow> edge \<Rightarrow> point \<Rightarrow> f64" where
  "normalized_position r e p =
     (case e of
        LeftEdge \<Rightarrow> f64_div (f64_sub (pt_y p) (pt_y (rect_origin r))) (ls_height (rect_size r))
      | RightEdge \<Rightarrow> f64_div (f64_sub (pt_y p) (pt_y (rect_origin r))) (ls_height (rect_size r))
      | TopEdge \<Rightarrow> f64_div (f64_sub (pt_x p) (pt_x (rect_origin r))) (ls_width (rect_size r))
      | BottomEdge \<Rightarrow> f64_div (f64_sub (pt_x p) (pt_x (rect_origin r))) (ls_width (rect_size r)))"

definition clamp_tangential :: "f64 \<Rightarrow> f64 \<Rightarrow> f64 \<Rightarrow> f64 option" where
  "clamp_tangential v lo hi = f64_clamp v lo (f64_next_down hi)"

definition tangential_y :: "logical_rect \<Rightarrow> f64 \<Rightarrow> f64 option" where
  "tangential_y r position =
     clamp_tangential (f64_add (pt_y (rect_origin r)) (f64_mul (ls_height (rect_size r)) position))
       (pt_y (rect_origin r)) (max_y r)"

definition tangential_x :: "logical_rect \<Rightarrow> f64 \<Rightarrow> f64 option" where
  "tangential_x r position =
     clamp_tangential (f64_add (pt_x (rect_origin r)) (f64_mul (ls_width (rect_size r)) position))
       (pt_x (rect_origin r)) (max_x r)"

definition destination_entry_point :: "logical_rect \<Rightarrow> edge \<Rightarrow> f64 \<Rightarrow> f64 \<Rightarrow> point option" where
  "destination_entry_point r e position inset =
     (case e of
        LeftEdge \<Rightarrow>
          map_option (point_new (f64_add (pt_x (rect_origin r)) inset)) (tangential_y r position)
      | RightEdge \<Rightarrow>
          map_option (point_new (f64_sub (max_x r) inset)) (tangential_y r position)
      | TopEdge \<Rightarrow>
          map_option (\<lambda>x. point_new x (f64_add (pt_y (rect_origin r)) inset)) (tangential_x r position)
      | BottomEdge \<Rightarrow>
          map_option (\<lambda>x. point_new x (f64_sub (max_y r) inset)) (tangential_x r position))"

text \<open>
  The loop over a display's links: the first one whose dead zone the segment leaves inside its
  span decides. \<open>None\<close> is the panic of \<open>clamp\<close>.
\<close>

definition link_position :: "logical_rect \<Rightarrow> edge_link \<Rightarrow> point \<Rightarrow> point \<Rightarrow> (point \<times> f64) option" where
  "link_position r l previous current =
     (case crossing_point r l previous current of
        None \<Rightarrow> None
      | Some c \<Rightarrow>
          let position = normalized_position r (link_from_edge l) c
          in if span_contains (link_from_span l) position then Some (c, position) else None)"

fun transition_links ::
    "topology \<Rightarrow> display_id \<Rightarrow> logical_rect \<Rightarrow> edge_link list \<Rightarrow> point \<Rightarrow> point
     \<Rightarrow> (topology_error + edge_transition option) option"
where
  "transition_links t source r [] previous current = Some (Inr None)"
| "transition_links t source r (l # ls) previous current =
     (case link_position r l previous current of
        None \<Rightarrow> transition_links t source r ls previous current
      | Some (c, position) \<Rightarrow>
          (case topo_display t (link_to_display l) of
             Inl e \<Rightarrow> Some (Inl e)
           | Inr destination \<Rightarrow>
               (case destination_entry_point (bounds destination) (link_to_edge l)
                   (span_map_to (link_from_span l) (link_to_span l) position) (link_hysteresis l) of
                  None \<Rightarrow> None
                | Some entry_point \<Rightarrow>
                    Some (Inr (Some
                      \<lparr>tr_from_display = source, tr_to_display = link_to_display l,
                       tr_from_edge = link_from_edge l, tr_to_edge = link_to_edge l,
                       tr_crossing_point = c, tr_entry_point = entry_point\<rparr>)))))"

definition transition_for_motion ::
    "topology \<Rightarrow> display_id \<Rightarrow> point \<Rightarrow> point \<Rightarrow> (topology_error + edge_transition option) option"
where
  "transition_for_motion t source previous current =
     (if \<not> point_is_finite previous \<or> \<not> point_is_finite current
      then Some (Inl NonFiniteMotionPoint)
      else case topo_display t source of
          Inl e \<Rightarrow> Some (Inl e)
        | Inr d \<Rightarrow>
            (case topo_links_by_source t source of
               None \<Rightarrow> Some (Inr None)
             | Some ls \<Rightarrow> transition_links t source (bounds d) ls previous current))"

subsection \<open>What validation guarantees\<close>

definition span_wf :: "normalized_span \<Rightarrow> bool" where
  "span_wf s = (span_new (span_start s) (span_end s) = Inr s)"

definition display_ok :: "display \<Rightarrow> bool" where
  "display_ok d = (validate_display d = Inr ())"

definition link_ok :: "(display_id \<rightharpoonup> display) \<Rightarrow> edge_link \<Rightarrow> bool" where
  "link_ok ds l = (validate_link ds l = Inr ())"

definition topology_wf :: "topology \<Rightarrow> bool" where
  "topology_wf t =
     (finite (dom (topo_displays t)) \<and> dom (topo_displays t) \<noteq> {} \<and>
      card (dom (topo_displays t)) \<le> MAX_DISPLAYS \<and>
      (\<forall>i d. topo_displays t i = Some d \<longrightarrow>
         disp_id d = i \<and> display_ok d \<and> (\<exists>m. topo_machines t (disp_machine d) = Some m)) \<and>
      (\<forall>i m. topo_machines t i = Some m \<longrightarrow> mach_id m = i) \<and>
      (\<forall>l\<in>set (topo_links t). link_ok (topo_displays t) l) \<and>
      (\<forall>i j. i < j \<longrightarrow> j < length (topo_links t) \<longrightarrow>
         \<not> links_conflict (topo_links t ! i) (topo_links t ! j)) \<and>
      (\<forall>i. (case topo_links_by_source t i of None \<Rightarrow> [] | Some ls \<Rightarrow> ls) =
         filter (\<lambda>l. link_from_display l = i) (topo_links t)))"

definition keyed :: "('v \<Rightarrow> 'k) \<Rightarrow> ('k \<rightharpoonup> 'v) \<Rightarrow> bool" where
  "keyed key m = (\<forall>i x. m i = Some x \<longrightarrow> key x = i)"

lemma keyed_empty [simp]: "keyed key Map.empty"
  by (simp add: keyed_def)

lemma keyed_upd: "keyed key m \<Longrightarrow> keyed key (m(key x \<mapsto> x))"
  by (simp add: keyed_def)

lemma insert_machines_keyed: "insert_machines xs ms = Inr ms' \<Longrightarrow> keyed mach_id ms \<Longrightarrow> keyed mach_id ms'"
  by (induction xs arbitrary: ms) (auto split: if_splits simp: keyed_upd)

lemma insert_displays_ok:
  assumes "insert_displays ms xs ds = Inr ds'" "keyed disp_id ds" "finite (dom ds)"
  shows "keyed disp_id ds' \<and> ds \<subseteq>\<^sub>m ds' \<and> finite (dom ds') \<and>
     card (dom ds') = card (dom ds) + length xs \<and>
     (\<forall>x\<in>set xs. ds' (disp_id x) = Some x) \<and>
     (\<forall>i d. ds' i = Some d \<longrightarrow> ds i = Some d \<or>
        d \<in> set xs \<and> display_ok d \<and> (\<exists>m. ms (disp_machine d) = Some m))"
  using assms
proof (induction xs arbitrary: ds)
  case (Cons x xs)
  let ?ds = "ds(disp_id x \<mapsto> x)"
  from Cons.prems(1) have x: "display_ok x" "ms (disp_machine x) \<noteq> None" "ds (disp_id x) = None"
    and rest: "insert_displays ms xs ?ds = Inr ds'"
    by (auto simp: rbind_eq_Inr_iff display_ok_def split: if_splits)
  have IH: "keyed disp_id ds' \<and> ?ds \<subseteq>\<^sub>m ds' \<and> finite (dom ds') \<and>
     card (dom ds') = card (dom ?ds) + length xs \<and>
     (\<forall>x\<in>set xs. ds' (disp_id x) = Some x) \<and>
     (\<forall>i d. ds' i = Some d \<longrightarrow> ?ds i = Some d \<or>
        d \<in> set xs \<and> display_ok d \<and> (\<exists>m. ms (disp_machine d) = Some m))"
    by (rule Cons.IH [OF rest keyed_upd [OF Cons.prems(2)]]) (use Cons.prems(3) in simp)
  have card: "card (dom ?ds) = Suc (card (dom ds))"
    using x(3) Cons.prems(3) by (simp add: domIff)
  have "ds \<subseteq>\<^sub>m ?ds" using x(3) by (auto simp: map_le_def)
  then have le: "ds \<subseteq>\<^sub>m ds'" using IH map_le_trans by blast
  have at: "ds' (disp_id x) = Some x"
    using IH by (metis domI fun_upd_same map_le_def)
  have "ds i = Some d \<or> d \<in> set (x # xs) \<and> display_ok d \<and> (\<exists>m. ms (disp_machine d) = Some m)"
    if "ds' i = Some d" for i d
    using IH that at x by (cases "i = disp_id x") (auto split: if_splits)
  then show ?case
    using IH card le at by simp
qed (simp add: map_le_def)

lemma validate_each_ok: "validate_each ds ls = Inr () \<longleftrightarrow> (\<forall>l\<in>set ls. link_ok ds l)"
  by (induction ls) (auto simp: rbind_eq_Inr_iff link_ok_def)

lemma validate_disjoint_ok:
  "validate_disjoint ls = Inr () \<longleftrightarrow>
     (\<forall>i j. i < j \<longrightarrow> j < length ls \<longrightarrow> \<not> links_conflict (ls ! i) (ls ! j))"
proof (induction ls)
  case (Cons l ls)
  have ex: "list_ex (links_conflict l) ls \<longleftrightarrow> (\<exists>j < length ls. links_conflict l (ls ! j))"
    by (simp add: list_ex_length)
  show ?case
    unfolding validate_disjoint.simps
    using Cons.IH ex by (auto simp: nth_Cons less_Suc_eq_0_disj split: nat.splits)
qed simp

lemma push_links:
  "(case fold push_link ls ix i of None \<Rightarrow> [] | Some xs \<Rightarrow> xs) =
   (case ix i of None \<Rightarrow> [] | Some xs \<Rightarrow> xs) @ filter (\<lambda>l. link_from_display l = i) ls"
  by (induction ls arbitrary: ix) (auto simp: push_link_def)

lemma topology_new_cases:
  assumes "topology_new machines displays links = Inr t"
  obtains ms ds where "displays \<noteq> []" "length displays \<le> MAX_DISPLAYS"
    "insert_machines machines Map.empty = Inr ms" "insert_displays ms displays Map.empty = Inr ds"
    "validate_each ds links = Inr ()" "validate_disjoint links = Inr ()"
    "t = \<lparr>topo_machines = ms, topo_displays = ds, topo_links = links,
          topo_links_by_source = fold push_link links Map.empty\<rparr>"
  using assms
  by (auto simp: topology_new_def rbind_eq_Inr_iff validate_links_def split: if_splits)

lemma topology_new_wf:
  assumes "topology_new machines displays links = Inr t"
  shows "topology_wf t \<and> topo_links t = links \<and>
    (\<forall>d\<in>set displays. topo_displays t (disp_id d) = Some d)"
proof -
  from assms obtain ms ds where n: "displays \<noteq> []" "length displays \<le> MAX_DISPLAYS"
    and m: "insert_machines machines Map.empty = Inr ms"
    and d: "insert_displays ms displays Map.empty = Inr ds"
    and l: "validate_each ds links = Inr ()" "validate_disjoint links = Inr ()"
    and t: "t = \<lparr>topo_machines = ms, topo_displays = ds, topo_links = links,
          topo_links_by_source = fold push_link links Map.empty\<rparr>"
    by (rule topology_new_cases)
  note D = insert_displays_ok [OF d]
  have dom: "dom ds \<noteq> {}" "card (dom ds) \<le> MAX_DISPLAYS"
    using n D by auto
  show ?thesis
    using D dom insert_machines_keyed [OF m] l push_links [of links Map.empty]
    unfolding topology_wf_def t validate_each_ok validate_disjoint_ok keyed_def
    by auto
qed


subsection \<open>Positions on an edge\<close>

lemma span_wf_facts:
  assumes "span_wf s"
  shows "f64_is_finite (span_start s)" "f64_is_finite (span_end s)"
    "0 \<le> f64_key (span_start s)" "f64_key (span_start s) < f64_key (span_end s)"
    "f64_key (span_end s) \<le> f64_key f64_one"
  using assms
  by (auto simp: span_wf_def span_new_def in_unit_def f64_le_def f64_classes split: if_splits)

lemma span_contains_facts:
  assumes "span_wf s" "span_contains s p"
  shows "f64_is_finite p" "f64_key (span_start s) \<le> f64_key p" "f64_key p \<le> f64_key (span_end s)"
    "f64_key p < f64_key (span_end s) \<or> f64_key (span_end s) = f64_key f64_one"
proof -
  note wf = span_wf_facts [OF assms(1)]
  have "\<not> f64_is_nan p" and le: "f64_key (span_start s) \<le> f64_key p" "f64_key p \<le> f64_key (span_end s)"
    "f64_key p < f64_key (span_end s) \<or> f64_key (span_end s) = f64_key f64_one"
    using assms(2) by (auto simp: span_contains_def f64_le_def f64_lt_def f64_eq_def)
  then show "f64_key (span_start s) \<le> f64_key p" "f64_key p \<le> f64_key (span_end s)"
    "f64_key p < f64_key (span_end s) \<or> f64_key (span_end s) = f64_key f64_one" by blast+
  show "f64_is_finite p"
    using wf le f64_key_abs_bound [of "span_end s"] f64_key_abs_bound [of p] by linarith
qed

lemma overlap_if_shared:
  assumes "span_wf s" "span_wf t" "span_contains s p" "span_contains t p"
  shows "span_overlaps s t"
  using span_wf_facts [OF assms(1)] span_wf_facts [OF assms(2)]
    span_contains_facts [OF assms(1,3)] span_contains_facts [OF assms(2,4)]
  by (auto simp: span_overlaps_def f64_lt_def f64_classes)

lemma span_width:
  assumes "span_wf s"
  shows "f64_is_finite (f64_sub (span_end s) (span_start s))"
    "0 < f64_key (f64_sub (span_end s) (span_start s))"
proof -
  note wf = span_wf_facts [OF assms]
  show pos: "0 < f64_key (f64_sub (span_end s) (span_start s))"
    using wf f64_sub_pos by blast
  have "f64_key (f64_sub (span_end s) (span_start s)) \<le> f64_key (span_end s)"
    using wf by (intro f64_sub_le) auto
  then show "f64_is_finite (f64_sub (span_end s) (span_start s))"
    using pos wf(2) f64_key_abs_bound [of "span_end s"] by (simp add: f64_key_abs_bound)
qed

lemma span_map_to_not_nan:
  assumes "span_wf s" "span_wf t" "span_contains s p"
  shows "\<not> f64_is_nan (span_map_to s t p)"
proof -
  note s = span_wf_facts [OF assms(1)] and t = span_wf_facts [OF assms(2)]
  note p = span_contains_facts [OF assms(1,3)]
  have "f64_key (f64_sub p (span_start s)) \<le> f64_key p"
    using p s by (intro f64_sub_le) auto
  moreover have "0 \<le> f64_key (f64_sub p (span_start s))"
    using p s f64_scaled_le_iff [of "span_start s" p] f64_round_key_mono [of 0]
    by (simp add: f64_key_sub)
  ultimately have "f64_is_finite (f64_sub p (span_start s))"
    using p(1) by (simp add: f64_key_abs_bound)
  then have "\<not> f64_is_nan (f64_div (f64_sub p (span_start s)) (f64_sub (span_end s) (span_start s)))"
    using span_width [OF assms(1)] by (simp add: f64_div_not_nan f64_classes)
  then show ?thesis
    unfolding span_map_to_def Let_def
    using span_width [OF assms(2)] t(1) by (intro f64_add_not_nan f64_mul_not_nan) auto
qed

subsection \<open>Entering the destination\<close>

definition rect_ok :: "logical_rect \<Rightarrow> bool" where
  "rect_ok r =
     (point_is_finite (rect_origin r) \<and> size_finite_positive (rect_size r) \<and>
      f64_is_finite (max_x r) \<and> f64_is_finite (max_y r) \<and>
      f64_lt (pt_x (rect_origin r)) (max_x r) \<and> f64_lt (pt_y (rect_origin r)) (max_y r))"

lemma display_ok_rect: "display_ok d \<Longrightarrow> rect_ok (bounds d)"
  by (auto simp: display_ok_def validate_display_def rect_ok_def extent_finite_positive_def
      point_is_finite_def f64_not_le f64_classes bounds_def split: if_splits)

definition entry_ok :: "logical_rect \<Rightarrow> edge \<Rightarrow> f64 \<Rightarrow> point \<Rightarrow> bool" where
  "entry_ok r e inset p =
    ((case e of
        LeftEdge \<Rightarrow> pt_x p = f64_add (pt_x (rect_origin r)) inset
      | RightEdge \<Rightarrow> pt_x p = f64_sub (max_x r) inset
      | TopEdge \<Rightarrow> pt_y p = f64_add (pt_y (rect_origin r)) inset
      | BottomEdge \<Rightarrow> pt_y p = f64_sub (max_y r) inset) \<and>
     (if e = LeftEdge \<or> e = RightEdge
      then f64_le (pt_y (rect_origin r)) (pt_y p) \<and> f64_lt (pt_y p) (max_y r)
      else f64_le (pt_x (rect_origin r)) (pt_x p) \<and> f64_lt (pt_x p) (max_x r)))"

lemma destination_entry_ok:
  assumes "rect_ok r" "\<not> f64_is_nan position"
  shows "\<exists>p. destination_entry_point r e position inset = Some p \<and> entry_ok r e inset p"
proof -
  have fin: "f64_is_finite (pt_x (rect_origin r))" "f64_is_finite (pt_y (rect_origin r))"
    "f64_is_finite (ls_width (rect_size r))" "f64_is_finite (ls_height (rect_size r))"
    "0 < f64_key (ls_width (rect_size r))" "0 < f64_key (ls_height (rect_size r))"
    using assms(1) by (auto simp: rect_ok_def point_is_finite_def size_finite_positive_def
        f64_not_le f64_classes f64_lt_def)
  have "\<not> f64_is_nan (f64_add (pt_y (rect_origin r)) (f64_mul (ls_height (rect_size r)) position))"
    "\<not> f64_is_nan (f64_add (pt_x (rect_origin r)) (f64_mul (ls_width (rect_size r)) position))"
    unfolding f64_mul_commute [of _ position]
    using fin assms(2) by (simp_all add: f64_add_not_nan f64_mul_not_nan)
  then have "\<exists>y. tangential_y r position = Some y \<and> f64_le (pt_y (rect_origin r)) y \<and> f64_lt y (max_y r)"
    "\<exists>x. tangential_x r position = Some x \<and> f64_le (pt_x (rect_origin r)) x \<and> f64_lt x (max_x r)"
    using assms(1) unfolding tangential_y_def tangential_x_def clamp_tangential_def rect_ok_def
    by (meson f64_clamp_in_range)+
  then show ?thesis
    by (cases e) (auto simp: destination_entry_point_def entry_ok_def)
qed


lemma link_position_facts:
  "link_position r l previous current = Some (c, position) \<Longrightarrow>
     crossing_point r l previous current = Some c \<and>
     position = normalized_position r (link_from_edge l) c \<and> span_contains (link_from_span l) position"
  by (auto simp: link_position_def Let_def split: option.splits if_splits)

text \<open>What the loop must decide: the first link crossed inside its span, or nothing.\<close>

definition motion_decided ::
    "topology \<Rightarrow> display_id \<Rightarrow> logical_rect \<Rightarrow> edge_link list \<Rightarrow> point \<Rightarrow> point \<Rightarrow> edge_transition option \<Rightarrow> bool"
where
  "motion_decided t source r ls previous current res =
     (case find (\<lambda>l. link_position r l previous current \<noteq> None) ls of
        None \<Rightarrow> res = None
      | Some l \<Rightarrow>
          (\<exists>c position dest entry.
             link_position r l previous current = Some (c, position) \<and>
             topo_displays t (link_to_display l) = Some dest \<and>
             entry_ok (bounds dest) (link_to_edge l) (link_hysteresis l) entry \<and>
             res = Some \<lparr>tr_from_display = source, tr_to_display = link_to_display l,
                         tr_from_edge = link_from_edge l, tr_to_edge = link_to_edge l,
                         tr_crossing_point = c, tr_entry_point = entry\<rparr>))"

definition links_usable :: "topology \<Rightarrow> edge_link list \<Rightarrow> bool" where
  "links_usable t ls =
     (\<forall>l\<in>set ls. span_wf (link_from_span l) \<and> span_wf (link_to_span l) \<and>
        (\<exists>d. topo_displays t (link_to_display l) = Some d \<and> rect_ok (bounds d)))"

lemma transition_links_decides:
  assumes "links_usable t ls"
  shows "\<exists>res. transition_links t source r ls previous current = Some (Inr res) \<and>
    motion_decided t source r ls previous current res"
  using assms
proof (induction ls)
  case Nil
  then show ?case by (simp add: motion_decided_def)
next
  case (Cons l ls)
  then obtain dest where wf: "span_wf (link_from_span l)" "span_wf (link_to_span l)"
    and dest: "topo_displays t (link_to_display l) = Some dest" "rect_ok (bounds dest)"
    and rest: "links_usable t ls"
    by (auto simp: links_usable_def)
  show ?case
  proof (cases "link_position r l previous current")
    case None
    then show ?thesis using Cons.IH [OF rest] by (simp add: motion_decided_def)
  next
    case (Some cp)
    obtain c position where cp: "cp = (c, position)" by (cases cp)
    have "\<not> f64_is_nan (span_map_to (link_from_span l) (link_to_span l) position)"
      using link_position_facts Some cp wf span_map_to_not_nan by blast
    then obtain entry where "destination_entry_point (bounds dest) (link_to_edge l)
        (span_map_to (link_from_span l) (link_to_span l) position) (link_hysteresis l) = Some entry"
      "entry_ok (bounds dest) (link_to_edge l) (link_hysteresis l) entry"
      using destination_entry_ok dest(2) by blast
    then show ?thesis
      using Some cp dest(1) by (simp add: motion_decided_def topo_display_def)
  qed
qed

lemma link_ok_destination:
  assumes "topology_wf t" "l \<in> set (topo_links t)"
  shows "\<exists>d. topo_displays t (link_to_display l) = Some d \<and> rect_ok (bounds d)"
proof -
  have "link_ok (topo_displays t) l"
    using assms by (simp add: topology_wf_def)
  then obtain d where "topo_displays t (link_to_display l) = Some d"
    by (auto simp: link_ok_def validate_link_def rbind_eq_Inr_iff)
  moreover have "\<forall>i d. topo_displays t i = Some d \<longrightarrow> display_ok d"
    using assms(1) by (simp add: topology_wf_def)
  ultimately show ?thesis
    using display_ok_rect by blast
qed

lemma transition_for_motion_decides:
  assumes "topology_wf t" "\<forall>l\<in>set (topo_links t). span_wf (link_from_span l) \<and> span_wf (link_to_span l)"
    and "topo_displays t source = Some d" "point_is_finite previous" "point_is_finite current"
  shows "\<exists>res. transition_for_motion t source previous current = Some (Inr res) \<and>
    motion_decided t source (bounds d) (filter (\<lambda>l. link_from_display l = source) (topo_links t))
      previous current res"
proof -
  let ?ls = "filter (\<lambda>l. link_from_display l = source) (topo_links t)"
  have ix: "(case topo_links_by_source t source of None \<Rightarrow> [] | Some ls \<Rightarrow> ls) = ?ls"
    using assms(1) by (simp add: topology_wf_def)
  have "links_usable t ?ls"
    using assms(2) link_ok_destination [OF assms(1)] by (auto simp: links_usable_def)
  then obtain res where "transition_links t source (bounds d) ?ls previous current = Some (Inr res)"
    "motion_decided t source (bounds d) ?ls previous current res"
    using transition_links_decides by blast
  moreover have "transition_for_motion t source previous current =
      transition_links t source (bounds d) ?ls previous current"
    using assms(3-5) ix
    by (auto simp: transition_for_motion_def topo_display_def split: option.splits
        dest: sym simp flip: transition_links.simps(1))
  ultimately show ?thesis by auto
qed


subsection \<open>Which topologies are accepted\<close>

text \<open>
  What a topology has to be, in terms of the numbers its doubles denote (\<open>f64_scaled\<close>, in units of
  the smallest positive double) and of the lists it is built from, without the validators.
\<close>

definition f64_positive :: "f64 \<Rightarrow> bool" where
  "f64_positive x \<longleftrightarrow> f64_is_finite x \<and> 0 < f64_scaled x"

definition reaches :: "f64 \<Rightarrow> f64 \<Rightarrow> bool" where
  "reaches origin len \<longleftrightarrow> f64_is_finite (f64_add origin len) \<and> f64_scaled origin < f64_scaled (f64_add origin len)"

definition sound_display :: "display \<Rightarrow> bool" where
  "sound_display d \<longleftrightarrow>
     ns_width (disp_native_size d) \<noteq> 0 \<and> ns_height (disp_native_size d) \<noteq> 0 \<and>
     f64_positive (ls_width (disp_logical_size d)) \<and> f64_positive (ls_height (disp_logical_size d)) \<and>
     f64_is_finite (pt_x (disp_origin d)) \<and> f64_is_finite (pt_y (disp_origin d)) \<and>
     reaches (pt_x (disp_origin d)) (ls_width (disp_logical_size d)) \<and>
     reaches (pt_y (disp_origin d)) (ls_height (disp_logical_size d)) \<and>
     f64_positive (disp_scale_factor d) \<and> (\<forall>hz. disp_refresh_rate_hz d = Some hz \<longrightarrow> f64_positive hz)"

definition depth_behind :: "edge \<Rightarrow> display \<Rightarrow> f64" where
  "depth_behind e d = (if e = LeftEdge \<or> e = RightEdge then ls_width (disp_logical_size d) else ls_height (disp_logical_size d))"

definition sound_link :: "display list \<Rightarrow> edge_link \<Rightarrow> bool" where
  "sound_link displays l \<longleftrightarrow>
     link_from_display l \<noteq> link_to_display l \<and> f64_positive (link_hysteresis l) \<and>
     (\<exists>a b. a \<in> set displays \<and> b \<in> set displays \<and> disp_id a = link_from_display l \<and> disp_id b = link_to_display l \<and>
        f64_scaled (link_hysteresis l) < f64_scaled (depth_behind (link_from_edge l) a) \<and>
        f64_scaled (link_hysteresis l) < f64_scaled (depth_behind (link_to_edge l) b))"

definition span_positions :: "normalized_span \<Rightarrow> int set" where
  "span_positions s = {f64_scaled (span_start s)..<f64_scaled (span_end s)}"

definition share_position :: "edge_link \<Rightarrow> edge_link \<Rightarrow> bool" where
  "share_position l m \<longleftrightarrow>
     link_from_display l = link_from_display m \<and> link_from_edge l = link_from_edge m \<and>
     span_positions (link_from_span l) \<inter> span_positions (link_from_span m) \<noteq> {}"

definition unit_span :: "normalized_span \<Rightarrow> bool" where
  "unit_span s \<longleftrightarrow>
     f64_is_finite (span_start s) \<and> f64_is_finite (span_end s) \<and> 0 \<le> f64_scaled (span_start s) \<and>
     f64_scaled (span_start s) < f64_scaled (span_end s) \<and> f64_scaled (span_end s) \<le> f64_scaled f64_one"

definition sound_layout :: "machine list \<Rightarrow> display list \<Rightarrow> edge_link list \<Rightarrow> bool" where
  "sound_layout machines displays links \<longleftrightarrow>
     displays \<noteq> [] \<and> length displays \<le> 16 \<and> distinct (map mach_id machines) \<and> distinct (map disp_id displays) \<and>
     (\<forall>d. d \<in> set displays \<longrightarrow> sound_display d \<and> disp_machine d \<in> mach_id ` set machines) \<and>
     (\<forall>l. l \<in> set links \<longrightarrow> sound_link displays l) \<and>
     (\<forall>i j. i < j \<longrightarrow> j < length links \<longrightarrow> \<not> share_position (links ! i) (links ! j))"

lemma f64_scaled_zero [simp]: "f64_scaled f64_zero = 0"
  by (simp add: f64_scaled_def f64_mag_def f64_neg_sign_def)

lemma f64_finite_le: "f64_is_finite x \<Longrightarrow> f64_is_finite y \<Longrightarrow> f64_le x y \<longleftrightarrow> f64_scaled x \<le> f64_scaled y"
  by (auto simp: f64_le_def f64_classes f64_scaled_le_iff)

lemma finite_positive_iff: "finite_positive x \<longleftrightarrow> f64_positive x"
  using f64_finite_le [of x f64_zero] by (auto simp: finite_positive_def f64_positive_def)

text \<open>The constructor of spans makes exactly the spans inside the unit interval.\<close>

lemma span_new_unit: "span_new x y = Inr s \<longleftrightarrow> s = \<lparr>span_start = x, span_end = y\<rparr> \<and> unit_span s"
  by (auto simp: span_new_def unit_span_def in_unit_def f64_finite_le)

text \<open>The displays the validator passes are the sound ones.\<close>

lemma validated_display: "display_ok d \<longleftrightarrow> sound_display d"
proof -
  have size: "size_finite_positive z \<longleftrightarrow> f64_positive (ls_width z) \<and> f64_positive (ls_height z)" for z
    by (auto simp: size_finite_positive_def finite_positive_def simp flip: finite_positive_iff)
  have extent: "extent_finite_positive d \<longleftrightarrow> reaches (pt_x (disp_origin d)) (ls_width (disp_logical_size d)) \<and>
      reaches (pt_y (disp_origin d)) (ls_height (disp_logical_size d))" if "point_is_finite (disp_origin d)"
    using that by (auto simp: extent_finite_positive_def reaches_def max_x_def max_y_def bounds_def point_is_finite_def f64_finite_le)
  show ?thesis
    using extent size [of "disp_logical_size d"]
    by (auto simp: display_ok_def validate_display_def sound_display_def finite_positive_iff point_is_finite_def
        split: option.splits)
qed

lemma known_display:
  "distinct (map disp_id displays) \<Longrightarrow> map_of (map (\<lambda>d. (disp_id d, d)) displays) i = Some d \<longleftrightarrow> d \<in> set displays \<and> disp_id d = i"
  by (auto simp: map_of_eq_Some_iff comp_def)

lemma normal_extent_depth: "normal_extent e (bounds d) = depth_behind e d"
  by (cases e) (simp_all add: depth_behind_def bounds_def)

lemma depth_positive: "sound_display d \<Longrightarrow> f64_positive (depth_behind e d)"
  by (simp add: sound_display_def depth_behind_def)

text \<open>So are the links.\<close>

lemma validated_link:
  assumes "distinct (map disp_id displays)" "\<And>d. d \<in> set displays \<Longrightarrow> sound_display d"
  shows "link_ok (map_of (map (\<lambda>d. (disp_id d, d)) displays)) l \<longleftrightarrow> sound_link displays l"
proof -
  let ?ds = "map_of (map (\<lambda>d. (disp_id d, d)) displays)" and ?h = "link_hysteresis l"
  have below: "f64_le (depth_behind e d) ?h \<longleftrightarrow> f64_scaled (depth_behind e d) \<le> f64_scaled ?h"
    if "d \<in> set displays" "f64_positive ?h" for e d
    using that assms(2) depth_positive [of d e] by (simp add: f64_positive_def f64_finite_le)
  have "link_ok ?ds l \<longleftrightarrow> link_from_display l \<noteq> link_to_display l \<and> f64_positive ?h \<and>
      (\<exists>a b. ?ds (link_from_display l) = Some a \<and> ?ds (link_to_display l) = Some b \<and>
        \<not> f64_le (depth_behind (link_from_edge l) a) ?h \<and> \<not> f64_le (depth_behind (link_to_edge l) b) ?h)"
    by (auto simp: link_ok_def validate_link_def validate_link_shape_def rbind_eq_Inr_iff finite_positive_iff normal_extent_depth)
  also have "\<dots> \<longleftrightarrow> sound_link displays l"
    unfolding sound_link_def known_display [OF assms(1)] using below by (meson not_le)
  finally show ?thesis .
qed

lemma validated_spans:
  assumes "unit_span s" "unit_span t"
  shows "span_overlaps s t \<longleftrightarrow> span_positions s \<inter> span_positions t \<noteq> {}"
proof -
  have "span_overlaps s t \<longleftrightarrow>
      f64_scaled (span_start s) < f64_scaled (span_end t) \<and> f64_scaled (span_start t) < f64_scaled (span_end s)"
    using assms by (auto simp: span_overlaps_def unit_span_def f64_lt_def f64_classes f64_scaled_less_iff)
  also have "\<dots> \<longleftrightarrow> max (f64_scaled (span_start s)) (f64_scaled (span_start t)) \<in> span_positions s \<inter> span_positions t"
    using assms by (auto simp: unit_span_def span_positions_def)
  also have "\<dots> \<longleftrightarrow> span_positions s \<inter> span_positions t \<noteq> {}"
    by (auto simp: span_positions_def)
  finally show ?thesis .
qed

lemma validated_links_disjoint:
  assumes "\<forall>l\<in>set links. unit_span (link_from_span l)"
  shows "validate_disjoint links = Inr () \<longleftrightarrow>
    (\<forall>i j. i < j \<longrightarrow> j < length links \<longrightarrow> \<not> share_position (links ! i) (links ! j))"
proof -
  have "links_conflict (links ! i) (links ! j) \<longleftrightarrow> share_position (links ! i) (links ! j)"
    if "i < j" "j < length links" for i j
    using that validated_spans [of "link_from_span (links ! i)" "link_from_span (links ! j)"] assms
    by (simp add: links_conflict_def share_position_def)
  then show ?thesis unfolding validate_disjoint_ok by blast
qed

text \<open>Inserting one after the other under fresh keys builds the map of the list.\<close>

lemma fresh_keys:
  "(\<forall>y\<in>set xs. (m(k \<mapsto> x)) (key y) = None) \<longleftrightarrow> k \<notin> key ` set xs \<and> (\<forall>y\<in>set xs. m (key y) = None)"
  by auto

lemma map_add_fresh:
  assumes "key x \<notin> key ` set xs"
  shows "m(key x \<mapsto> x) ++ map_of (map (\<lambda>x. (key x, x)) xs) = m ++ map_of (map (\<lambda>x. (key x, x)) (x # xs))"
proof -
  have "map_of (map (\<lambda>x. (key x, x)) xs) (key x) = None"
    using assms by (simp add: map_of_eq_None_iff image_image)
  then show ?thesis by (auto simp: fun_eq_iff map_add_def split: option.splits)
qed

lemma insert_machines_iff:
  "insert_machines xs ms = Inr ms' \<longleftrightarrow>
     distinct (map mach_id xs) \<and> (\<forall>x\<in>set xs. ms (mach_id x) = None) \<and> ms' = ms ++ map_of (map (\<lambda>m. (mach_id m, m)) xs)"
proof (induction xs arbitrary: ms)
  case (Cons x xs)
  have head: "insert_machines (x # xs) ms = Inr ms' \<longleftrightarrow> ms (mach_id x) = None \<and> insert_machines xs (ms(mach_id x \<mapsto> x)) = Inr ms'"
    by auto
  show ?case
  proof (cases "mach_id x \<in> mach_id ` set xs")
    case False
    then have "distinct (map mach_id (x # xs)) \<longleftrightarrow> distinct (map mach_id xs)" by simp
    then show ?thesis
      unfolding head Cons.IH fresh_keys map_add_fresh [OF False] using False by (auto simp del: list.map)
  qed (unfold head Cons.IH fresh_keys, simp)
qed auto

lemma insert_displays_iff:
  "insert_displays ms xs ds = Inr ds' \<longleftrightarrow>
     distinct (map disp_id xs) \<and> (\<forall>x\<in>set xs. ds (disp_id x) = None) \<and>
     (\<forall>x\<in>set xs. display_ok x \<and> ms (disp_machine x) \<noteq> None) \<and> ds' = ds ++ map_of (map (\<lambda>d. (disp_id d, d)) xs)"
proof (induction xs arbitrary: ds)
  case (Cons x xs)
  have head: "insert_displays ms (x # xs) ds = Inr ds' \<longleftrightarrow> display_ok x \<and> ms (disp_machine x) \<noteq> None \<and> ds (disp_id x) = None \<and>
      insert_displays ms xs (ds(disp_id x \<mapsto> x)) = Inr ds'"
    by (auto simp: rbind_eq_Inr_iff display_ok_def)
  show ?case
  proof (cases "disp_id x \<in> disp_id ` set xs")
    case False
    then have "distinct (map disp_id (x # xs)) \<longleftrightarrow> distinct (map disp_id xs)" by simp
    then show ?thesis
      unfolding head Cons.IH fresh_keys map_add_fresh [OF False] using False by (auto simp del: list.map)
  qed (unfold head Cons.IH fresh_keys, simp)
qed auto

lemma known_machine: "map_of (map (\<lambda>m. (mach_id m, m)) machines) i \<noteq> None \<longleftrightarrow> i \<in> mach_id ` set machines"
  by (auto simp: map_of_eq_None_iff image_iff)

text \<open>Construction succeeds on the sound layouts and builds the maps of its lists.\<close>

lemma topology_new_iff:
  assumes "\<forall>l\<in>set links. unit_span (link_from_span l)"
  shows "topology_new machines displays links = Inr t \<longleftrightarrow>
    sound_layout machines displays links \<and>
    t = \<lparr>topo_machines = map_of (map (\<lambda>m. (mach_id m, m)) machines),
         topo_displays = map_of (map (\<lambda>d. (disp_id d, d)) displays), topo_links = links,
         topo_links_by_source = fold push_link links Map.empty\<rparr>" (is "_ \<longleftrightarrow> _ \<and> t = ?t")
proof -
  let ?ms = "map_of (map (\<lambda>m. (mach_id m, m)) machines)" and ?ds = "map_of (map (\<lambda>d. (disp_id d, d)) displays)"
  have "topology_new machines displays links = Inr t \<longleftrightarrow>
      displays \<noteq> [] \<and> length displays \<le> 16 \<and> distinct (map mach_id machines) \<and> distinct (map disp_id displays) \<and>
      (\<forall>d\<in>set displays. display_ok d \<and> ?ms (disp_machine d) \<noteq> None) \<and>
      (\<forall>l\<in>set links. link_ok ?ds l) \<and> validate_disjoint links = Inr () \<and> t = ?t"
    by (auto simp: topology_new_def rbind_eq_Inr_iff validate_links_def validate_each_ok insert_machines_iff insert_displays_iff)
  also have "\<dots> \<longleftrightarrow> sound_layout machines displays links \<and> t = ?t"
    unfolding sound_layout_def validated_display known_machine validated_links_disjoint [OF assms]
    using validated_link [of displays] by blast
  finally show ?thesis .
qed

subsection \<open>Properties of the topology\<close>

text \<open>C25: Construction accepts exactly the sound layouts, given links whose spans lie in the unit interval
  and are not empty, as the constructor of spans makes them: between 1 and 16 displays, machine and
  display ids without repetition, every display with positive native and logical sizes and scale, a
  finite origin, right and bottom edges finite and beyond it, a positive refresh rate if any, and a
  known machine; every link from one known display to another, with a finite positive dead zone less
  deep than both displays behind the linked edges; and no position of an edge in the spans of two
  links. The topology then holds each machine and display under its own id and nothing else, the links
  as given, and for each display the links that start there in order.\<close>

theorem topology_new_valid:
  assumes "\<forall>l\<in>set links. unit_span (link_from_span l)"
  shows "((\<exists>t. topology_new machines displays links = Inr t) \<longleftrightarrow> sound_layout machines displays links) \<and>
    (\<forall>t. topology_new machines displays links = Inr t \<longrightarrow>
      (\<forall>i m. topo_machines t i = Some m \<longleftrightarrow> m \<in> set machines \<and> mach_id m = i) \<and>
      (\<forall>i d. topo_displays t i = Some d \<longleftrightarrow> d \<in> set displays \<and> disp_id d = i) \<and>
      topo_links t = links \<and>
      (\<forall>i. (case topo_links_by_source t i of None \<Rightarrow> [] | Some ls \<Rightarrow> ls) = filter (\<lambda>l. link_from_display l = i) links))"
proof -
  have contents: "(\<forall>i m. topo_machines t i = Some m \<longleftrightarrow> m \<in> set machines \<and> mach_id m = i) \<and>
      (\<forall>i d. topo_displays t i = Some d \<longleftrightarrow> d \<in> set displays \<and> disp_id d = i) \<and> topo_links t = links \<and>
      (\<forall>i. (case topo_links_by_source t i of None \<Rightarrow> [] | Some ls \<Rightarrow> ls) = filter (\<lambda>l. link_from_display l = i) links)"
    if "topology_new machines displays links = Inr t" for t
  proof -
    have "distinct (map mach_id machines)" "distinct (map disp_id displays)" and
      t: "t = \<lparr>topo_machines = map_of (map (\<lambda>m. (mach_id m, m)) machines),
         topo_displays = map_of (map (\<lambda>d. (disp_id d, d)) displays), topo_links = links,
         topo_links_by_source = fold push_link links Map.empty\<rparr>"
      using that topology_new_iff [OF assms] by (auto simp: sound_layout_def)
    then show ?thesis
      using push_links [of links Map.empty] by (auto simp: t map_of_eq_Some_iff comp_def)
  qed
  have "(\<exists>t. topology_new machines displays links = Inr t) \<longleftrightarrow> sound_layout machines displays links"
    unfolding topology_new_iff [OF assms] by simp
  with contents show ?thesis by simp
qed

text \<open>C24: Every finite motion on a display of a validated topology is decided, without a panic and
  without an error: the first link of that display whose dead zone the motion leaves inside its
  span gives the transition, and if there is none the pointer stays. The pointer enters the
  destination inset by the dead zone and, along the edge, inside the destination.\<close>

theorem motion_always_decided:
  assumes "topology_new machines displays links = Inr t"
    and "\<forall>l\<in>set links. span_wf (link_from_span l) \<and> span_wf (link_to_span l)"
    and "d \<in> set displays" "point_is_finite previous" "point_is_finite current"
  shows "\<exists>res. transition_for_motion t (disp_id d) previous current = Some (Inr res) \<and>
    motion_decided t (disp_id d) (bounds d) (filter (\<lambda>l. link_from_display l = disp_id d) links)
      previous current res"
  using topology_new_wf [OF assms(1)] transition_for_motion_decides [of t "disp_id d" d] assms(2-5)
  by auto

text \<open>
  Each position of a display's edge belongs to at most one link of a validated topology.\<close>

theorem edge_position_unique_link:
  assumes "topology_new machines displays links = Inr t"
    and "\<forall>l\<in>set links. span_wf (link_from_span l) \<and> span_wf (link_to_span l)"
    and "i < length links" "j < length links"
    and "link_from_display (links ! i) = link_from_display (links ! j)"
    and "link_from_edge (links ! i) = link_from_edge (links ! j)"
    and "span_contains (link_from_span (links ! i)) p" "span_contains (link_from_span (links ! j)) p"
  shows "i = j"
proof -
  have wf: "topology_wf t" "topo_links t = links"
    using topology_new_wf [OF assms(1)] by auto
  have "\<not> links_conflict (links ! i) (links ! j)" if "i < j"
    using wf that assms(4) by (auto simp: topology_wf_def)
  moreover have "\<not> links_conflict (links ! j) (links ! i)" if "j < i"
    using wf that assms(3) by (auto simp: topology_wf_def)
  moreover have "links_conflict (links ! i) (links ! j)" "links_conflict (links ! j) (links ! i)"
    using assms overlap_if_shared by (auto simp: links_conflict_def)
  ultimately show ?thesis by (meson nat_neq_iff)
qed

lemma rect_clamp_contained:
  assumes "rect_ok r" "\<not> f64_is_nan (pt_x p)" "\<not> f64_is_nan (pt_y p)"
  shows "\<exists>q. rect_clamp_half_open r p = Some q \<and> rect_contains_half_open r q \<and>
    (rect_contains_half_open r p \<longrightarrow> q = p)"
proof -
  have r: "f64_is_finite (max_x r)" "f64_lt (pt_x (rect_origin r)) (max_x r)"
    "f64_is_finite (max_y r)" "f64_lt (pt_y (rect_origin r)) (max_y r)"
    "f64_is_finite (pt_x (rect_origin r))" "f64_is_finite (pt_y (rect_origin r))"
    using assms(1) by (auto simp: rect_ok_def point_is_finite_def)
  obtain x where x: "f64_clamp (pt_x p) (pt_x (rect_origin r)) (f64_next_down (max_x r)) = Some x"
    "f64_le (pt_x (rect_origin r)) x" "f64_lt x (max_x r)"
    "f64_le (pt_x (rect_origin r)) (pt_x p) \<and> f64_lt (pt_x p) (max_x r) \<longrightarrow> x = pt_x p"
    using f64_clamp_in_range r(1,2) assms(2) by blast
  obtain y where y: "f64_clamp (pt_y p) (pt_y (rect_origin r)) (f64_next_down (max_y r)) = Some y"
    "f64_le (pt_y (rect_origin r)) y" "f64_lt y (max_y r)"
    "f64_le (pt_y (rect_origin r)) (pt_y p) \<and> f64_lt (pt_y p) (max_y r) \<longrightarrow> y = pt_y p"
    using f64_clamp_in_range r(3,4) assms(3) by blast
  have "f64_is_finite x" "f64_is_finite y"
    using f64_between_finite x(2,3) y(2,3) r by blast+
  then show ?thesis
    using x y by (auto simp: rect_clamp_half_open_def rect_contains_half_open_def point_is_finite_def)
qed

text \<open>
  Clamping a point that is not NaN into a display's rectangle never panics, gives a point the
  half-open rectangle contains, and leaves a point it already contains where it is.\<close>

theorem clamp_half_open_contained:
  assumes "display_ok d" "\<not> f64_is_nan (pt_x p)" "\<not> f64_is_nan (pt_y p)"
  shows "\<exists>q. rect_clamp_half_open (bounds d) p = Some q \<and> rect_contains_half_open (bounds d) q \<and>
    (rect_contains_half_open (bounds d) p \<longrightarrow> q = p)"
  by (rule rect_clamp_contained [OF display_ok_rect [OF assms(1)] assms(2,3)])

subsection \<open>A concrete pair of displays\<close>

definition sample_display :: "display_id \<Rightarrow> device_id \<Rightarrow> display" where
  "sample_display i m =
     display_new i m [] \<lparr>ns_width = 8, ns_height = 8\<rparr>
       \<lparr>ls_width = 0x4020000000000000, ls_height = 0x4020000000000000\<rparr> (point_new 0 0) f64_one None True"

definition sample_span :: normalized_span where
  "sample_span = \<lparr>span_start = 0, span_end = f64_one\<rparr>"

definition sample_link :: edge_link where
  "sample_link =
     \<lparr>link_from_display = 1, link_from_edge = RightEdge, link_from_span = sample_span,
      link_to_display = 2, link_to_edge = LeftEdge, link_to_span = sample_span,
      link_hysteresis = f64_one\<rparr>"

definition sample_machines :: "machine list" where
  "sample_machines = [\<lparr>mach_id = [1], mach_platform = Windows\<rparr>, \<lparr>mach_id = [2], mach_platform = MacOs\<rparr>]"

lemma sample_eight:
  "f64_is_finite 0x4020000000000000" "\<not> f64_le 0x4020000000000000 0"
  "f64_add 0 0x4020000000000000 = 0x4020000000000000"
  by (simp_all add: f64_is_finite_def f64_le_def f64_key_def f64_neg_sign_def f64_add_def f64_mag_def
      f64_inf_mag_def f64_is_nan_def f64_is_infinite_def f64_scaled_def f64_of_scaled_def
      mag_scaled_def round_mag_def round_exponent_def round_half_even_def f64_make_def)

lemma sample_one: "\<not> f64_le f64_one 0" "\<not> f64_le 0x4020000000000000 f64_one"
  by (simp_all add: f64_le_def f64_classes)
   (simp add: f64_key_def f64_neg_sign_def f64_mag_def)

lemma sample_display_ok: "display_ok (sample_display i m)"
  by (simp add: display_ok_def validate_display_def sample_display_def display_new_def
      size_finite_positive_def extent_finite_positive_def finite_positive_def bounds_def max_x_def
      max_y_def sample_eight sample_one point_is_finite_def)

lemma sample_topology_ok:
  "\<exists>t. topology_new sample_machines [sample_display 1 [1], sample_display 2 [2]] [sample_link] = Inr t"
  using sample_display_ok [of 1 "[1]"] sample_display_ok [of 2 "[2]"]
  by (simp add: topology_new_def sample_machines_def display_ok_def
      sample_display_def display_new_def validate_links_def validate_link_def validate_link_shape_def
      finite_positive_def sample_link_def bounds_def sample_one)

lemma sample_span_wf: "span_wf sample_span"
  by (simp add: span_wf_def span_new_def sample_span_def in_unit_def f64_le_def f64_classes)

lemma sample_span_unit: "unit_span sample_span"
  using f64_scaled_less_iff [of f64_zero f64_one] by (simp add: unit_span_def sample_span_def)

theorem topology_new_valid_witness:
  "sound_layout sample_machines [sample_display 1 [1], sample_display 2 [2]] [sample_link] \<and>
   (\<exists>t. topology_new sample_machines [sample_display 1 [1], sample_display 2 [2]] [sample_link] = Inr t \<and>
     topo_displays t 2 = Some (sample_display 2 [2])) \<and>
   (\<nexists>t. topology_new sample_machines [sample_display 1 [1], sample_display 2 [2]] [sample_link, sample_link] = Inr t)"
proof -
  let ?ds = "[sample_display 1 [1], sample_display 2 [2]]"
  have unit: "\<forall>l\<in>set [sample_link]. unit_span (link_from_span l)"
    "\<forall>l\<in>set [sample_link, sample_link]. unit_span (link_from_span l)"
    using sample_span_unit by (auto simp: sample_link_def)
  note valid = topology_new_valid [OF unit(1), where machines = sample_machines and displays = ?ds]
    and invalid = topology_new_valid [OF unit(2), where machines = sample_machines and displays = ?ds]
  obtain t where t: "topology_new sample_machines ?ds [sample_link] = Inr t"
    using sample_topology_ok by blast
  have "topo_displays t i = Some d \<longleftrightarrow> d \<in> set ?ds \<and> disp_id d = i" for i d
    using conjunct2 [OF valid] t by simp
  then have "topo_displays t 2 = Some (sample_display 2 [2])"
    by (simp add: sample_display_def display_new_def)
  moreover have "sound_layout sample_machines ?ds [sample_link]"
    using conjunct1 [OF valid] t by simp
  moreover have "share_position sample_link sample_link"
    using sample_span_unit by (auto simp: share_position_def span_positions_def sample_link_def unit_span_def)
  then have "\<not> sound_layout sample_machines ?ds [sample_link, sample_link]"
    unfolding sound_layout_def by (metis length_Cons less_Suc_eq list.size(3) nth_Cons_0 nth_Cons_Suc)
  then have "\<nexists>t. topology_new sample_machines ?ds [sample_link, sample_link] = Inr t"
    using conjunct1 [OF invalid] by simp
  ultimately show ?thesis using t by blast
qed

theorem motion_always_decided_witness:
  "\<exists>t res. topology_new sample_machines [sample_display 1 [1], sample_display 2 [2]] [sample_link] = Inr t \<and>
     transition_for_motion t 1 (point_new 0 0) (point_new 0x4030000000000000 0) = Some (Inr res)"
proof -
  obtain t where t: "topology_new sample_machines [sample_display 1 [1], sample_display 2 [2]]
      [sample_link] = Inr t"
    using sample_topology_ok by blast
  have "point_is_finite (point_new 0 0)" "point_is_finite (point_new 0x4030000000000000 0)"
    by (simp_all add: point_is_finite_def)
      (simp add: f64_is_finite_def f64_mag_def f64_inf_mag_def)
  then show ?thesis
    using motion_always_decided [OF t, of "sample_display 1 [1]"] sample_span_wf t
    by (auto simp: sample_link_def) (auto simp: sample_display_def display_new_def)
qed

theorem edge_position_unique_link_witness: "(0::nat) = 0 \<and> span_contains sample_span 0"
proof -
  have c: "span_contains sample_span 0"
    by (simp add: span_contains_def sample_span_def f64_le_def f64_lt_def f64_classes)
  obtain t where t: "topology_new sample_machines [sample_display 1 [1], sample_display 2 [2]]
      [sample_link] = Inr t"
    using sample_topology_ok by blast
  have "(0::nat) = 0"
    using sample_span_wf c by (intro edge_position_unique_link [OF t]) (auto simp: sample_link_def)
  then show ?thesis using c by simp
qed

theorem clamp_half_open_contained_witness:
  "\<exists>q. rect_clamp_half_open (bounds (sample_display 1 [1])) (point_new 0x4030000000000000 0) = Some q \<and>
     rect_contains_half_open (bounds (sample_display 1 [1])) q"
proof -
  have "\<not> f64_is_nan 0x4030000000000000"
    by (simp add: f64_is_nan_def f64_mag_def f64_inf_mag_def)
  then show ?thesis
    using clamp_half_open_contained [OF sample_display_ok, of "point_new 0x4030000000000000 0"]
    by (auto simp: f64_classes)
qed

end
