(* ===== verification/Wire_Bytes.thy ===== *)
theory Wire_Bytes
  imports Float64
begin

section \<open>Bytes, the read cursor and field codecs: \<open>monhop-protocol/src/lib.rs\<close>\<close>

text \<open>
  The cursor of the source is the suffix it has not read yet, so a read takes the unread bytes and
  returns its value with the rest, or the decode error that ends the decoding. A field codec is an
  encoder and a reader that undo each other with any bytes behind them; the locale states that
  once and the integer, float and boolean fields of the protocol are instances of it.
\<close>

datatype decode_error =
    DecFrameTooLarge
  | DecTruncated
  | DecInvalidMagic
  | DecUnsupportedVersion
  | DecUnknownMessageType
  | DecNonZeroReservedField
  | DecInvalidLength
  | DecInvalidEpoch
  | DecTrailingBytes
  | DecInvalidBoolean
  | DecInvalidEnum
  | DecInvalidCapabilities
  | DecInvalidTopology
  | DecInvalidUtf8
  | DecNonFiniteCoordinate
  | DecCoordinateOutOfRange
  | DecInvalidKeyUsage
  | DecInvalidModifierMask
  | DecInvalidKeyState
  | DecInvalidScope
  | DecInvalidControl
  | DecInvalidDeclineReason
  | DecInvalidClickCount
  | DecInvalidGesture

type_synonym 'a reader = "u8 list \<Rightarrow> decode_error + ('a \<times> u8 list)"

definition rd_bind :: "'a reader \<Rightarrow> ('a \<Rightarrow> 'b reader) \<Rightarrow> 'b reader" where
  "rd_bind p f = (\<lambda>bs. rbind (p bs) (\<lambda>(a, rest). f a rest))"

definition rd_return :: "'a \<Rightarrow> 'a reader" where
  "rd_return a = (\<lambda>bs. Inr (a, bs))"

definition rd_fail :: "decode_error \<Rightarrow> 'a reader" where
  "rd_fail e = (\<lambda>bs. Inl e)"

text \<open>\<open>expr?\<close> on a result that is not read from the cursor.\<close>

definition rd_lift :: "decode_error + 'a \<Rightarrow> 'a reader" where
  "rd_lift r = (\<lambda>bs. rbind r (\<lambda>a. Inr (a, bs)))"

subsection \<open>Big-endian integers\<close>

primrec to_be_bytes :: "nat \<Rightarrow> 'a::len word \<Rightarrow> u8 list" where
  "to_be_bytes 0 w = []"
| "to_be_bytes (Suc n) w = to_be_bytes n (drop_bit 8 w) @ [ucast w]"

definition from_be_bytes :: "u8 list \<Rightarrow> 'a::len word" where
  "from_be_bytes bs = foldl (\<lambda>acc b. push_bit 8 acc OR ucast b) 0 bs"

definition write_u16 :: "u16 \<Rightarrow> u8 list" where "write_u16 w = to_be_bytes 2 w"
definition write_u32 :: "u32 \<Rightarrow> u8 list" where "write_u32 w = to_be_bytes 4 w"
definition write_u64 :: "u64 \<Rightarrow> u8 list" where "write_u64 w = to_be_bytes 8 w"
definition write_f32 :: "f32 \<Rightarrow> u8 list" where "write_f32 x = write_u32 x"
definition write_f64 :: "f64 \<Rightarrow> u8 list" where "write_f64 x = write_u64 x"

text \<open>\<open>u8::from(bool)\<close>.\<close>

definition bool_byte :: "bool \<Rightarrow> u8" where
  "bool_byte b = (if b then 1 else 0)"

subsection \<open>Reading\<close>

definition cursor_take :: "nat \<Rightarrow> u8 list reader" where
  "cursor_take n bs = (if n \<le> length bs then Inr (take n bs, drop n bs) else Inl DecTruncated)"

definition require_zero :: "nat \<Rightarrow> unit reader" where
  "require_zero n =
     rd_bind (cursor_take n) (\<lambda>bs.
       if list_ex (\<lambda>b. b \<noteq> 0) bs then rd_fail DecNonZeroReservedField else rd_return ())"

definition read_u8 :: "u8 reader" where
  "read_u8 = rd_bind (cursor_take 1) (\<lambda>bs. rd_return (hd bs))"

definition read_u16 :: "u16 reader" where
  "read_u16 = rd_bind (cursor_take 2) (\<lambda>bs. rd_return (from_be_bytes bs))"

definition read_u32 :: "u32 reader" where
  "read_u32 = rd_bind (cursor_take 4) (\<lambda>bs. rd_return (from_be_bytes bs))"

definition read_u64 :: "u64 reader" where
  "read_u64 = rd_bind (cursor_take 8) (\<lambda>bs. rd_return (from_be_bytes bs))"

definition read_f32 :: "f32 reader" where
  "read_f32 = rd_bind read_u32 (\<lambda>x.
     if \<not> f32_is_finite x then rd_fail DecNonFiniteCoordinate else rd_return x)"

definition read_f64 :: "f64 reader" where
  "read_f64 = rd_bind read_u64 (\<lambda>x.
     if \<not> f64_is_finite x then rd_fail DecNonFiniteCoordinate else rd_return x)"

definition read_bool :: "bool reader" where
  "read_bool = rd_bind read_u8 (\<lambda>b.
     if b = 0 then rd_return False
     else if b = 1 then rd_return True
     else rd_fail DecInvalidBoolean)"

subsection \<open>UTF-8\<close>

text \<open>
  \<open>std::str::from_utf8\<close> accepts exactly the well-formed sequences: no overlong forms, no
  surrogates, nothing above U+10FFFF.
\<close>

definition utf8_cont :: "u8 \<Rightarrow> bool" where
  "utf8_cont b = (0x80 \<le> b \<and> b \<le> 0xBF)"

fun utf8_valid :: "u8 list \<Rightarrow> bool" where
  "utf8_valid [] = True"
| "utf8_valid (b0 # bs) =
     (if b0 \<le> 0x7F then utf8_valid bs
      else if 0xC2 \<le> b0 \<and> b0 \<le> 0xDF
      then (case bs of b1 # r \<Rightarrow> utf8_cont b1 \<and> utf8_valid r | _ \<Rightarrow> False)
      else if 0xE0 \<le> b0 \<and> b0 \<le> 0xEF
      then (case bs of b1 # b2 # r \<Rightarrow>
              (if b0 = 0xE0 then 0xA0 \<le> b1 \<and> b1 \<le> 0xBF
               else if b0 = 0xED then 0x80 \<le> b1 \<and> b1 \<le> 0x9F
               else utf8_cont b1) \<and> utf8_cont b2 \<and> utf8_valid r
            | _ \<Rightarrow> False)
      else if 0xF0 \<le> b0 \<and> b0 \<le> 0xF4
      then (case bs of b1 # b2 # b3 # r \<Rightarrow>
              (if b0 = 0xF0 then 0x90 \<le> b1 \<and> b1 \<le> 0xBF
               else if b0 = 0xF4 then 0x80 \<le> b1 \<and> b1 \<le> 0x8F
               else utf8_cont b1) \<and> utf8_cont b2 \<and> utf8_cont b3 \<and> utf8_valid r
            | _ \<Rightarrow> False)
      else False)"

definition from_utf8 :: "u8 list \<Rightarrow> decode_error + u8 list" where
  "from_utf8 bs = (if utf8_valid bs then Inr bs else Inl DecInvalidUtf8)"

subsection \<open>Byte order\<close>

lemma length_to_be_bytes [simp]: "length (to_be_bytes n w) = n"
  by (induction n arbitrary: w) simp_all

lemma from_be_bytes_snoc [simp]:
  "from_be_bytes (bs @ [b]) = (push_bit 8 (from_be_bytes bs) OR ucast b :: 'a::len word)"
  by (simp add: from_be_bytes_def)

lemma from_to_be_bytes: "from_be_bytes (to_be_bytes n w) = take_bit (8 * n) w"
proof (induction n arbitrary: w)
  case (Suc n)
  then show ?case
    by (simp only: to_be_bytes.simps from_be_bytes_snoc)
      (rule bit_word_eqI, auto simp: bit_simps)
qed (simp add: from_be_bytes_def)

lemma from_be_bytes_bits: "bit (from_be_bytes bs :: 'a::len word) i \<Longrightarrow> i < 8 * length bs"
proof (induction bs arbitrary: i rule: rev_induct)
  case (snoc b bs)
  show ?case
  proof (cases "i < 8")
    case False
    then have "bit (from_be_bytes bs :: 'a word) (i - 8)"
      using snoc.prems bit_imp_le_length [of b i] by (auto simp: bit_simps)
    then show ?thesis using snoc.IH False by fastforce
  qed simp
qed (simp add: from_be_bytes_def)

lemma to_from_be_bytes:
  "8 * length bs \<le> LENGTH('a) \<Longrightarrow> to_be_bytes (length bs) (from_be_bytes bs :: 'a::len word) = bs"
proof (induction bs rule: rev_induct)
  case (snoc b bs)
  have "drop_bit 8 (push_bit 8 (from_be_bytes bs) OR ucast b) = (from_be_bytes bs :: 'a word)"
    by (rule bit_word_eqI) (use snoc.prems in \<open>auto simp: bit_simps dest: from_be_bytes_bits bit_imp_le_length [of b]\<close>)
  moreover have "ucast (push_bit 8 (from_be_bytes bs) OR ucast b :: 'a word) = b"
    by (rule bit_word_eqI) (use snoc.prems in \<open>auto simp: bit_simps\<close>)
  ultimately show ?case using snoc by simp
qed simp

subsection \<open>Reader combinators\<close>

definition zeros :: "nat \<Rightarrow> u8 list" where
  "zeros n = replicate n 0"

lemma length_zeros [simp]: "length (zeros n) = n"
  by (simp add: zeros_def)

lemma rd_simps [simp]:
  "rd_bind (rd_return a) f = f a" "rd_bind (rd_fail e) f = rd_fail e"
  "rd_bind (rd_lift (Inr a)) f = f a" "rd_bind (rd_lift (Inl e)) f = rd_fail e"
  "rd_return a bs = Inr (a, bs)" "rd_fail e bs = Inl e"
  by (simp_all add: rd_bind_def rd_return_def rd_fail_def rd_lift_def fun_eq_iff)

lemma rd_bind_Inr_iff [simp]:
  "rd_bind p f bs = Inr (y, rest) \<longleftrightarrow> (\<exists>a r. p bs = Inr (a, r) \<and> f a r = Inr (y, rest))"
  by (auto simp: rd_bind_def rbind_eq_Inr_iff)

lemma rd_lift_Inr_iff [simp]: "rd_lift r bs = Inr (a, rest) \<longleftrightarrow> r = Inr a \<and> rest = bs"
  by (cases r) (auto simp: rd_lift_def)

lemma cursor_take_Inr_iff: "cursor_take n bs = Inr (x, rest) \<longleftrightarrow> length x = n \<and> bs = x @ rest"
  by (auto simp: cursor_take_def)

lemma rd_bind_take [simp]: "length x = n \<Longrightarrow> rd_bind (cursor_take n) f (x @ rest) = f x rest"
  by (simp add: rd_bind_def cursor_take_def)

lemma require_zero_Inr_iff: "require_zero n bs = Inr (u, rest) \<longleftrightarrow> bs = zeros n @ rest"
proof -
  have "\<not> list_ex (\<lambda>b. b \<noteq> 0) x \<and> length x = n \<longleftrightarrow> x = zeros n" for x :: "u8 list"
    by (auto simp: list_ex_iff zeros_def intro!: replicate_eqI)
  then show ?thesis
    by (auto simp: require_zero_def cursor_take_Inr_iff split: if_splits)
qed

subsection \<open>Field codecs\<close>

locale field_codec =
  fixes enc :: "'a \<Rightarrow> u8 list"
    and read :: "'a reader"
    and valid :: "'a \<Rightarrow> bool"
  assumes read_iff: "read bs = Inr (x, rest) \<longleftrightarrow> valid x \<and> bs = enc x @ rest"
begin

lemma read_enc: "valid x \<Longrightarrow> read (enc x @ rest) = Inr (x, rest)"
  by (simp add: read_iff)

lemma bind_enc: "valid x \<Longrightarrow> rd_bind read f (enc x @ rest) = f x rest"
  by (simp add: rd_bind_def read_enc)

lemma bind_enc_end: "valid x \<Longrightarrow> rd_bind read f (enc x) = f x []"
  using bind_enc [of x f "[]"] by simp

lemma enc_prefix_free: "valid x \<Longrightarrow> valid y \<Longrightarrow> enc x @ r = enc y @ s \<Longrightarrow> x = y \<and> r = s"
  by (metis read_enc Inr_inject Pair_inject)

end

text \<open>A second field read after a first one, and a field narrowed by a check.\<close>

locale field_codec_pair =
  fst: field_codec enc1 read1 valid1 + snd: field_codec enc2 read2 valid2
  for enc1 :: "'a \<Rightarrow> u8 list" and read1 valid1
    and enc2 :: "'b \<Rightarrow> u8 list" and read2 valid2

sublocale field_codec_pair \<subseteq> pair: field_codec
  "\<lambda>(x, y). enc1 x @ enc2 y"
  "rd_bind read1 (\<lambda>x. rd_bind read2 (\<lambda>y. rd_return (x, y)))"
  "\<lambda>(x, y). valid1 x \<and> valid2 y"
  by unfold_locales (auto simp: fst.read_iff snd.read_iff)

lemma field_codec_be:
  assumes "8 * n = LENGTH('a::len)"
  shows "rd_bind (cursor_take n) (\<lambda>bs. rd_return (from_be_bytes bs)) bs = Inr (x :: 'a word, rest)
    \<longleftrightarrow> bs = to_be_bytes n x @ rest"
  using assms from_to_be_bytes [of n x]
  by (auto simp: cursor_take_Inr_iff to_from_be_bytes)

interpretation u8_field: field_codec "\<lambda>b. [b]" read_u8 "\<lambda>_. True"
  by unfold_locales (auto simp: read_u8_def cursor_take_Inr_iff length_Suc_conv)

interpretation u16_field: field_codec write_u16 read_u16 "\<lambda>_. True"
  using field_codec_be [of 2, where 'a = 16]
  by unfold_locales (simp del: rd_bind_Inr_iff add: read_u16_def write_u16_def)

interpretation u32_field: field_codec write_u32 read_u32 "\<lambda>_. True"
  using field_codec_be [of 4, where 'a = 32]
  by unfold_locales (simp del: rd_bind_Inr_iff add: read_u32_def write_u32_def)

interpretation u64_field: field_codec write_u64 read_u64 "\<lambda>_. True"
  using field_codec_be [of 8, where 'a = 64]
  by unfold_locales (simp del: rd_bind_Inr_iff add: read_u64_def write_u64_def)

interpretation f32_field: field_codec write_f32 read_f32 f32_is_finite
  by unfold_locales (auto simp: read_f32_def write_f32_def u32_field.read_iff split: if_splits)

interpretation f64_field: field_codec write_f64 read_f64 f64_is_finite
  by unfold_locales (auto simp: read_f64_def write_f64_def u64_field.read_iff split: if_splits)

interpretation bool_field: field_codec "\<lambda>b. [bool_byte b]" read_bool "\<lambda>_. True"
  by unfold_locales
    (auto simp: read_bool_def bool_byte_def u8_field.read_iff intro: exI [of _ "0::u8"] split: if_splits)

interpretation reserved_field: field_codec "\<lambda>_. zeros n" "require_zero n" "\<lambda>_. True"
  by unfold_locales (simp add: require_zero_Inr_iff)

interpretation coordinates: field_codec_pair
  write_f64 read_f64 f64_is_finite write_f64 read_f64 f64_is_finite
  by unfold_locales

lemmas field_reads =
  u8_field.read_iff u16_field.read_iff u32_field.read_iff u64_field.read_iff
  f32_field.read_iff f64_field.read_iff bool_field.read_iff reserved_field.read_iff
  cursor_take_Inr_iff

lemmas field_writes [simp] =
  u8_field.bind_enc [OF TrueI, simplified append_Cons append_Nil] u8_field.bind_enc_end [OF TrueI]
  u16_field.bind_enc [OF TrueI] u16_field.bind_enc_end [OF TrueI]
  u32_field.bind_enc [OF TrueI] u32_field.bind_enc_end [OF TrueI]
  u64_field.bind_enc [OF TrueI] u64_field.bind_enc_end [OF TrueI]
  bool_field.bind_enc [OF TrueI, simplified append_Cons append_Nil] bool_field.bind_enc_end [OF TrueI]
  reserved_field.bind_enc [OF TrueI, where x = "()"] reserved_field.bind_enc_end [OF TrueI, where x = "()"]
  f32_field.bind_enc f32_field.bind_enc_end f64_field.bind_enc f64_field.bind_enc_end

lemma length_writes [simp]:
  "length (write_u16 a) = 2" "length (write_u32 b) = 4" "length (write_u64 c) = 8"
  "length (write_f32 d) = 4" "length (write_f64 e) = 8"
  by (simp_all add: write_u16_def write_u32_def write_u64_def write_f32_def write_f64_def)

end
