(* ===== verification/Protocol_Types.thy ===== *)
theory Protocol_Types
  imports Wire_Bytes Gestures Topology
begin

section \<open>Messages and frames: \<open>monhop-protocol/src/lib.rs\<close>\<close>

text \<open>
  The typed messages of a session, their enumerations with the wire bytes, and the validation of a
  display topology. Constructors carry a short prefix where the source's name is used twice.
\<close>

definition MAGIC :: "u8 list" where "MAGIC = [0x4C, 0x4B, 0x4D, 0x21]"
definition PROTOCOL_VERSION :: u16 where "PROTOCOL_VERSION = 13"
definition HEADER_LEN :: nat where "HEADER_LEN = 28"
definition MAX_FRAME_LEN :: nat where "MAX_FRAME_LEN = 8192"
definition MAX_DISPLAY_NAME_BYTES :: nat where "MAX_DISPLAY_NAME_BYTES = 96"
abbreviation (input) MAX_EVENTS_PER_SECOND :: u32 where "MAX_EVENTS_PER_SECOND \<equiv> 100000"
abbreviation (input) MAX_NATIVE_DIMENSION :: u32 where "MAX_NATIVE_DIMENSION \<equiv> 65535"
abbreviation (input) MAX_LOGICAL_SIZE :: f64 where "MAX_LOGICAL_SIZE \<equiv> f64_of_int 1000000"
abbreviation (input) MAX_LOGICAL_ORIGIN_ABS :: f64 where "MAX_LOGICAL_ORIGIN_ABS \<equiv> f64_of_int 1000000000"
abbreviation (input) MIN_SCALE_FACTOR :: f32 where "MIN_SCALE_FACTOR \<equiv> 0x3DCCCCCD" \<comment> \<open>0.1\<close>
abbreviation (input) MAX_SCALE_FACTOR :: f32 where "MAX_SCALE_FACTOR \<equiv> 0x41800000" \<comment> \<open>16.0\<close>
abbreviation (input) TOPOLOGY_PREFIX_LEN :: nat where "TOPOLOGY_PREFIX_LEN \<equiv> 4"
definition DISPLAY_FIXED_LEN :: nat where "DISPLAY_FIXED_LEN = 64"
definition MODIFIER_MASK :: u16 where "MODIFIER_MASK = 0xFF"

type_synonym session_epoch = u64

datatype epoch_error = EpochZero

definition session_epoch_new :: "u64 \<Rightarrow> epoch_error + session_epoch" where
  "session_epoch_new v = (if v = 0 then Inl EpochZero else Inr v)"

type_synonym capabilities = u32

abbreviation (input) RELATIVE_MOTION :: u32 where "RELATIVE_MOTION \<equiv> 1"
abbreviation (input) HORIZONTAL_SCROLL :: u32 where "HORIZONTAL_SCROLL \<equiv> 2"
abbreviation (input) DISPLAY_TOPOLOGY :: u32 where "DISPLAY_TOPOLOGY \<equiv> 4"
abbreviation (input) KNOWN_BITS :: u32 where "KNOWN_BITS \<equiv> RELATIVE_MOTION OR HORIZONTAL_SCROLL OR DISPLAY_TOPOLOGY"

datatype capability_error = CapUnknownBits

definition capabilities_new :: "u32 \<Rightarrow> capability_error + capabilities" where
  "capabilities_new bits = (if bits AND NOT KNOWN_BITS \<noteq> 0 then Inl CapUnknownBits else Inr bits)"

definition capabilities_contains :: "capabilities \<Rightarrow> u32 \<Rightarrow> bool" where
  "capabilities_contains c capability = (c AND capability = capability)"

record hello =
  hello_device_id :: device_id
  hello_platform :: platform
  hello_protocol_version :: u16
  hello_capabilities :: capabilities
  hello_agreement :: "u8 list"

record display_description =
  dd_id :: display_id
  dd_name :: "u8 list"
  dd_native_width :: u32
  dd_native_height :: u32
  dd_logical_origin :: point
  dd_logical_size :: point
  dd_scale_factor :: f32
  dd_is_primary :: bool
  dd_monitor :: "monitor_identity option"

definition logical_bounds :: "display_description \<Rightarrow> logical_rect" where
  "logical_bounds d =
     \<lparr>rect_origin = dd_logical_origin d,
      rect_size = \<lparr>ls_width = pt_x (dd_logical_size d), ls_height = pt_y (dd_logical_size d)\<rparr>\<rparr>"

subsection \<open>Display topologies\<close>

type_synonym display_topology = "display_description list"

datatype display_topology_error =
    TopoEmpty
  | TopoTooManyDisplays
  | TopoDisplayNameTooLong
  | TopoDuplicateDisplayId
  | TopoInvalidNativeSize
  | TopoNonFiniteGeometry
  | TopoGeometryOverflow
  | TopoLogicalOriginOutOfRange
  | TopoInvalidLogicalSize
  | TopoInvalidScaleFactor
  | TopoPrimaryDisplayCount

definition native_size_bad :: "display_description \<Rightarrow> bool" where
  "native_size_bad d =
     (dd_native_width d = 0 \<or> dd_native_height d = 0 \<or>
      MAX_NATIVE_DIMENSION < dd_native_width d \<or> MAX_NATIVE_DIMENSION < dd_native_height d)"

definition origin_out_of_range :: "point \<Rightarrow> bool" where
  "origin_out_of_range p =
     (f64_lt MAX_LOGICAL_ORIGIN_ABS (f64_abs (pt_x p)) \<or>
      f64_lt MAX_LOGICAL_ORIGIN_ABS (f64_abs (pt_y p)))"

definition logical_size_bad :: "point \<Rightarrow> bool" where
  "logical_size_bad p =
     (f64_le (pt_x p) f64_zero \<or> f64_le (pt_y p) f64_zero \<or>
      f64_lt MAX_LOGICAL_SIZE (pt_x p) \<or> f64_lt MAX_LOGICAL_SIZE (pt_y p))"

definition scale_factor_bad :: "f32 \<Rightarrow> bool" where
  "scale_factor_bad x =
     (\<not> f32_is_finite x \<or> \<not> (f32_le MIN_SCALE_FACTOR x \<and> f32_le x MAX_SCALE_FACTOR))"

definition validate_description :: "display_description \<Rightarrow> display_topology_error + unit" where
  "validate_description d =
     (if MAX_DISPLAY_NAME_BYTES < length (dd_name d) then Inl TopoDisplayNameTooLong
      else if native_size_bad d then Inl TopoInvalidNativeSize
      else if \<not> point_is_finite (dd_logical_origin d) \<or> \<not> point_is_finite (dd_logical_size d)
      then Inl TopoNonFiniteGeometry
      else if \<not> f64_is_finite (f64_add (pt_x (dd_logical_origin d)) (pt_x (dd_logical_size d))) \<or>
              \<not> f64_is_finite (f64_add (pt_y (dd_logical_origin d)) (pt_y (dd_logical_size d)))
      then Inl TopoGeometryOverflow
      else if origin_out_of_range (dd_logical_origin d) then Inl TopoLogicalOriginOutOfRange
      else if logical_size_bad (dd_logical_size d) then Inl TopoInvalidLogicalSize
      else if scale_factor_bad (dd_scale_factor d) then Inl TopoInvalidScaleFactor
      else Inr ())"

text \<open>The loop keeps the displays already seen and the count of primary ones.\<close>

fun validate_descriptions ::
    "display_description list \<Rightarrow> nat \<Rightarrow> display_description list \<Rightarrow> display_topology_error + nat"
where
  "validate_descriptions seen primaries [] = Inr primaries"
| "validate_descriptions seen primaries (d # ds) =
     rbind (validate_description d) (\<lambda>_.
       let primaries' = (if dd_is_primary d then primaries + 1 else primaries)
       in if list_ex (\<lambda>previous. dd_id previous = dd_id d) seen then Inl TopoDuplicateDisplayId
          else validate_descriptions (seen @ [d]) primaries' ds)"

definition topology_validate :: "display_topology \<Rightarrow> display_topology_error + unit" where
  "topology_validate ds =
     (if ds = [] then Inl TopoEmpty
      else if MAX_DISPLAYS < length ds then Inl TopoTooManyDisplays
      else rbind (validate_descriptions [] 0 ds) (\<lambda>primaries.
        if primaries \<noteq> 1 then Inl TopoPrimaryDisplayCount else Inr ()))"

definition display_topology_new ::
    "display_description list \<Rightarrow> display_topology_error + display_topology" where
  "display_topology_new ds = rbind (topology_validate ds) (\<lambda>_. Inr ds)"

definition same_geometry :: "display_topology \<Rightarrow> display_topology \<Rightarrow> bool" where
  "same_geometry a b =
     (length a = length b \<and>
      list_all (\<lambda>d. list_ex (\<lambda>c.
        dd_id d = dd_id c \<and> dd_native_width d = dd_native_width c \<and>
        dd_native_height d = dd_native_height c \<and>
        point_eq (dd_logical_origin d) (dd_logical_origin c) \<and>
        point_eq (dd_logical_size d) (dd_logical_size c) \<and>
        f32_eq (dd_scale_factor d) (dd_scale_factor c) \<and>
        dd_is_primary d = dd_is_primary c) b) a)"

definition same_labels :: "display_topology \<Rightarrow> display_topology \<Rightarrow> bool" where
  "same_labels a b =
     list_all (\<lambda>d. list_ex (\<lambda>c. dd_id c = dd_id d \<and> dd_name c = dd_name d) b) a"

subsection \<open>Messages\<close>

datatype motion = Absolute point | Relative point

record button_event =
  btn_button :: mouse_button
  btn_is_down :: bool
  btn_click_count :: u8

record scroll =
  scroll_horizontal :: f64
  scroll_vertical :: f64

record key_event =
  key_usage :: hid_usage
  key_is_down :: bool
  key_repeat :: bool
  key_modifiers :: modifier_state

datatype disconnect_code = DcRequested | DcTransportLost | DcProtocolViolation | DcSessionExpired

datatype error_code =
  EcMalformedFrame | EcUnsupportedVersion | EcSessionExpired | EcRateLimited | EcProtocolViolation

datatype session_purpose = Share | Setup

datatype frame_scope = Connection | LowerControlsHigher | HigherControlsLower

record control_permissions =
  lower_controls_higher :: bool
  higher_controls_lower :: bool

abbreviation (input) CONTROL_BOTH :: control_permissions where "CONTROL_BOTH \<equiv> \<lparr>lower_controls_higher = True, higher_controls_lower = True\<rparr>"

definition control_to_wire :: "control_permissions \<Rightarrow> u8" where
  "control_to_wire c =
     bool_byte (lower_controls_higher c) OR push_bit 1 (bool_byte (higher_controls_lower c))"

definition control_from_wire :: "u8 \<Rightarrow> decode_error + control_permissions" where
  "control_from_wire v =
     (if v = 0 \<or> 3 < v then Inl DecInvalidControl
      else Inr \<lparr>lower_controls_higher = (v AND 1 \<noteq> 0), higher_controls_lower = (v AND 2 \<noteq> 0)\<rparr>)"

fun control_allows :: "control_permissions \<Rightarrow> frame_scope \<Rightarrow> bool" where
  "control_allows c Connection = False"
| "control_allows c LowerControlsHigher = lower_controls_higher c"
| "control_allows c HigherControlsLower = higher_controls_lower c"

record session_setup =
  setup_purpose :: session_purpose
  setup_control :: control_permissions

datatype decline_reason = Contended | Busy | Disabled

datatype message =
    MsgHello hello
  | MsgSessionSetup session_setup
  | MsgSessionReady
  | MsgDisplayTopology display_topology
  | MsgMotion motion
  | MsgButton button_event
  | MsgScroll scroll
  | MsgGesture pointer_gesture
  | MsgSystemGesture system_gesture
  | MsgKey key_event
  | MsgModifiers modifier_state
  | MsgActivateDisplay display_id
  | MsgActivateDisplayAt display_id point bool
  | MsgActivationAck display_id
  | MsgActivationDeclined display_id decline_reason
  | MsgReleaseAll
  | MsgReleaseAck
  | MsgTakeBack
  | MsgPing u64
  | MsgPong u64
  | MsgDisconnect disconnect_code
  | MsgError error_code

datatype delivery_class = Reliable | MotionDatagram

fun message_delivery :: "message \<Rightarrow> delivery_class" where
  "message_delivery (MsgMotion (Absolute _)) = MotionDatagram"
| "message_delivery _ = Reliable"

datatype message_kind =
    KindHello | KindDisplayTopology | KindMotion | KindButton | KindScroll | KindKey
  | KindModifiers | KindActivateDisplay | KindReleaseAll | KindPing | KindPong | KindDisconnect
  | KindError | KindSessionSetup | KindActivateDisplayAt | KindActivationAck | KindReleaseAck
  | KindSessionReady | KindActivationDeclined | KindTakeBack | KindGesture | KindSystemGesture

fun message_kind_of :: "message \<Rightarrow> message_kind" where
  "message_kind_of (MsgHello _) = KindHello"
| "message_kind_of (MsgSessionSetup _) = KindSessionSetup"
| "message_kind_of MsgSessionReady = KindSessionReady"
| "message_kind_of (MsgDisplayTopology _) = KindDisplayTopology"
| "message_kind_of (MsgMotion _) = KindMotion"
| "message_kind_of (MsgButton _) = KindButton"
| "message_kind_of (MsgScroll _) = KindScroll"
| "message_kind_of (MsgGesture _) = KindGesture"
| "message_kind_of (MsgSystemGesture _) = KindSystemGesture"
| "message_kind_of (MsgKey _) = KindKey"
| "message_kind_of (MsgModifiers _) = KindModifiers"
| "message_kind_of (MsgActivateDisplay _) = KindActivateDisplay"
| "message_kind_of (MsgActivateDisplayAt _ _ _) = KindActivateDisplayAt"
| "message_kind_of (MsgActivationAck _) = KindActivationAck"
| "message_kind_of (MsgActivationDeclined _ _) = KindActivationDeclined"
| "message_kind_of MsgReleaseAll = KindReleaseAll"
| "message_kind_of MsgReleaseAck = KindReleaseAck"
| "message_kind_of MsgTakeBack = KindTakeBack"
| "message_kind_of (MsgPing _) = KindPing"
| "message_kind_of (MsgPong _) = KindPong"
| "message_kind_of (MsgDisconnect _) = KindDisconnect"
| "message_kind_of (MsgError _) = KindError"

record frame =
  fr_epoch :: session_epoch
  fr_sequence :: u64
  fr_message :: message
  fr_scope :: frame_scope

definition frame_new :: "session_epoch \<Rightarrow> u64 \<Rightarrow> message \<Rightarrow> frame" where
  "frame_new e s m = \<lparr>fr_epoch = e, fr_sequence = s, fr_message = m, fr_scope = Connection\<rparr>"

definition with_scope :: "frame_scope \<Rightarrow> frame \<Rightarrow> frame" where
  "with_scope scope f = f\<lparr>fr_scope := scope\<rparr>"

definition frame_delivery :: "frame \<Rightarrow> delivery_class" where
  "frame_delivery f = message_delivery (fr_message f)"

subsection \<open>Wire bytes of the enumerations\<close>

text \<open>Each enumeration with the byte it is sent as and the decoder of that byte.\<close>

fun message_kind_to_wire :: "message_kind \<Rightarrow> u8" where
  "message_kind_to_wire KindHello = 1"
| "message_kind_to_wire KindDisplayTopology = 2"
| "message_kind_to_wire KindMotion = 3"
| "message_kind_to_wire KindButton = 4"
| "message_kind_to_wire KindScroll = 5"
| "message_kind_to_wire KindKey = 6"
| "message_kind_to_wire KindModifiers = 7"
| "message_kind_to_wire KindActivateDisplay = 8"
| "message_kind_to_wire KindReleaseAll = 9"
| "message_kind_to_wire KindPing = 10"
| "message_kind_to_wire KindPong = 11"
| "message_kind_to_wire KindDisconnect = 12"
| "message_kind_to_wire KindError = 13"
| "message_kind_to_wire KindSessionSetup = 14"
| "message_kind_to_wire KindActivateDisplayAt = 15"
| "message_kind_to_wire KindActivationAck = 16"
| "message_kind_to_wire KindReleaseAck = 17"
| "message_kind_to_wire KindSessionReady = 18"
| "message_kind_to_wire KindActivationDeclined = 19"
| "message_kind_to_wire KindTakeBack = 20"
| "message_kind_to_wire KindGesture = 21"
| "message_kind_to_wire KindSystemGesture = 22"

definition message_kind_from_wire :: "u8 \<Rightarrow> decode_error + message_kind" where
  "message_kind_from_wire v =
     (if v = 1 then Inr KindHello
      else if v = 2 then Inr KindDisplayTopology
      else if v = 3 then Inr KindMotion
      else if v = 4 then Inr KindButton
      else if v = 5 then Inr KindScroll
      else if v = 6 then Inr KindKey
      else if v = 7 then Inr KindModifiers
      else if v = 8 then Inr KindActivateDisplay
      else if v = 9 then Inr KindReleaseAll
      else if v = 10 then Inr KindPing
      else if v = 11 then Inr KindPong
      else if v = 12 then Inr KindDisconnect
      else if v = 13 then Inr KindError
      else if v = 14 then Inr KindSessionSetup
      else if v = 15 then Inr KindActivateDisplayAt
      else if v = 16 then Inr KindActivationAck
      else if v = 17 then Inr KindReleaseAck
      else if v = 18 then Inr KindSessionReady
      else if v = 19 then Inr KindActivationDeclined
      else if v = 20 then Inr KindTakeBack
      else if v = 21 then Inr KindGesture
      else if v = 22 then Inr KindSystemGesture
      else Inl DecUnknownMessageType)"

fun scope_to_wire :: "frame_scope \<Rightarrow> u8" where
  "scope_to_wire Connection = 0"
| "scope_to_wire LowerControlsHigher = 1"
| "scope_to_wire HigherControlsLower = 2"

definition scope_from_wire :: "u8 \<Rightarrow> decode_error + frame_scope" where
  "scope_from_wire v =
     (if v = 0 then Inr Connection
      else if v = 1 then Inr LowerControlsHigher
      else if v = 2 then Inr HigherControlsLower
      else Inl DecInvalidScope)"

fun platform_to_wire :: "platform \<Rightarrow> u8" where
  "platform_to_wire Windows = 1"
| "platform_to_wire MacOs = 2"

definition platform_from_wire :: "u8 \<Rightarrow> decode_error + platform" where
  "platform_from_wire v =
     (if v = 1 then Inr Windows else if v = 2 then Inr MacOs else Inl DecInvalidEnum)"

fun session_purpose_to_wire :: "session_purpose \<Rightarrow> u8" where
  "session_purpose_to_wire Share = 1"
| "session_purpose_to_wire Setup = 2"

definition session_purpose_from_wire :: "u8 \<Rightarrow> decode_error + session_purpose" where
  "session_purpose_from_wire v =
     (if v = 1 then Inr Share else if v = 2 then Inr Setup else Inl DecInvalidEnum)"

fun decline_reason_to_wire :: "decline_reason \<Rightarrow> u8" where
  "decline_reason_to_wire Contended = 1"
| "decline_reason_to_wire Busy = 2"
| "decline_reason_to_wire Disabled = 3"

definition decline_reason_from_wire :: "u8 \<Rightarrow> decode_error + decline_reason" where
  "decline_reason_from_wire v =
     (if v = 1 then Inr Contended
      else if v = 2 then Inr Busy
      else if v = 3 then Inr Disabled
      else Inl DecInvalidDeclineReason)"

fun button_to_wire :: "mouse_button \<Rightarrow> u8" where
  "button_to_wire LeftButton = 1"
| "button_to_wire RightButton = 2"
| "button_to_wire MiddleButton = 3"
| "button_to_wire BackButton = 4"
| "button_to_wire ForwardButton = 5"

definition button_from_wire :: "u8 \<Rightarrow> decode_error + mouse_button" where
  "button_from_wire v =
     (if v = 1 then Inr LeftButton
      else if v = 2 then Inr RightButton
      else if v = 3 then Inr MiddleButton
      else if v = 4 then Inr BackButton
      else if v = 5 then Inr ForwardButton
      else Inl DecInvalidEnum)"

fun disconnect_to_wire :: "disconnect_code \<Rightarrow> u8" where
  "disconnect_to_wire DcRequested = 1"
| "disconnect_to_wire DcTransportLost = 2"
| "disconnect_to_wire DcProtocolViolation = 3"
| "disconnect_to_wire DcSessionExpired = 4"

definition disconnect_from_wire :: "u8 \<Rightarrow> decode_error + disconnect_code" where
  "disconnect_from_wire v =
     (if v = 1 then Inr DcRequested
      else if v = 2 then Inr DcTransportLost
      else if v = 3 then Inr DcProtocolViolation
      else if v = 4 then Inr DcSessionExpired
      else Inl DecInvalidEnum)"

fun error_to_wire :: "error_code \<Rightarrow> u8" where
  "error_to_wire EcMalformedFrame = 1"
| "error_to_wire EcUnsupportedVersion = 2"
| "error_to_wire EcSessionExpired = 3"
| "error_to_wire EcRateLimited = 4"
| "error_to_wire EcProtocolViolation = 5"

definition error_from_wire :: "u8 \<Rightarrow> decode_error + error_code" where
  "error_from_wire v =
     (if v = 1 then Inr EcMalformedFrame
      else if v = 2 then Inr EcUnsupportedVersion
      else if v = 3 then Inr EcSessionExpired
      else if v = 4 then Inr EcRateLimited
      else if v = 5 then Inr EcProtocolViolation
      else Inl DecInvalidEnum)"

interpretation message_kind: wire_result message_kind_to_wire message_kind_from_wire
proof unfold_locales
  show "message_kind_from_wire (message_kind_to_wire x) = Inr x" for x
    by (cases x) (simp_all add: message_kind_from_wire_def)
  show "message_kind_from_wire w = Inr x \<Longrightarrow> message_kind_to_wire x = w" for w x
    by (auto simp: message_kind_from_wire_def split: if_splits)
qed

interpretation scope: wire_result scope_to_wire scope_from_wire
proof unfold_locales
  show "scope_from_wire (scope_to_wire x) = Inr x" for x
    by (cases x) (simp_all add: scope_from_wire_def)
  show "scope_from_wire w = Inr x \<Longrightarrow> scope_to_wire x = w" for w x
    by (auto simp: scope_from_wire_def split: if_splits)
qed

interpretation platform: wire_result platform_to_wire platform_from_wire
proof unfold_locales
  show "platform_from_wire (platform_to_wire x) = Inr x" for x
    by (cases x) (simp_all add: platform_from_wire_def)
  show "platform_from_wire w = Inr x \<Longrightarrow> platform_to_wire x = w" for w x
    by (auto simp: platform_from_wire_def split: if_splits)
qed

interpretation session_purpose: wire_result session_purpose_to_wire session_purpose_from_wire
proof unfold_locales
  show "session_purpose_from_wire (session_purpose_to_wire x) = Inr x" for x
    by (cases x) (simp_all add: session_purpose_from_wire_def)
  show "session_purpose_from_wire w = Inr x \<Longrightarrow> session_purpose_to_wire x = w" for w x
    by (auto simp: session_purpose_from_wire_def split: if_splits)
qed

interpretation decline_reason: wire_result decline_reason_to_wire decline_reason_from_wire
proof unfold_locales
  show "decline_reason_from_wire (decline_reason_to_wire x) = Inr x" for x
    by (cases x) (simp_all add: decline_reason_from_wire_def)
  show "decline_reason_from_wire w = Inr x \<Longrightarrow> decline_reason_to_wire x = w" for w x
    by (auto simp: decline_reason_from_wire_def split: if_splits)
qed

interpretation button_wire: wire_result button_to_wire button_from_wire
proof unfold_locales
  show "button_from_wire (button_to_wire x) = Inr x" for x
    by (cases x) (simp_all add: button_from_wire_def)
  show "button_from_wire w = Inr x \<Longrightarrow> button_to_wire x = w" for w x
    by (auto simp: button_from_wire_def split: if_splits)
qed

interpretation disconnect_wire: wire_result disconnect_to_wire disconnect_from_wire
proof unfold_locales
  show "disconnect_from_wire (disconnect_to_wire x) = Inr x" for x
    by (cases x) (simp_all add: disconnect_from_wire_def)
  show "disconnect_from_wire w = Inr x \<Longrightarrow> disconnect_to_wire x = w" for w x
    by (auto simp: disconnect_from_wire_def split: if_splits)
qed

interpretation error_wire: wire_result error_to_wire error_from_wire
proof unfold_locales
  show "error_from_wire (error_to_wire x) = Inr x" for x
    by (cases x) (simp_all add: error_from_wire_def)
  show "error_from_wire w = Inr x \<Longrightarrow> error_to_wire x = w" for w x
    by (auto simp: error_from_wire_def split: if_splits)
qed

lemmas wire_bytes =
  message_kind.from_eq_Inr_iff scope.from_eq_Inr_iff platform.from_eq_Inr_iff
  session_purpose.from_eq_Inr_iff decline_reason.from_eq_Inr_iff button_wire.from_eq_Inr_iff
  disconnect_wire.from_eq_Inr_iff error_wire.from_eq_Inr_iff

lemmas wire_bytes_ok [simp] =
  message_kind.ok_from_to scope.ok_from_to platform.ok_from_to session_purpose.ok_from_to
  decline_reason.ok_from_to button_wire.ok_from_to disconnect_wire.ok_from_to error_wire.ok_from_to

lemma control_from_wire_Inr_iff:
  "control_from_wire v = Inr c \<longleftrightarrow>
     v = control_to_wire c \<and> (lower_controls_higher c \<or> higher_controls_lower c)"
proof -
  have v: "v = 0 \<or> v = 1 \<or> v = 2 \<or> v = 3 \<or> 3 < v"
    by (simp add: word_unat_eq_iff word_less_nat_alt) linarith
  show ?thesis
    using v
    by (cases c)
      (auto simp: control_from_wire_def control_to_wire_def bool_byte_def split: if_splits)
qed

end
