(* ===== verification/Frame_Codec.thy ===== *)
theory Frame_Codec
  imports Protocol_Types
begin

section \<open>Encoding and decoding frames: \<open>monhop-protocol/src/lib.rs\<close>\<close>

text \<open>
  The length and validation pass, the body writer, the body reader, and the whole-frame
  operations. Errors come back in the order the source checks them.
\<close>

datatype encode_error =
    EncFrameTooLarge
  | EncInvalidHelloVersion
  | EncInvalidCapabilities
  | EncInvalidTopology
  | EncNonFiniteCoordinate
  | EncCoordinateOutOfRange
  | EncInvalidKeyUsage
  | EncInvalidKeyState
  | EncInvalidClickCount
  | EncInvalidGesture

datatype datagram_decode_error = DatagramDecode decode_error | ReliableMessage

datatype input_point_error = PointNonFinite | PointOutOfRange

fun point_encode_error :: "input_point_error \<Rightarrow> encode_error" where
  "point_encode_error PointNonFinite = EncNonFiniteCoordinate"
| "point_encode_error PointOutOfRange = EncCoordinateOutOfRange"

fun point_decode_error :: "input_point_error \<Rightarrow> decode_error" where
  "point_decode_error PointNonFinite = DecNonFiniteCoordinate"
| "point_decode_error PointOutOfRange = DecCoordinateOutOfRange"

fun gesture_encode_error :: "gesture_error \<Rightarrow> encode_error" where
  "gesture_encode_error GestureNonFinite = EncNonFiniteCoordinate"
| "gesture_encode_error GestureShape = EncInvalidGesture"
| "gesture_encode_error GestureOutOfRange = EncInvalidGesture"

fun gesture_decode_error :: "gesture_error \<Rightarrow> decode_error" where
  "gesture_decode_error GestureNonFinite = DecNonFiniteCoordinate"
| "gesture_decode_error GestureShape = DecInvalidGesture"
| "gesture_decode_error GestureOutOfRange = DecInvalidGesture"

definition validate_input_point :: "point \<Rightarrow> input_point_error + unit" where
  "validate_input_point p =
     (if \<not> point_is_finite p then Inl PointNonFinite
      else if f64_lt MAX_LOGICAL_ORIGIN_ABS (f64_abs (pt_x p)) \<or>
              f64_lt MAX_LOGICAL_ORIGIN_ABS (f64_abs (pt_y p))
      then Inl PointOutOfRange
      else Inr ())"

subsection \<open>Lengths\<close>

text \<open>\<open>usize\<close> is 64 bits wide.\<close>

definition usize_checked_add :: "nat \<Rightarrow> nat \<Rightarrow> nat option" where
  "usize_checked_add a b = (if a + b < 2 ^ 64 then Some (a + b) else None)"

fun descriptions_len :: "nat \<Rightarrow> display_description list \<Rightarrow> encode_error + nat" where
  "descriptions_len acc [] = Inr acc"
| "descriptions_len acc (d # ds) =
     rbind (ok_or EncFrameTooLarge
       (case usize_checked_add acc DISPLAY_FIXED_LEN of
          None \<Rightarrow> None
        | Some v \<Rightarrow> usize_checked_add v (length (dd_name d))))
       (\<lambda>acc'. descriptions_len acc' ds)"

fun motion_point :: "motion \<Rightarrow> point" where
  "motion_point (Absolute p) = p"
| "motion_point (Relative p) = p"

fun body_len :: "message \<Rightarrow> encode_error + nat" where
  "body_len (MsgHello h) =
     (if hello_protocol_version h \<noteq> PROTOCOL_VERSION then Inl EncInvalidHelloVersion
      else if \<not> is_ok (capabilities_new (hello_capabilities h)) then Inl EncInvalidCapabilities
      else Inr 56)"
| "body_len (MsgSessionSetup _) = Inr 8"
| "body_len (MsgDisplayTopology ds) =
     rbind (map_err (\<lambda>_. EncInvalidTopology) (topology_validate ds))
       (\<lambda>_. descriptions_len TOPOLOGY_PREFIX_LEN ds)"
| "body_len (MsgMotion m) =
     rbind (map_err point_encode_error (validate_input_point (motion_point m))) (\<lambda>_. Inr 20)"
| "body_len (MsgButton b) = (if btn_click_count b = 0 then Inl EncInvalidClickCount else Inr 4)"
| "body_len (MsgScroll s) =
     (if \<not> f64_is_finite (scroll_horizontal s) \<or> \<not> f64_is_finite (scroll_vertical s)
      then Inl EncNonFiniteCoordinate
      else Inr 16)"
| "body_len (MsgGesture g) =
     rbind (map_err gesture_encode_error (gesture_validate g)) (\<lambda>_. Inr 16)"
| "body_len (MsgSystemGesture _) = Inr 4"
| "body_len (MsgKey k) =
     (if \<not> hid_is_valid (key_usage k) then Inl EncInvalidKeyUsage
      else if \<not> key_is_down k \<and> key_repeat k then Inl EncInvalidKeyState
      else Inr 8)"
| "body_len (MsgModifiers _) = Inr 4"
| "body_len (MsgActivateDisplay _) = Inr 8"
| "body_len (MsgActivateDisplayAt _ position _) =
     rbind (map_err point_encode_error (validate_input_point position)) (\<lambda>_. Inr 32)"
| "body_len (MsgActivationAck _) = Inr 8"
| "body_len (MsgActivationDeclined _ _) = Inr 16"
| "body_len MsgReleaseAll = Inr 0"
| "body_len MsgReleaseAck = Inr 0"
| "body_len MsgSessionReady = Inr 0"
| "body_len MsgTakeBack = Inr 0"
| "body_len (MsgPing _) = Inr 8"
| "body_len (MsgPong _) = Inr 8"
| "body_len (MsgDisconnect _) = Inr 4"
| "body_len (MsgError _) = Inr 4"

definition encoded_len :: "frame \<Rightarrow> encode_error + nat" where
  "encoded_len f =
     rbind (body_len (fr_message f)) (\<lambda>n.
       ok_or EncFrameTooLarge
         (case usize_checked_add HEADER_LEN n of
            None \<Rightarrow> None
          | Some acc \<Rightarrow> if acc \<le> MAX_FRAME_LEN then Some acc else None))"

subsection \<open>Writing\<close>

text \<open>An identity the platform did not read is sent as zeros.\<close>

definition monitor_or_zero :: "monitor_identity option \<Rightarrow> monitor_identity" where
  "monitor_or_zero m =
     (case m of None \<Rightarrow> \<lparr>mon_vendor = 0, mon_product = 0, mon_serial = 0\<rparr> | Some x \<Rightarrow> x)"

definition write_monitor :: "monitor_identity option \<Rightarrow> u8 list" where
  "write_monitor m =
     write_u16 (mon_vendor (monitor_or_zero m)) @ write_u16 (mon_product (monitor_or_zero m)) @
     write_u32 (mon_serial (monitor_or_zero m))"

definition write_point :: "point \<Rightarrow> u8 list" where
  "write_point p = write_f64 (pt_x p) @ write_f64 (pt_y p)"

definition encode_description :: "display_description \<Rightarrow> u8 list" where
  "encode_description d =
     write_u64 (dd_id d) @ of_nat (length (dd_name d)) # bool_byte (dd_is_primary d) #
     write_u16 0 @ write_u32 (dd_native_width d) @ write_u32 (dd_native_height d) @
     write_point (dd_logical_origin d) @ write_point (dd_logical_size d) @
     write_f32 (dd_scale_factor d) @ dd_name d @ write_monitor (dd_monitor d)"

fun motion_tag :: "motion \<Rightarrow> u8" where
  "motion_tag (Absolute _) = 1"
| "motion_tag (Relative _) = 2"

definition gesture_phase_byte :: "gesture_phase option \<Rightarrow> u8" where
  "gesture_phase_byte ph = (case ph of None \<Rightarrow> 0 | Some p \<Rightarrow> gesture_phase_to_wire p)"

fun encode_body :: "message \<Rightarrow> u8 list" where
  "encode_body (MsgHello h) =
     hello_device_id h @ platform_to_wire (hello_platform h) # zeros 1 @
     write_u16 (hello_protocol_version h) @ write_u32 (hello_capabilities h) @ hello_agreement h"
| "encode_body (MsgSessionSetup s) =
     session_purpose_to_wire (setup_purpose s) # control_to_wire (setup_control s) # zeros 6"
| "encode_body (MsgDisplayTopology ds) =
     of_nat (length ds) # zeros 3 @ concat (map encode_description ds)"
| "encode_body (MsgMotion m) = motion_tag m # zeros 3 @ write_point (motion_point m)"
| "encode_body (MsgButton b) =
     button_to_wire (btn_button b) # bool_byte (btn_is_down b) # btn_click_count b # zeros 1"
| "encode_body (MsgScroll s) = write_f64 (scroll_horizontal s) @ write_f64 (scroll_vertical s)"
| "encode_body (MsgGesture g) =
     gesture_kind_to_wire (gesture_kind_of g) # gesture_phase_byte (gesture_phase_of g) #
     zeros 6 @ write_f64 (gesture_value_of g)"
| "encode_body (MsgSystemGesture g) = system_gesture_to_wire g # zeros 3"
| "encode_body (MsgKey k) =
     write_u16 (key_usage k) @ bool_byte (key_is_down k) # bool_byte (key_repeat k) #
     write_u16 (ucast (key_modifiers k)) @ write_u16 0"
| "encode_body (MsgModifiers m) = write_u16 (ucast m) @ write_u16 0"
| "encode_body (MsgActivateDisplay i) = write_u64 i"
| "encode_body (MsgActivateDisplayAt i position control_as_command) =
     write_u64 i @ write_point position @ bool_byte control_as_command # zeros 7"
| "encode_body (MsgActivationAck i) = write_u64 i"
| "encode_body (MsgActivationDeclined i reason) =
     write_u64 i @ decline_reason_to_wire reason # zeros 7"
| "encode_body MsgReleaseAll = []"
| "encode_body MsgReleaseAck = []"
| "encode_body MsgSessionReady = []"
| "encode_body MsgTakeBack = []"
| "encode_body (MsgPing nonce) = write_u64 nonce"
| "encode_body (MsgPong nonce) = write_u64 nonce"
| "encode_body (MsgDisconnect code) = disconnect_to_wire code # zeros 3"
| "encode_body (MsgError code) = error_to_wire code # zeros 3"

text \<open>The new contents of the caller's buffer; an error leaves before the buffer is cleared.\<close>

definition encode_into :: "frame \<Rightarrow> u8 list \<Rightarrow> (encode_error + unit) \<times> u8 list" where
  "encode_into f output =
     (case encoded_len f of
        Inl e \<Rightarrow> (Inl e, output)
      | Inr total_len \<Rightarrow>
          let n = total_len - HEADER_LEN
          in if 2 ^ 16 \<le> n then (Inl EncFrameTooLarge, output)
             else (Inr (),
               MAGIC @ write_u16 PROTOCOL_VERSION @
               message_kind_to_wire (message_kind_of (fr_message f)) # scope_to_wire (fr_scope f) #
               write_u16 (of_nat n) @ write_u16 0 @ write_u64 (fr_epoch f) @
               write_u64 (fr_sequence f) @ encode_body (fr_message f)))"

subsection \<open>Reading\<close>

definition read_point :: "point reader" where
  "read_point = rd_bind read_f64 (\<lambda>x. rd_bind read_f64 (\<lambda>y. rd_return (point_new x y)))"

definition read_modifiers :: "modifier_state reader" where
  "read_modifiers = rd_bind read_u16 (\<lambda>raw.
     if raw AND NOT MODIFIER_MASK \<noteq> 0 then rd_fail DecInvalidModifierMask
     else rd_return (ucast raw))"

definition read_monitor :: "monitor_identity option reader" where
  "read_monitor =
     rd_bind read_u16 (\<lambda>vendor. rd_bind read_u16 (\<lambda>product. rd_bind read_u32 (\<lambda>serial.
       rd_return (monitor_identity_new vendor product serial))))"

definition read_description :: "display_description reader" where
  "read_description =
     rd_bind read_u64 (\<lambda>i.
     rd_bind read_u8 (\<lambda>name_len.
     rd_bind read_bool (\<lambda>is_primary.
     rd_bind (require_zero 2) (\<lambda>_.
     rd_bind read_u32 (\<lambda>native_width.
     rd_bind read_u32 (\<lambda>native_height.
     rd_bind read_point (\<lambda>logical_origin.
     rd_bind read_point (\<lambda>logical_size.
     rd_bind read_f32 (\<lambda>scale_factor.
     if MAX_DISPLAY_NAME_BYTES < unat name_len then rd_fail DecInvalidTopology
     else
       rd_bind (cursor_take (unat name_len)) (\<lambda>raw.
       rd_bind (rd_lift (from_utf8 raw)) (\<lambda>name.
       rd_bind read_monitor (\<lambda>monitor.
         rd_return \<lparr>dd_id = i, dd_name = name, dd_native_width = native_width,
           dd_native_height = native_height, dd_logical_origin = logical_origin,
           dd_logical_size = logical_size, dd_scale_factor = scale_factor,
           dd_is_primary = is_primary, dd_monitor = monitor\<rparr>))))))))))))"

primrec read_descriptions :: "nat \<Rightarrow> display_description list reader" where
  "read_descriptions 0 = rd_return []"
| "read_descriptions (Suc n) =
     rd_bind read_description (\<lambda>d. rd_bind (read_descriptions n) (\<lambda>ds. rd_return (d # ds)))"

definition require :: "bool \<Rightarrow> decode_error \<Rightarrow> unit reader" where
  "require ok e = (if ok then rd_return () else rd_fail e)"

definition decode_hello :: "message reader" where
  "decode_hello =
     rd_bind (cursor_take 16) (\<lambda>device_id.
     rd_bind read_u8 (\<lambda>p.
     rd_bind (rd_lift (platform_from_wire p)) (\<lambda>platform.
     rd_bind (require_zero 1) (\<lambda>_.
     rd_bind read_u16 (\<lambda>hello_version.
     rd_bind (require (hello_version = PROTOCOL_VERSION) DecUnsupportedVersion) (\<lambda>_.
     rd_bind read_u32 (\<lambda>bits.
     rd_bind (rd_lift (map_err (\<lambda>_. DecInvalidCapabilities) (capabilities_new bits))) (\<lambda>capabilities.
     rd_bind (cursor_take 32) (\<lambda>agreement.
       rd_return (MsgHello \<lparr>hello_device_id = device_id, hello_platform = platform,
         hello_protocol_version = hello_version, hello_capabilities = capabilities,
         hello_agreement = agreement\<rparr>))))))))))"

definition decode_session_setup :: "message reader" where
  "decode_session_setup =
     rd_bind read_u8 (\<lambda>p.
     rd_bind (rd_lift (session_purpose_from_wire p)) (\<lambda>purpose.
     rd_bind read_u8 (\<lambda>c.
     rd_bind (rd_lift (control_from_wire c)) (\<lambda>control.
     rd_bind (require_zero 6) (\<lambda>_.
     rd_bind (require (\<not> (purpose = Setup \<and> control \<noteq> CONTROL_BOTH)) DecInvalidControl) (\<lambda>_.
       rd_return (MsgSessionSetup \<lparr>setup_purpose = purpose, setup_control = control\<rparr>)))))))"

definition decode_topology :: "message reader" where
  "decode_topology =
     rd_bind read_u8 (\<lambda>count.
     rd_bind (require_zero 3) (\<lambda>_.
     rd_bind (require (\<not> (unat count = 0 \<or> MAX_DISPLAYS < unat count)) DecInvalidTopology) (\<lambda>_.
     rd_bind (read_descriptions (unat count)) (\<lambda>displays.
     rd_bind (rd_lift (map_err (\<lambda>_. DecInvalidTopology) (display_topology_new displays))) (\<lambda>topology.
       rd_return (MsgDisplayTopology topology))))))"

definition decode_motion :: "message reader" where
  "decode_motion =
     rd_bind read_u8 (\<lambda>representation.
     rd_bind (require_zero 3) (\<lambda>_.
     rd_bind read_point (\<lambda>p.
     rd_bind (rd_lift (map_err point_decode_error (validate_input_point p))) (\<lambda>_.
       if representation = 1 then rd_return (MsgMotion (Absolute p))
       else if representation = 2 then rd_return (MsgMotion (Relative p))
       else rd_fail DecInvalidEnum))))"

definition decode_button :: "message reader" where
  "decode_button =
     rd_bind read_u8 (\<lambda>b.
     rd_bind (rd_lift (button_from_wire b)) (\<lambda>button.
     rd_bind read_bool (\<lambda>is_down.
     rd_bind read_u8 (\<lambda>click_count.
     rd_bind (require (click_count \<noteq> 0) DecInvalidClickCount) (\<lambda>_.
     rd_bind (require_zero 1) (\<lambda>_.
       rd_return (MsgButton \<lparr>btn_button = button, btn_is_down = is_down,
         btn_click_count = click_count\<rparr>)))))))"

definition decode_gesture_phase :: "u8 \<Rightarrow> decode_error + gesture_phase option" where
  "decode_gesture_phase ph =
     (if ph = 0 then Inr None
      else rbind (ok_or DecInvalidEnum (gesture_phase_from_wire ph)) (\<lambda>p. Inr (Some p)))"

definition decode_gesture :: "message reader" where
  "decode_gesture =
     rd_bind read_u8 (\<lambda>k.
     rd_bind (rd_lift (ok_or DecInvalidEnum (gesture_kind_from_wire k))) (\<lambda>kind.
     rd_bind read_u8 (\<lambda>ph.
     rd_bind (rd_lift (decode_gesture_phase ph)) (\<lambda>phase.
     rd_bind (require_zero 6) (\<lambda>_.
     rd_bind read_f64 (\<lambda>value.
     rd_bind (rd_lift (map_err gesture_decode_error (gesture_from_parts kind phase value))) (\<lambda>g.
       rd_return (MsgGesture g))))))))"

definition decode_key :: "message reader" where
  "decode_key =
     rd_bind read_u16 (\<lambda>usage.
     rd_bind (require (hid_is_valid usage) DecInvalidKeyUsage) (\<lambda>_.
     rd_bind read_bool (\<lambda>is_down.
     rd_bind read_bool (\<lambda>repeat.
     rd_bind read_modifiers (\<lambda>modifiers.
     rd_bind (require_zero 2) (\<lambda>_.
     rd_bind (require (\<not> (\<not> is_down \<and> repeat)) DecInvalidKeyState) (\<lambda>_.
       rd_return (MsgKey \<lparr>key_usage = usage, key_is_down = is_down, key_repeat = repeat,
         key_modifiers = modifiers\<rparr>))))))))"

definition decode_activate_at :: "message reader" where
  "decode_activate_at =
     rd_bind read_u64 (\<lambda>i.
     rd_bind read_point (\<lambda>position.
     rd_bind (rd_lift (map_err point_decode_error (validate_input_point position))) (\<lambda>_.
     rd_bind read_bool (\<lambda>control_as_command.
     rd_bind (require_zero 7) (\<lambda>_.
       rd_return (MsgActivateDisplayAt i position control_as_command))))))"

definition decode_declined :: "message reader" where
  "decode_declined =
     rd_bind read_u64 (\<lambda>i.
     rd_bind read_u8 (\<lambda>r.
     rd_bind (rd_lift (decline_reason_from_wire r)) (\<lambda>reason.
     rd_bind (require_zero 7) (\<lambda>_.
       rd_return (MsgActivationDeclined i reason)))))"

fun decode_body :: "message_kind \<Rightarrow> message reader" where
  "decode_body KindHello = decode_hello"
| "decode_body KindSessionSetup = decode_session_setup"
| "decode_body KindDisplayTopology = decode_topology"
| "decode_body KindMotion = decode_motion"
| "decode_body KindButton = decode_button"
| "decode_body KindScroll =
     rd_bind read_f64 (\<lambda>horizontal. rd_bind read_f64 (\<lambda>vertical.
       rd_return (MsgScroll \<lparr>scroll_horizontal = horizontal, scroll_vertical = vertical\<rparr>)))"
| "decode_body KindGesture = decode_gesture"
| "decode_body KindSystemGesture =
     rd_bind read_u8 (\<lambda>g. rd_bind (rd_lift (ok_or DecInvalidEnum (system_gesture_from_wire g))) (\<lambda>gesture.
       rd_bind (require_zero 3) (\<lambda>_. rd_return (MsgSystemGesture gesture))))"
| "decode_body KindKey = decode_key"
| "decode_body KindModifiers =
     rd_bind read_modifiers (\<lambda>modifiers. rd_bind (require_zero 2) (\<lambda>_.
       rd_return (MsgModifiers modifiers)))"
| "decode_body KindActivateDisplay = rd_bind read_u64 (\<lambda>i. rd_return (MsgActivateDisplay i))"
| "decode_body KindActivateDisplayAt = decode_activate_at"
| "decode_body KindActivationAck = rd_bind read_u64 (\<lambda>i. rd_return (MsgActivationAck i))"
| "decode_body KindActivationDeclined = decode_declined"
| "decode_body KindReleaseAll = rd_return MsgReleaseAll"
| "decode_body KindReleaseAck = rd_return MsgReleaseAck"
| "decode_body KindSessionReady = rd_return MsgSessionReady"
| "decode_body KindTakeBack = rd_return MsgTakeBack"
| "decode_body KindPing = rd_bind read_u64 (\<lambda>nonce. rd_return (MsgPing nonce))"
| "decode_body KindPong = rd_bind read_u64 (\<lambda>nonce. rd_return (MsgPong nonce))"
| "decode_body KindDisconnect =
     rd_bind read_u8 (\<lambda>c. rd_bind (rd_lift (disconnect_from_wire c)) (\<lambda>code.
       rd_bind (require_zero 3) (\<lambda>_. rd_return (MsgDisconnect code))))"
| "decode_body KindError =
     rd_bind read_u8 (\<lambda>c. rd_bind (rd_lift (error_from_wire c)) (\<lambda>code.
       rd_bind (require_zero 3) (\<lambda>_. rd_return (MsgError code))))"

text \<open>
  The header after the magic. \<open>input_len\<close> is the length of the whole input, which the length field
  must account for exactly.
\<close>

definition decode_header ::
    "nat \<Rightarrow> (message_kind \<times> frame_scope \<times> session_epoch \<times> u64) reader" where
  "decode_header input_len =
     rd_bind read_u16 (\<lambda>version.
     rd_bind (require (version = PROTOCOL_VERSION) DecUnsupportedVersion) (\<lambda>_.
     rd_bind read_u8 (\<lambda>k.
     rd_bind (rd_lift (message_kind_from_wire k)) (\<lambda>kind.
     rd_bind read_u8 (\<lambda>s.
     rd_bind (rd_lift (scope_from_wire s)) (\<lambda>scope.
     rd_bind read_u16 (\<lambda>len.
     rd_bind read_u16 (\<lambda>reserved.
     rd_bind (require (reserved = 0) DecNonZeroReservedField) (\<lambda>_.
     rd_bind (rd_lift (ok_or DecInvalidLength (usize_checked_add HEADER_LEN (unat len)))) (\<lambda>expected_len.
     rd_bind (require (expected_len = input_len) DecInvalidLength) (\<lambda>_.
     rd_bind read_u64 (\<lambda>e.
     rd_bind (rd_lift (map_err (\<lambda>_. DecInvalidEpoch) (session_epoch_new e))) (\<lambda>epoch.
     rd_bind read_u64 (\<lambda>sequence.
       rd_return (kind, scope, epoch, sequence)))))))))))))))"

definition decode :: "u8 list \<Rightarrow> decode_error + frame" where
  "decode input =
     (if MAX_FRAME_LEN < length input then Inl DecFrameTooLarge
      else if length input < HEADER_LEN then Inl DecTruncated
      else if take 4 input \<noteq> MAGIC then Inl DecInvalidMagic
      else
        rbind (decode_header (length input) (drop 4 (take HEADER_LEN input)))
          (\<lambda>((kind, scope, epoch, sequence), _).
        rbind (decode_body kind (drop HEADER_LEN input)) (\<lambda>(message, rest).
          if rest \<noteq> [] then Inl DecTrailingBytes
          else Inr (with_scope scope (frame_new epoch sequence message)))))"

definition decode_datagram :: "u8 list \<Rightarrow> datagram_decode_error + frame" where
  "decode_datagram input =
     rbind (map_err DatagramDecode (decode input)) (\<lambda>f.
       if frame_delivery f \<noteq> MotionDatagram then Inl ReliableMessage else Inr f)"

end
