(* ===== verification/Frame_Round_Trip.thy ===== *)
theory Frame_Round_Trip
  imports Frame_Codec
begin

section \<open>The codec reads back exactly what it writes\<close>

text \<open>
  Every field of a body is a codec of its own; with that each body, the header and the whole
  frame round-trip, and what decodes is what some frame encodes to.
\<close>

subsection \<open>Fields of the bodies\<close>

lemma zero_u16: "write_u16 0 = zeros 2"
  by (simp add: write_u16_def zeros_def numeral_2_eq_2)

interpretation point_field: field_codec write_point read_point point_is_finite
proof unfold_locales
  show "read_point bs = Inr (p, rest) \<longleftrightarrow> point_is_finite p \<and> bs = write_point p @ rest" for bs p rest
    by (cases p) (auto simp: read_point_def write_point_def point_is_finite_def f64_field.read_iff point_new_def)
qed

lemma modifiers_high_bits: "(raw :: u16) AND NOT MODIFIER_MASK = 0 \<longleftrightarrow> raw = ucast (ucast raw :: u8)"
proof -
  have mask: "MODIFIER_MASK = mask 8"
    by (simp add: MODIFIER_MASK_def mask_eq_exp_minus_1)
  have len: "bit raw n \<Longrightarrow> n < 16" for n
    using bit_imp_le_length [of raw n] by simp
  then have "raw AND NOT MODIFIER_MASK = 0 \<longleftrightarrow> (\<forall>n. bit raw n \<longrightarrow> n < 8)"
    unfolding mask by (auto simp: bit_eq_iff bit_simps)
  also have "\<dots> \<longleftrightarrow> raw = ucast (ucast raw :: u8)"
    using len by (auto simp: bit_eq_iff bit_simps)
  finally show ?thesis .
qed

lemma ucast_u16_u8 [simp]: "ucast (ucast (m :: u8) :: u16) = m"
  using bit_imp_le_length [of m] by (auto simp: bit_eq_iff bit_simps)

interpretation modifiers_field: field_codec "\<lambda>m. write_u16 (ucast m)" read_modifiers "\<lambda>_. True"
proof unfold_locales
  show "read_modifiers bs = Inr (m, rest) \<longleftrightarrow> True \<and> bs = write_u16 (ucast m) @ rest" for bs m rest
    using modifiers_high_bits [of "ucast m"]
    by (auto simp: read_modifiers_def u16_field.read_iff modifiers_high_bits split: if_splits
        intro: exI [of _ "ucast m"])
qed


definition monitor_ok :: "monitor_identity option \<Rightarrow> bool" where
  "monitor_ok m = (case m of None \<Rightarrow> True | Some x \<Rightarrow> mon_vendor x \<noteq> 0 \<and> mon_product x \<noteq> 0)"

definition description_ok :: "display_description \<Rightarrow> bool" where
  "description_ok d =
     (length (dd_name d) \<le> MAX_DISPLAY_NAME_BYTES \<and> utf8_valid (dd_name d) \<and>
      point_is_finite (dd_logical_origin d) \<and> point_is_finite (dd_logical_size d) \<and>
      f32_is_finite (dd_scale_factor d) \<and> monitor_ok (dd_monitor d))"

text \<open>
  What the source's types guarantee of a message (array lengths, text in UTF-8, a monitor identity
  with both numbers) and the one rule the encoder leaves to its callers: a setup proposal allows
  some direction, and the setup link allows both.
\<close>

definition setup_ok :: "session_setup \<Rightarrow> bool" where
  "setup_ok s =
     ((lower_controls_higher (setup_control s) \<or> higher_controls_lower (setup_control s)) \<and>
      (setup_purpose s = Setup \<longrightarrow> setup_control s = CONTROL_BOTH))"

fun message_wf :: "message \<Rightarrow> bool" where
  "message_wf (MsgHello h) = (length (hello_device_id h) = 16 \<and> length (hello_agreement h) = 32)"
| "message_wf (MsgSessionSetup s) = setup_ok s"
| "message_wf (MsgDisplayTopology ds) =
     list_all (\<lambda>d. utf8_valid (dd_name d) \<and> monitor_ok (dd_monitor d)) ds"
| "message_wf _ = True"

lemma read_write_monitor: "monitor_ok m \<Longrightarrow> read_monitor (write_monitor m @ rest) = Inr (m, rest)"
  by (cases m)
    (auto simp: monitor_ok_def read_monitor_def write_monitor_def monitor_or_zero_def
      monitor_identity_new_def u16_field.read_iff u32_field.read_iff)

lemma read_monitor_facts:
  "read_monitor bs = Inr (m, rest) \<Longrightarrow> monitor_ok m \<and> length bs = 8 + length rest"
  by (auto simp: read_monitor_def u16_field.read_iff u32_field.read_iff monitor_ok_def
      monitor_identity_new_def)

lemma length_write_monitor [simp]: "length (write_monitor m) = 8"
  by (simp add: write_monitor_def)

lemma length_write_point [simp]: "length (write_point p) = 16"
  by (simp add: write_point_def)

lemma length_encode_description [simp]:
  "length (encode_description d) = DISPLAY_FIXED_LEN + length (dd_name d)"
  by (simp add: encode_description_def DISPLAY_FIXED_LEN_def)

lemma unat_small [simp]: "n \<le> MAX_DISPLAY_NAME_BYTES \<Longrightarrow> unat (of_nat n :: u8) = n"
  by (simp add: MAX_DISPLAY_NAME_BYTES_def unat_of_nat take_bit_nat_eq_self)

lemma rd_bind_monitor [simp]:
  "monitor_ok m \<Longrightarrow> rd_bind read_monitor f (write_monitor m @ rest) = f m rest"
  by (simp add: rd_bind_def read_write_monitor)

lemma read_encode_description:
  assumes "description_ok d"
  shows "read_description (encode_description d @ rest) = Inr (d, rest)"
  using assms
  by (simp add: description_ok_def encode_description_def read_description_def zero_u16
      point_field.bind_enc from_utf8_def del: rd_bind_Inr_iff)

lemma read_description_facts:
  assumes "read_description bs = Inr (d, rest)"
  shows "description_ok d \<and> length bs = length (encode_description d) + length rest"
  using assms
  by (auto simp: read_description_def field_reads point_field.read_iff description_ok_def
      from_utf8_def DISPLAY_FIXED_LEN_def dest!: read_monitor_facts split: if_splits)

lemma read_encode_descriptions:
  "list_all description_ok ds \<Longrightarrow>
     read_descriptions (length ds) (concat (map encode_description ds) @ rest) = Inr (ds, rest)"
  by (induction ds) (simp_all add: read_encode_description)

lemma read_descriptions_facts:
  "read_descriptions n bs = Inr (ds, rest) \<Longrightarrow>
     length ds = n \<and> list_all description_ok ds \<and>
     length bs = length (concat (map encode_description ds)) + length rest"
  by (induction n arbitrary: bs ds) (fastforce dest!: read_description_facts)+

subsection \<open>What topology validation accepts\<close>

lemma validate_descriptions_iff:
  "validate_descriptions seen k ds = Inr n \<longleftrightarrow>
     (\<forall>d\<in>set ds. validate_description d = Inr ()) \<and> distinct (map dd_id ds) \<and>
     dd_id ` set seen \<inter> dd_id ` set ds = {} \<and> n = k + length (filter dd_is_primary ds)"
proof (induction ds arbitrary: seen k)
  case (Cons d ds)
  have "list_ex (\<lambda>previous. dd_id previous = dd_id d) seen \<longleftrightarrow> dd_id d \<in> dd_id ` set seen"
    by (induction seen) auto
  then show ?case
    by (auto simp: rbind_eq_Inr_iff Cons.IH Let_def)
qed auto

lemma topology_validate_iff:
  "topology_validate ds = Inr () \<longleftrightarrow>
     ds \<noteq> [] \<and> length ds \<le> MAX_DISPLAYS \<and> (\<forall>d\<in>set ds. validate_description d = Inr ()) \<and>
     distinct (map dd_id ds) \<and> length (filter dd_is_primary ds) = 1"
  by (auto simp: topology_validate_def rbind_eq_Inr_iff validate_descriptions_iff)

lemma validate_description_facts:
  assumes "validate_description d = Inr ()" "utf8_valid (dd_name d)" "monitor_ok (dd_monitor d)"
  shows "description_ok d"
  using assms
  by (auto simp: validate_description_def description_ok_def scale_factor_bad_def split: if_splits)

lemma descriptions_len_eq:
  assumes "acc + length ds * (DISPLAY_FIXED_LEN + MAX_DISPLAY_NAME_BYTES) < 2 ^ 64"
    and "\<forall>d\<in>set ds. length (dd_name d) \<le> MAX_DISPLAY_NAME_BYTES"
  shows "descriptions_len acc ds = Inr (acc + length (concat (map encode_description ds)))"
  using assms
proof (induction ds arbitrary: acc)
  case (Cons d ds)
  then show ?case by (simp add: usize_checked_add_def)
qed simp

lemma descriptions_size:
  assumes "topology_validate ds = Inr ()"
  shows "length (concat (map encode_description ds)) \<le> 16 * (64 + 96)"
proof -
  have "length (encode_description d) \<le> 64 + 96" if "d \<in> set ds" for d
    using assms that
    by (auto simp: topology_validate_iff validate_description_def DISPLAY_FIXED_LEN_def
        MAX_DISPLAY_NAME_BYTES_def split: if_splits)
  then have "length (concat (map encode_description ds)) \<le> length ds * (64 + 96)"
    by (induction ds) (auto simp del: length_encode_description intro!: add_mono)
  also have "\<dots> \<le> 16 * (64 + 96)"
    using assms by (simp add: topology_validate_iff)
  finally show ?thesis .
qed

lemma body_len_topology:
  assumes "topology_validate ds = Inr ()"
  shows "body_len (MsgDisplayTopology ds) = Inr (length (encode_body (MsgDisplayTopology ds)))"
proof -
  have "length ds \<le> 16" "\<forall>d\<in>set ds. length (dd_name d) \<le> MAX_DISPLAY_NAME_BYTES"
    using assms
    by (auto simp: topology_validate_iff validate_description_def split: if_splits)
  then show ?thesis
    using assms
    by (simp add: descriptions_len_eq DISPLAY_FIXED_LEN_def
        MAX_DISPLAY_NAME_BYTES_def)
qed

lemma length_encode_body:
  assumes "message_wf m" "body_len m = Inr n"
  shows "length (encode_body m) = n"
proof (cases m)
  case (MsgDisplayTopology ds)
  then have "topology_validate ds = Inr ()"
    using assms(2) by (auto simp: rbind_eq_Inr_iff)
  then show ?thesis
    using body_len_topology assms(2) MsgDisplayTopology by simp
qed (use assms in \<open>auto simp: rbind_eq_Inr_iff split: if_splits\<close>)

lemma body_len_bound:
  assumes "message_wf m" "body_len m = Inr n"
  shows "n \<le> 2564"
proof (cases m)
  case (MsgDisplayTopology ds)
  then have "topology_validate ds = Inr ()"
    using assms(2) by (auto simp: rbind_eq_Inr_iff)
  then show ?thesis
    using length_encode_body [OF assms] descriptions_size [of ds] MsgDisplayTopology by simp
qed (use assms in \<open>auto simp: rbind_eq_Inr_iff split: if_splits\<close>)

lemma rd_bind_take_end [simp]: "length x = n \<Longrightarrow> rd_bind (cursor_take n) f x = f x []"
  using rd_bind_take [of x n f "[]"] by simp

lemma require_bind:
  "rd_bind (require b e) f = (if b then f () else rd_fail e)"
  by (simp add: require_def)

lemma decode_encode_topology:
  assumes "topology_validate ds = Inr ()" "message_wf (MsgDisplayTopology ds)"
  shows "decode_topology (encode_body (MsgDisplayTopology ds)) = Inr (MsgDisplayTopology ds, [])"
proof -
  have n: "0 < length ds" "length ds \<le> 16"
    using assms(1) by (auto simp: topology_validate_iff)
  then have u: "unat (of_nat (length ds) :: u8) = length ds"
    by (simp add: unat_of_nat take_bit_nat_eq_self)
  have ok: "list_all description_ok ds"
    using assms validate_description_facts by (auto simp: topology_validate_iff list_all_iff)
  have read: "rd_bind (read_descriptions (length ds)) f (concat (map encode_description ds)) = f ds []" for f
    using read_encode_descriptions [OF ok, of "[]"] by (simp add: rd_bind_def)
  show ?thesis
    using n assms(1)
    by (simp add: decode_topology_def u read display_topology_new_def
        require_bind del: rd_bind_Inr_iff)
qed

lemma validate_point_finite: "validate_input_point p = Inr () \<Longrightarrow> point_is_finite p"
  by (auto simp: validate_input_point_def split: if_splits)

lemma decode_gesture_phase_iff: "decode_gesture_phase b = Inr ph \<longleftrightarrow> b = gesture_phase_byte ph"
  by (cases ph)
    (auto simp: decode_gesture_phase_def gesture_phase_byte_def rbind_eq_Inr_iff
      gesture_phase.from_eq_Some_iff)

lemma gesture_from_parts_facts:
  assumes "gesture_from_parts k p v = Inr g"
  shows "gesture_kind_of g = k \<and> gesture_phase_of g = p \<and> gesture_value_of g = v \<and>
    gesture_validate g = Inr ()"
  using gesture_from_parts_parts [OF assms] assms by (simp add: gesture_validate_def)

lemma decode_encode_body:
  assumes "message_wf m" "body_len m = Inr n"
  shows "decode_body (message_kind_of m) (encode_body m) = Inr (m, [])"
proof (cases m)
  case (MsgHello h)
  with assms show ?thesis
    by (cases h) (auto simp: decode_hello_def is_ok_iff capabilities_new_def split: if_splits simp: require_bind simp del: rd_bind_Inr_iff)
next
  case (MsgDisplayTopology ds)
  with assms show ?thesis
    using decode_encode_topology by (auto simp: rbind_eq_Inr_iff)
next
  case (MsgSessionSetup s)
  then have "control_from_wire (control_to_wire (setup_control s)) = Inr (setup_control s)"
    using assms(1) by (simp add: control_from_wire_Inr_iff setup_ok_def)
  then show ?thesis
    using MsgSessionSetup assms(1)
    by (simp add: decode_session_setup_def setup_ok_def require_bind del: rd_bind_Inr_iff)
next
  case (MsgMotion p)
  with assms show ?thesis
    by (cases p)
      (auto simp: decode_motion_def rbind_eq_Inr_iff point_field.bind_enc_end validate_point_finite
        simp: require_bind simp del: rd_bind_Inr_iff)
next
  case (MsgGesture g)
  then have "gesture_validate g = Inr ()"
    using assms by (auto simp: rbind_eq_Inr_iff)
  then have parts: "gesture_from_parts (gesture_kind_of g) (gesture_phase_of g) (gesture_value_of g) = Inr g"
    using gesture_valid_iff [of g] by (simp add: gesture_valid_def)
  then have "f64_is_finite (gesture_value_of g)"
    by (rule gesture_from_parts_finite)
  then show ?thesis
    using MsgGesture parts
    by (simp add: decode_gesture_def gesture_kind.from_to
        decode_gesture_phase_iff [THEN iffD2, OF refl] del: rd_bind_Inr_iff)
next
  case (MsgActivateDisplayAt i p c)
  with assms show ?thesis
    by (auto simp: decode_activate_at_def rbind_eq_Inr_iff point_field.bind_enc validate_point_finite
        simp: require_bind simp del: rd_bind_Inr_iff)
qed (use assms in \<open>auto simp: decode_button_def decode_key_def decode_declined_def zero_u16
      modifiers_field.bind_enc system_gesture.from_to simp: require_bind simp del: rd_bind_Inr_iff split: if_splits\<close>)


subsection \<open>Decoding accepts only what encoding writes\<close>

lemma require_Inr_iff [simp]: "require b e bs = Inr (u, rest) \<longleftrightarrow> b \<and> rest = bs"
  by (auto simp: require_def)

text \<open>
  A body that decodes is a well-formed message of the right kind which encodes again to a body of
  the same length. It is the very same bytes, except that a monitor identity with one of its two
  numbers zero is read as absent.
\<close>

definition body_canonical :: "message_kind \<Rightarrow> u8 list \<Rightarrow> message \<Rightarrow> u8 list \<Rightarrow> bool" where
  "body_canonical k bs m rest =
     (message_kind_of m = k \<and> message_wf m \<and> body_len m = Inr (length (encode_body m)) \<and>
      length bs = length (encode_body m) + length rest \<and>
      (k \<noteq> KindDisplayTopology \<longrightarrow> bs = encode_body m @ rest))"

lemma decode_topology_canonical:
  assumes "decode_topology bs = Inr (m, rest)"
  shows "body_canonical KindDisplayTopology bs m rest"
proof -
  from assms obtain count ds body where
    bs: "bs = count # zeros 3 @ body" and n: "unat count \<noteq> 0" "unat count \<le> MAX_DISPLAYS"
    and ds: "read_descriptions (unat count) body = Inr (ds, rest)"
    and v: "topology_validate ds = Inr ()" and m: "m = MsgDisplayTopology ds"
    by (auto simp: decode_topology_def field_reads display_topology_new_def rbind_eq_Inr_iff)
  have facts: "length ds = unat count" "list_all description_ok ds"
    "length body = length (concat (map encode_description ds)) + length rest"
    using read_descriptions_facts [OF ds] by auto
  have "message_wf m"
    using facts(2) by (auto simp: m list_all_iff description_ok_def)
  then show ?thesis
    using body_len_topology [OF v] facts(3) bs by (simp add: body_canonical_def m)
qed

lemma decode_body_canonical:
  assumes "decode_body k bs = Inr (m, rest)"
  shows "body_canonical k bs m rest"
proof (cases k)
  case KindHello
  with assms show ?thesis
    by (auto simp: decode_hello_def field_reads wire_bytes body_canonical_def capabilities_new_def split: if_splits)
next
  case KindDisplayTopology
  with assms show ?thesis using decode_topology_canonical by simp
next
  case KindSessionSetup
  with assms show ?thesis
    by (auto simp: decode_session_setup_def field_reads wire_bytes control_from_wire_Inr_iff
        body_canonical_def setup_ok_def)
next
  case KindMotion
  with assms show ?thesis
    by (auto simp: decode_motion_def field_reads point_field.read_iff body_canonical_def split: if_splits)
next
  case KindButton
  with assms show ?thesis
    by (auto simp: decode_button_def field_reads wire_bytes body_canonical_def)
next
  case KindScroll
  with assms show ?thesis
    by (auto simp: field_reads body_canonical_def)
next
  case KindGesture
  with assms show ?thesis
    by (auto simp: decode_gesture_def field_reads gesture_kind.from_eq_Some_iff
        decode_gesture_phase_iff body_canonical_def dest!: gesture_from_parts_facts)
next
  case KindKey
  with assms show ?thesis
    by (auto simp: decode_key_def field_reads modifiers_field.read_iff body_canonical_def zero_u16)
next
  case KindActivateDisplayAt
  with assms show ?thesis
    by (auto simp: decode_activate_at_def field_reads point_field.read_iff body_canonical_def)
next
  case KindActivationDeclined
  with assms show ?thesis
    by (auto simp: decode_declined_def field_reads wire_bytes body_canonical_def)
qed (use assms in \<open>auto simp: field_reads wire_bytes modifiers_field.read_iff zero_u16
      system_gesture.from_eq_Some_iff body_canonical_def\<close>)

subsection \<open>Whole frames\<close>

definition frame_header :: "message_kind \<Rightarrow> frame_scope \<Rightarrow> u16 \<Rightarrow> session_epoch \<Rightarrow> u64 \<Rightarrow> u8 list" where
  "frame_header k scope n epoch sequence =
     write_u16 PROTOCOL_VERSION @ message_kind_to_wire k # scope_to_wire scope #
     write_u16 n @ write_u16 0 @ write_u64 epoch @ write_u64 sequence"

definition frame_bytes :: "frame \<Rightarrow> u8 list" where
  "frame_bytes f =
     MAGIC @ frame_header (message_kind_of (fr_message f)) (fr_scope f)
       (of_nat (length (encode_body (fr_message f)))) (fr_epoch f) (fr_sequence f) @
     encode_body (fr_message f)"

definition frame_wf :: "frame \<Rightarrow> bool" where
  "frame_wf f = (fr_epoch f \<noteq> 0 \<and> message_wf (fr_message f))"

lemma length_frame_header [simp]: "length (frame_header k scope n e q) = 24"
  by (simp add: frame_header_def)

lemma length_MAGIC [simp]: "length MAGIC = 4"
  by (simp add: MAGIC_def)

lemma encode_into_ok:
  assumes "message_wf (fr_message f)" "body_len (fr_message f) = Inr n"
  shows "encode_into f out = (Inr (), frame_bytes f)"
proof -
  have n: "n \<le> 2564" "length (encode_body (fr_message f)) = n"
    using body_len_bound [OF assms] length_encode_body [OF assms] by auto
  then have "encoded_len f = Inr (HEADER_LEN + n)"
    using assms(2)
    by (simp add: encoded_len_def usize_checked_add_def HEADER_LEN_def MAX_FRAME_LEN_def)
  then show ?thesis
    using n by (simp add: encode_into_def frame_bytes_def frame_header_def)
qed

lemma encode_into_error:
  assumes "body_len (fr_message f) = Inl e"
  shows "encode_into f out = (Inl e, out)"
  using assms by (simp add: encode_into_def encoded_len_def)

lemma decode_header_frame:
  assumes "e \<noteq> 0" "28 + unat n = input_len"
  shows "decode_header input_len (frame_header k scope n e q) = Inr ((k, scope, e, q), [])"
proof -
  have "unat n < 2 ^ 16"
    using unsigned_less [of n] by simp
  then have "28 + unat n < 2 ^ 64"
    by simp
  then show ?thesis
    using assms
    by (simp add: decode_header_def frame_header_def require_bind usize_checked_add_def
        HEADER_LEN_def session_epoch_new_def del: rd_bind_Inr_iff)
qed

lemma decode_header_facts:
  assumes "decode_header input_len bs = Inr ((k, scope, e, q), rest)"
  shows "\<exists>n. bs = frame_header k scope n e q @ rest \<and> e \<noteq> 0 \<and> 28 + unat n = input_len"
  using assms
  by (auto simp: decode_header_def field_reads wire_bytes frame_header_def usize_checked_add_def
      HEADER_LEN_def session_epoch_new_def split: if_splits)

lemma length_frame_bytes: "length (frame_bytes f) = 28 + length (encode_body (fr_message f))"
  by (simp add: frame_bytes_def)

lemma decode_frame_bytes_body:
  assumes "fr_epoch f \<noteq> 0" "length (encode_body (fr_message f)) \<le> 2564"
  shows "decode (frame_bytes f) =
    rbind (decode_body (message_kind_of (fr_message f)) (encode_body (fr_message f)))
      (\<lambda>(m, rest). if rest \<noteq> [] then Inl DecTrailingBytes
         else Inr (with_scope (fr_scope f) (frame_new (fr_epoch f) (fr_sequence f) m)))"
proof -
  let ?b = "encode_body (fr_message f)"
  have u: "unat (of_nat (length ?b) :: u16) = length ?b"
    using assms(2) by (simp add: unat_of_nat take_bit_nat_eq_self)
  have parts: "take 4 (frame_bytes f) = MAGIC" "drop 28 (frame_bytes f) = ?b"
    "drop 4 (take 28 (frame_bytes f)) =
       frame_header (message_kind_of (fr_message f)) (fr_scope f) (of_nat (length ?b)) (fr_epoch f) (fr_sequence f)"
    by (simp_all add: frame_bytes_def)
  show ?thesis
    using assms u
    by (simp add: decode_def parts length_frame_bytes MAX_FRAME_LEN_def HEADER_LEN_def
        decode_header_frame)
qed

lemma decode_frame_bytes:
  assumes "frame_wf f" "body_len (fr_message f) = Inr n"
  shows "decode (frame_bytes f) = Inr f"
  using assms length_encode_body body_len_bound
  by (auto simp: frame_wf_def decode_frame_bytes_body decode_encode_body frame_new_def with_scope_def)

lemma decode_facts:
  assumes "decode bs = Inr f"
  shows "frame_wf f \<and> body_len (fr_message f) = Inr (length (encode_body (fr_message f))) \<and>
    length (frame_bytes f) = length bs \<and>
    (message_kind_of (fr_message f) \<noteq> KindDisplayTopology \<longrightarrow> frame_bytes f = bs)"
proof -
  from assms obtain k scope e q r m where len: "28 \<le> length bs" and magic: "take 4 bs = MAGIC"
    and h: "decode_header (length bs) (drop 4 (take 28 bs)) = Inr ((k, scope, e, q), r)"
    and b: "decode_body k (drop 28 bs) = Inr (m, [])"
    and f: "f = with_scope scope (frame_new e q m)"
    by (auto simp: decode_def rbind_eq_Inr_iff HEADER_LEN_def split: if_splits)
  obtain n where n: "drop 4 (take 28 bs) = frame_header k scope n e q @ r" "e \<noteq> 0" "28 + unat n = length bs"
    using decode_header_facts [OF h] by blast
  then have "length (drop 4 (take 28 bs)) = 24 + length r" by simp
  then have r: "r = []" using len by simp
  have c: "body_canonical k (drop 28 bs) m []"
    using decode_body_canonical [OF b] .
  then have un: "unat n = length (encode_body m)"
    using n(3) by (simp add: body_canonical_def) linarith
  have split: "bs = MAGIC @ frame_header k scope n e q @ drop 28 bs"
  proof -
    have "bs = take 28 bs @ drop 28 bs" by simp
    also have "take 28 bs = take 4 (take 28 bs) @ drop 4 (take 28 bs)"
      by (rule append_take_drop_id [symmetric])
    also have "take 4 (take 28 bs) = MAGIC" using magic by simp
    finally show ?thesis using n(1) r by simp
  qed
  have "of_nat (length (encode_body m)) = n"
    by (simp add: un [symmetric])
  then show ?thesis
    using c n(2) split un n(3)
    by (auto simp: frame_wf_def body_canonical_def f with_scope_def frame_new_def frame_bytes_def)
qed

subsection \<open>Properties of the codec\<close>

text \<open>C26: Whatever is encoded decodes to the same frame: for every well-formed frame the encoder
  accepts, the bytes it leaves in the buffer decode to that frame and fit the frame limit.\<close>

theorem frame_round_trip:
  assumes "frame_wf f" "encode_into f out = (Inr (), bs)"
  shows "decode bs = Inr f \<and> length bs \<le> MAX_FRAME_LEN"
proof (cases "body_len (fr_message f)")
  case (Inl e)
  then show ?thesis using encode_into_error assms(2) by auto
next
  case (Inr n)
  have wf: "message_wf (fr_message f)" using assms(1) by (simp add: frame_wf_def)
  have "bs = frame_bytes f"
    using encode_into_ok [OF wf Inr, of out] assms(2) by simp
  then show ?thesis
    using decode_frame_bytes [OF assms(1) Inr] length_encode_body [OF wf Inr] body_len_bound [OF wf Inr]
    by (simp add: length_frame_bytes MAX_FRAME_LEN_def)
qed

text \<open>C27: Decoding accepts only encodings. A frame that decodes is well formed, can be encoded again
  to the same number of bytes, and those bytes decode to the same frame; for every message other
  than a display topology they are the bytes that were received.\<close>

theorem decode_canonical:
  assumes "decode bs = Inr f"
  shows "\<exists>bs'. frame_wf f \<and> encode_into f out = (Inr (), bs') \<and> length bs' = length bs \<and>
    decode bs' = Inr f \<and> (message_kind_of (fr_message f) \<noteq> KindDisplayTopology \<longrightarrow> bs' = bs)"
proof -
  note facts = decode_facts [OF assms]
  then have wf: "frame_wf f" "message_wf (fr_message f)"
    and n: "body_len (fr_message f) = Inr (length (encode_body (fr_message f)))"
    by (auto simp: frame_wf_def)
  show ?thesis
    using facts encode_into_ok [OF wf(2) n, of out] decode_frame_bytes [OF wf(1) n] by blast
qed

text \<open>C28: A datagram is accepted exactly when it decodes to an absolute motion, whose point is then
  finite and within the coordinate limit; every other message is refused as one that must be
  delivered reliably.\<close>

theorem datagram_carries_only_absolute_motion:
  "(decode_datagram bs = Inr f \<longleftrightarrow>
     decode bs = Inr f \<and>
     (\<exists>p. fr_message f = MsgMotion (Absolute p) \<and> validate_input_point p = Inr ())) \<and>
   (\<forall>e. decode bs = Inl e \<longrightarrow> decode_datagram bs = Inl (DatagramDecode e))"
proof -
  have deliver: "frame_delivery f = MotionDatagram \<longleftrightarrow> (\<exists>p. fr_message f = MsgMotion (Absolute p))"
    unfolding frame_delivery_def by (cases "fr_message f" rule: message_delivery.cases) auto
  have valid: "validate_input_point p = Inr ()" if "decode bs = Inr f" "fr_message f = MsgMotion (Absolute p)" for p
    using decode_facts [OF that(1)] that(2) by (auto simp: rbind_eq_Inr_iff)
  show ?thesis
    using deliver valid by (auto simp: decode_datagram_def rbind_eq_Inr_iff split: if_splits)
qed

text \<open>
  Encoding a message the types allow never reports the frame as too large, and when it refuses
  a message the caller's buffer is left as it was.\<close>

theorem encode_never_too_large:
  assumes "message_wf (fr_message f)"
  shows "(\<exists>bs. encode_into f out = (Inr (), bs)) \<or>
    (\<exists>e. encode_into f out = (Inl e, out) \<and> e \<noteq> EncFrameTooLarge)"
proof (cases "body_len (fr_message f)")
  case (Inl e)
  have "e \<noteq> EncFrameTooLarge"
  proof (cases "fr_message f")
    case (MsgDisplayTopology ds)
    show ?thesis
      using Inl body_len_topology [of ds] MsgDisplayTopology
      by (cases "topology_validate ds") auto
  next
    case (MsgMotion p)
    then show ?thesis using Inl by (cases "validate_input_point (motion_point p)")
        (auto elim!: point_encode_error.elims)
  next
    case (MsgActivateDisplayAt i p c)
    then show ?thesis using Inl by (cases "validate_input_point p")
        (auto elim!: point_encode_error.elims)
  next
    case (MsgGesture g)
    then show ?thesis using Inl by (cases "gesture_validate g")
        (auto elim!: gesture_encode_error.elims)
  qed (use Inl in \<open>auto split: if_splits\<close>)
  then show ?thesis using encode_into_error [OF Inl] by blast
next
  case (Inr n)
  then show ?thesis using encode_into_ok [OF assms Inr] by blast
qed

text \<open>
  A display topology is accepted exactly when it has one to sixteen displays, each valid on
  its own, with distinct ids and exactly one primary display.\<close>

theorem topology_validation_exact:
  "display_topology_new ds = Inr ds \<longleftrightarrow>
     ds \<noteq> [] \<and> length ds \<le> MAX_DISPLAYS \<and> (\<forall>d\<in>set ds. validate_description d = Inr ()) \<and>
     distinct (map dd_id ds) \<and> length (filter dd_is_primary ds) = 1"
  unfolding topology_validate_iff [symmetric]
  by (auto simp: display_topology_new_def rbind_eq_Inr_iff)

subsection \<open>Concrete frames\<close>

definition sample_frame :: frame where
  "sample_frame =
     \<lparr>fr_epoch = 1, fr_sequence = 2,
      fr_message = MsgKey \<lparr>key_usage = 4, key_is_down = True, key_repeat = False, key_modifiers = 2\<rparr>,
      fr_scope = LowerControlsHigher\<rparr>"

lemma sample_frame_ok: "frame_wf sample_frame" "body_len (fr_message sample_frame) = Inr 8"
  "message_wf (fr_message sample_frame)"
  by (simp_all add: frame_wf_def sample_frame_def hid_is_valid_def)

theorem frame_round_trip_witness:
  "\<exists>bs. encode_into sample_frame [] = (Inr (), bs) \<and> decode bs = Inr sample_frame"
  using frame_round_trip [OF sample_frame_ok(1)] encode_into_ok [OF sample_frame_ok(3,2), of "[]"]
  by blast

theorem decode_canonical_witness:
  "decode (frame_bytes sample_frame) = Inr sample_frame \<and>
   encode_into sample_frame [] = (Inr (), frame_bytes sample_frame)"
proof -
  have "decode (frame_bytes sample_frame) = Inr sample_frame"
    using decode_frame_bytes sample_frame_ok(1,2) by blast
  then show ?thesis
    using decode_canonical [of "frame_bytes sample_frame" sample_frame "[]"] by (auto simp: sample_frame_def)
qed

definition sample_topology_display :: display_description where
  "sample_topology_display =
     \<lparr>dd_id = 1, dd_name = [], dd_native_width = 0, dd_native_height = 0, dd_logical_origin = point_new 0 0,
      dd_logical_size = point_new 0 0, dd_scale_factor = 0x3F800000, dd_is_primary = True, dd_monitor = None\<rparr>"

theorem datagram_carries_only_absolute_motion_witness:
  "decode [] = Inl DecTruncated \<and> decode_datagram [] = Inl (DatagramDecode DecTruncated)"
  using datagram_carries_only_absolute_motion [of "[]" sample_frame]
  by (simp add: decode_def HEADER_LEN_def)

theorem encode_never_too_large_witness:
  "\<exists>bs. encode_into sample_frame [] = (Inr (), bs)"
  using encode_never_too_large [OF sample_frame_ok(3), of "[]"] encode_into_ok [OF sample_frame_ok(3,2), of "[]"]
  by blast

theorem topology_validation_exact_witness:
  "display_topology_new [sample_topology_display] \<noteq> Inr [sample_topology_display]"
  using topology_validation_exact [of "[sample_topology_display]"]
  by (simp add: sample_topology_display_def validate_description_def native_size_bad_def)

subsection \<open>Setup proposals\<close>

text \<open>What reading back a written proposal comes to.\<close>

lemma decode_encode_setup:
  "decode_session_setup (encode_body (MsgSessionSetup s)) =
     (if setup_ok s then Inr (MsgSessionSetup s, []) else Inl DecInvalidControl)"
proof (cases "lower_controls_higher (setup_control s) \<or> higher_controls_lower (setup_control s)")
  case True
  then have "control_from_wire (control_to_wire (setup_control s)) = Inr (setup_control s)"
    by (simp add: control_from_wire_Inr_iff)
  then show ?thesis
    using True by (cases s) (auto simp: decode_session_setup_def setup_ok_def require_bind simp del: rd_bind_Inr_iff)
next
  case False
  then have "control_from_wire (control_to_wire (setup_control s)) = Inl DecInvalidControl"
    by (simp add: control_from_wire_def control_to_wire_def bool_byte_def)
  then show ?thesis
    using False by (simp add: decode_session_setup_def setup_ok_def del: rd_bind_Inr_iff)
qed

text \<open>C33: The rules of a setup proposal are checked on the receiving side only. A frame with any proposal,
  whatever its sequence, scope and epoch, zero apart, is encoded without an error; the receiver reads the very
  frame back when the proposal allows a direction and, if it is for setting up, both, and refuses every
  other proposal as invalid control.\<close>

theorem setup_rules_checked_on_receipt:
  assumes "fr_message f = MsgSessionSetup s" "fr_epoch f \<noteq> 0"
  shows "\<exists>bs. encode_into f out = (Inr (), bs) \<and>
    decode bs =
      (if (lower_controls_higher (setup_control s) \<or> higher_controls_lower (setup_control s)) \<and>
          (setup_purpose s = Setup \<longrightarrow> lower_controls_higher (setup_control s) \<and> higher_controls_lower (setup_control s))
       then Inr f else Inl DecInvalidControl)"
proof -
  have "encode_into f out = (Inr (), frame_bytes f)"
    using assms(1)
    by (simp add: encode_into_def encoded_len_def usize_checked_add_def HEADER_LEN_def MAX_FRAME_LEN_def frame_bytes_def
        frame_header_def)
  moreover have "decode (frame_bytes f) = (if setup_ok s then Inr f else Inl DecInvalidControl)"
    using assms decode_encode_setup [of s] by (simp add: decode_frame_bytes_body frame_new_def with_scope_def)
  moreover have "setup_ok s \<longleftrightarrow> (lower_controls_higher (setup_control s) \<or> higher_controls_lower (setup_control s)) \<and>
      (setup_purpose s = Setup \<longrightarrow> lower_controls_higher (setup_control s) \<and> higher_controls_lower (setup_control s))"
    by (cases "setup_control s") (auto simp: setup_ok_def)
  ultimately show ?thesis by simp
qed

definition sample_setup :: "session_purpose \<Rightarrow> bool \<Rightarrow> bool \<Rightarrow> frame" where
  "sample_setup purpose low high = frame_new 7 3 (MsgSessionSetup \<lparr>setup_purpose = purpose,
     setup_control = \<lparr>lower_controls_higher = low, higher_controls_lower = high\<rparr>\<rparr>)"

theorem setup_rules_checked_on_receipt_witness:
  "(\<exists>bs. encode_into (sample_setup Share False False) [] = (Inr (), bs) \<and> decode bs = Inl DecInvalidControl) \<and>
   (\<exists>bs. encode_into (sample_setup Setup True False) [] = (Inr (), bs) \<and> decode bs = Inl DecInvalidControl) \<and>
   (\<exists>bs. encode_into (sample_setup Share True False) [] = (Inr (), bs) \<and> decode bs = Inr (sample_setup Share True False))"
  using setup_rules_checked_on_receipt [of "sample_setup Share False False" _ "[]"]
    setup_rules_checked_on_receipt [of "sample_setup Setup True False" _ "[]"]
    setup_rules_checked_on_receipt [of "sample_setup Share True False" _ "[]"]
  by (simp add: sample_setup_def frame_new_def)

end
