(* ===== verification/Session_Gates.thy ===== *)
theory Session_Gates
  imports Protocol_Types
begin

section \<open>Replay gate and rate limiter: \<open>monhop-protocol/src/lib.rs\<close>\<close>

text \<open>
  The sequence gate admits each frame of a session at most once, in order, per channel. The rate
  limiter is a token bucket in milli-credits driven by the caller's clock. Operations that fail
  return the error with the state they leave behind.
\<close>

datatype sequence_gate_error = NotHeartbeat | EpochNotActivated | EpochNotNew | EpochMismatch | StaleOrReplay

record sequence_gate =
  sg_active_epoch :: "session_epoch option"
  sg_reliable_sequence :: "u64 option"
  sg_motion_sequence :: "u64 option"
  sg_heartbeat_sequence :: "u64 option"

definition sequence_gate_default :: sequence_gate where
  "sequence_gate_default = \<lparr>sg_active_epoch = None, sg_reliable_sequence = None,
     sg_motion_sequence = None, sg_heartbeat_sequence = None\<rparr>"

definition seed_heartbeat :: "u64 option \<Rightarrow> sequence_gate \<Rightarrow> sequence_gate" where
  "seed_heartbeat l g = g\<lparr>sg_heartbeat_sequence := l\<rparr>"

definition activate_epoch ::
    "session_epoch \<Rightarrow> sequence_gate \<Rightarrow> (sequence_gate_error + unit) \<times> sequence_gate" where
  "activate_epoch epoch g =
     (if (case sg_active_epoch g of None \<Rightarrow> False | Some a \<Rightarrow> epoch \<le> a) then (Inl EpochNotNew, g)
      else (Inr (), \<lparr>sg_active_epoch = Some epoch, sg_reliable_sequence = None,
              sg_motion_sequence = None, sg_heartbeat_sequence = None\<rparr>))"

definition check_epoch :: "sequence_gate \<Rightarrow> frame \<Rightarrow> sequence_gate_error + unit" where
  "check_epoch g f =
     (if sg_active_epoch g = None then Inl EpochNotActivated
      else if sg_active_epoch g \<noteq> Some (fr_epoch f) then Inl EpochMismatch
      else Inr ())"

definition gate_advance :: "u64 option \<Rightarrow> u64 \<Rightarrow> (sequence_gate_error + unit) \<times> u64 option" where
  "gate_advance l sequence =
     (if (case l of None \<Rightarrow> False | Some prev \<Rightarrow> sequence \<le> prev) then (Inl StaleOrReplay, l)
      else (Inr (), Some sequence))"

definition gate_accept :: "frame \<Rightarrow> sequence_gate \<Rightarrow> (sequence_gate_error + unit) \<times> sequence_gate" where
  "gate_accept f g =
     (case check_epoch g f of
        Inl e \<Rightarrow> (Inl e, g)
      | Inr _ \<Rightarrow>
          (case frame_delivery f of
             Reliable \<Rightarrow>
               (let (r, l) = gate_advance (sg_reliable_sequence g) (fr_sequence f)
                in (r, g\<lparr>sg_reliable_sequence := l\<rparr>))
           | MotionDatagram \<Rightarrow>
               (let (r, l) = gate_advance (sg_motion_sequence g) (fr_sequence f)
                in (r, g\<lparr>sg_motion_sequence := l\<rparr>))))"

fun is_heartbeat :: "message \<Rightarrow> bool" where
  "is_heartbeat (MsgPing _) = True"
| "is_heartbeat (MsgPong _) = True"
| "is_heartbeat _ = False"

definition gate_accept_heartbeat ::
    "frame \<Rightarrow> sequence_gate \<Rightarrow> (sequence_gate_error + unit) \<times> sequence_gate" where
  "gate_accept_heartbeat f g =
     (if \<not> is_heartbeat (fr_message f) then (Inl NotHeartbeat, g)
      else case check_epoch g f of
          Inl e \<Rightarrow> (Inl e, g)
        | Inr _ \<Rightarrow>
            (let (r, l) = gate_advance (sg_heartbeat_sequence g) (fr_sequence f)
             in (r, g\<lparr>sg_heartbeat_sequence := l\<rparr>)))"

subsection \<open>Runs of the gate\<close>

datatype gate_channel = ChReliable | ChMotion | ChHeartbeat

datatype gate_op =
    GateActivate session_epoch
  | GateAccept frame
  | GateHeartbeat frame
  | GateSeed "u64 option"

fun channel_of :: "delivery_class \<Rightarrow> gate_channel" where
  "channel_of Reliable = ChReliable"
| "channel_of MotionDatagram = ChMotion"

fun gate_last :: "gate_channel \<Rightarrow> sequence_gate \<Rightarrow> u64 option" where
  "gate_last ChReliable g = sg_reliable_sequence g"
| "gate_last ChMotion g = sg_motion_sequence g"
| "gate_last ChHeartbeat g = sg_heartbeat_sequence g"

text \<open>One operation, with the frame it admitted, if any, and the channel it used.\<close>

fun gate_apply :: "gate_op \<Rightarrow> sequence_gate \<Rightarrow> (gate_channel \<times> frame) option \<times> sequence_gate" where
  "gate_apply (GateActivate e) g = (None, snd (activate_epoch e g))"
| "gate_apply (GateAccept f) g =
     (if is_ok (fst (gate_accept f g)) then Some (channel_of (frame_delivery f), f) else None,
      snd (gate_accept f g))"
| "gate_apply (GateHeartbeat f) g =
     (if is_ok (fst (gate_accept_heartbeat f g)) then Some (ChHeartbeat, f) else None,
      snd (gate_accept_heartbeat f g))"
| "gate_apply (GateSeed l) g = (None, seed_heartbeat l g)"

fun gate_run :: "gate_op list \<Rightarrow> sequence_gate \<Rightarrow> (gate_channel \<times> frame) list" where
  "gate_run [] g = []"
| "gate_run (op # ops) g =
     (case gate_apply op g of
        (None, g') \<Rightarrow> gate_run ops g'
      | (Some a, g') \<Rightarrow> a # gate_run ops g')"

definition frame_before :: "frame \<Rightarrow> frame \<Rightarrow> bool" where
  "frame_before f h = (fr_epoch f < fr_epoch h \<or> fr_epoch f = fr_epoch h \<and> fr_sequence f < fr_sequence h)"

definition admitted_on :: "gate_channel \<Rightarrow> (gate_channel \<times> frame) list \<Rightarrow> frame list" where
  "admitted_on ch as = map snd (filter (\<lambda>a. fst a = ch) as)"

text \<open>The gate already stands at or beyond a frame of a channel.\<close>

definition gate_past :: "gate_channel \<Rightarrow> frame \<Rightarrow> sequence_gate \<Rightarrow> bool" where
  "gate_past ch f g =
     (case sg_active_epoch g of
        None \<Rightarrow> False
      | Some a \<Rightarrow> fr_epoch f < a \<or>
          fr_epoch f = a \<and> (case gate_last ch g of None \<Rightarrow> False | Some l \<Rightarrow> fr_sequence f \<le> l))"

definition seeds_heartbeat :: "gate_op \<Rightarrow> bool" where
  "seeds_heartbeat op = (case op of GateSeed _ \<Rightarrow> True | _ \<Rightarrow> False)"

lemmas gate_defs =
  activate_epoch_def gate_accept_def gate_accept_heartbeat_def check_epoch_def gate_advance_def
  seed_heartbeat_def Let_def

lemma gate_past_kept:
  assumes "gate_past ch f g" "ch \<noteq> ChHeartbeat \<or> \<not> seeds_heartbeat op"
  shows "gate_past ch f (snd (gate_apply op g))"
  using assms
  by (cases op; cases ch)
    (auto simp: gate_defs gate_past_def seeds_heartbeat_def split: option.splits delivery_class.splits)

lemma gate_past_admitted:
  assumes "gate_apply op g = (Some (ch, h), g')"
  shows "gate_past ch h g'"
  using assms
  by (cases op)
    (auto simp: gate_defs gate_past_def split: option.splits delivery_class.splits if_splits)

lemma gate_admits_later:
  assumes "gate_apply op g = (Some (ch, h), g')" "gate_past ch f g"
  shows "frame_before f h"
  using assms
  by (cases op)
    (auto simp: gate_defs gate_past_def frame_before_def split: option.splits delivery_class.splits if_splits)

lemma gate_run_after:
  assumes "gate_past ch f g" "ch \<noteq> ChHeartbeat \<or> list_all (\<lambda>op. \<not> seeds_heartbeat op) ops"
  shows "\<forall>h\<in>set (admitted_on ch (gate_run ops g)). frame_before f h"
  using assms
proof (induction ops arbitrary: g)
  case (Cons op ops)
  obtain r g' where r: "gate_apply op g = (r, g')" by fastforce
  have "gate_past ch f g'"
    using gate_past_kept [of ch f g op] Cons.prems r by auto
  then have IH: "\<forall>h\<in>set (admitted_on ch (gate_run ops g')). frame_before f h"
    using Cons by auto
  show ?case
  proof (cases r)
    case None
    then show ?thesis using r IH by simp
  next
    case (Some a)
    obtain c h where a: "a = (c, h)" by (cases a)
    have "frame_before f h" if "c = ch"
      using gate_admits_later [of op g c h g' f] r Some a Cons.prems(1) that by simp
    then show ?thesis
      using r IH Some a by (auto simp: admitted_on_def)
  qed
qed (simp add: admitted_on_def)

lemma gate_run_sorted:
  assumes "ch \<noteq> ChHeartbeat \<or> list_all (\<lambda>op. \<not> seeds_heartbeat op) ops"
  shows "sorted_wrt frame_before (admitted_on ch (gate_run ops g))"
  using assms
proof (induction ops arbitrary: g)
  case (Cons op ops)
  obtain r g' where r: "gate_apply op g = (r, g')" by fastforce
  have IH: "sorted_wrt frame_before (admitted_on ch (gate_run ops g'))"
    using Cons by auto
  show ?case
  proof (cases r)
    case None
    then show ?thesis using r IH by simp
  next
    case (Some a)
    obtain c h where a: "a = (c, h)" by (cases a)
    have "gate_past c h g'"
      using r Some a gate_past_admitted by simp
    moreover have "ch \<noteq> ChHeartbeat \<or> list_all (\<lambda>op. \<not> seeds_heartbeat op) ops"
      using Cons.prems by auto
    ultimately have "\<forall>x\<in>set (admitted_on c (gate_run ops g')). frame_before h x" if "c = ch"
      using gate_run_after that by blast
    then show ?thesis
      using r IH Some a by (auto simp: admitted_on_def)
  qed
qed (simp add: admitted_on_def)

text \<open>C29: No replay. Whatever frames arrive and whatever epochs are activated, the frames admitted on
  the reliable channel, and those admitted on the motion channel, are strictly increasing in epoch
  and then sequence; the same holds for heartbeats while the heartbeat space is not seeded anew.
  In particular no epoch and sequence pair is admitted twice on a channel.\<close>

theorem gate_admits_no_replay:
  "sorted_wrt frame_before (admitted_on ChReliable (gate_run ops g)) \<and>
   sorted_wrt frame_before (admitted_on ChMotion (gate_run ops g)) \<and>
   (list_all (\<lambda>op. \<not> seeds_heartbeat op) ops \<longrightarrow>
      sorted_wrt frame_before (admitted_on ChHeartbeat (gate_run ops g)))"
  by (simp add: gate_run_sorted)

subsection \<open>The rate limiter\<close>

datatype rate_limit_config_error = ZeroRate | RateTooHigh

datatype rate_limit_error = ClockMovedBackwards | Exceeded

record rate_limiter =
  rl_rate_per_second :: u32
  rl_credits_milli :: u64
  rl_last_timestamp_ms :: "u64 option"

definition rate_limiter_new :: "u32 \<Rightarrow> rate_limit_config_error + rate_limiter" where
  "rate_limiter_new rate =
     (if rate = 0 then Inl ZeroRate
      else if MAX_EVENTS_PER_SECOND < rate then Inl RateTooHigh
      else Inr \<lparr>rl_rate_per_second = rate, rl_credits_milli = ucast rate * 1000,
                rl_last_timestamp_ms = None\<rparr>)"

definition rate_refill :: "u64 \<Rightarrow> u64 \<Rightarrow> rate_limiter \<Rightarrow> rate_limiter" where
  "rate_refill timestamp prev r =
     (let capacity = ucast (rl_rate_per_second r) * 1000;
          refill = saturating_mul (saturating_sub timestamp prev) (ucast (rl_rate_per_second r))
      in r\<lparr>rl_credits_milli := min (saturating_add (rl_credits_milli r) refill) capacity\<rparr>)"

definition rate_spend :: "u64 \<Rightarrow> rate_limiter \<Rightarrow> (rate_limit_error + unit) \<times> rate_limiter" where
  "rate_spend timestamp r =
     (let r1 = r\<lparr>rl_last_timestamp_ms := Some timestamp\<rparr>
      in if rl_credits_milli r1 < 1000 then (Inl Exceeded, r1)
         else (Inr (), r1\<lparr>rl_credits_milli := rl_credits_milli r1 - 1000\<rparr>))"

definition allow_at :: "u64 \<Rightarrow> rate_limiter \<Rightarrow> (rate_limit_error + unit) \<times> rate_limiter" where
  "allow_at timestamp r =
     (case rl_last_timestamp_ms r of
        None \<Rightarrow> rate_spend timestamp r
      | Some prev \<Rightarrow>
          if timestamp < prev then (Inl ClockMovedBackwards, r)
          else rate_spend timestamp (rate_refill timestamp prev r))"

fun allow_all :: "u64 list \<Rightarrow> rate_limiter \<Rightarrow> nat \<times> rate_limiter" where
  "allow_all [] r = (0, r)"
| "allow_all (t # ts) r =
     (let (res, r1) = allow_at t r; (n, r2) = allow_all ts r1
      in (if is_ok res then Suc n else n, r2))"

definition rl_capacity :: "rate_limiter \<Rightarrow> nat" where
  "rl_capacity r = unat (rl_rate_per_second r) * 1000"

definition rl_wf :: "rate_limiter \<Rightarrow> bool" where
  "rl_wf r = (0 < rl_rate_per_second r \<and> rl_rate_per_second r \<le> MAX_EVENTS_PER_SECOND \<and>
     unat (rl_credits_milli r) \<le> rl_capacity r)"

definition rl_last :: "rate_limiter \<Rightarrow> u64 \<Rightarrow> nat" where
  "rl_last r t = (case rl_last_timestamp_ms r of None \<Rightarrow> unat t | Some l \<Rightarrow> unat l)"

lemma unat_capacity: "unat (ucast (rate :: u32) * 1000 :: u64) = unat rate * 1000"
proof -
  have "unat rate < 2 ^ 32" using unsigned_less [of rate] by simp
  then show ?thesis by (simp add: unat_word_ariths unsigned_ucast_eq take_bit_nat_eq_self)
qed

lemma unat_ucast_u32_u64 [simp]: "unat (ucast (rate :: u32) :: u64) = unat rate"
proof -
  have "unat rate < 2 ^ 32" using unsigned_less [of rate] by simp
  then show ?thesis by (simp add: unsigned_ucast_eq take_bit_nat_eq_self)
qed

lemma rl_capacity_bound: "rl_wf r \<Longrightarrow> rl_capacity r \<le> 100000000"
  by (simp add: rl_wf_def rl_capacity_def word_le_nat_alt)

lemma refill_credits:
  assumes "rl_wf r"
  shows "unat (rl_credits_milli (rate_refill t prev r)) =
    min (unat (rl_credits_milli r) + (unat t - unat prev) * unat (rl_rate_per_second r)) (rl_capacity r)"
  using rl_capacity_bound [OF assms] assms
  by (auto simp: rate_refill_def Let_def min_def unat_saturating_add unat_saturating_mul
      unat_saturating_sub unat_capacity rl_capacity_def rl_wf_def word_le_nat_alt)

lemma refill_keeps [simp]:
  "rl_rate_per_second (rate_refill t prev r) = rl_rate_per_second r"
  "rl_last_timestamp_ms (rate_refill t prev r) = rl_last_timestamp_ms r"
  "rl_capacity (rate_refill t prev r) = rl_capacity r"
  by (simp_all add: rate_refill_def Let_def rl_capacity_def)

lemma refill_wf: "rl_wf r \<Longrightarrow> rl_wf (rate_refill t prev r)"
  using refill_credits [of r t prev] by (simp add: rl_wf_def)

text \<open>Spending moves a thousand milli-credits per admitted event and nothing otherwise.\<close>

lemma spend_facts:
  assumes "rate_spend t r = (res, r')"
  shows "rl_rate_per_second r' = rl_rate_per_second r" "rl_last_timestamp_ms r' = Some t"
    "is_ok res \<longleftrightarrow> 1000 \<le> unat (rl_credits_milli r)"
    "unat (rl_credits_milli r') + (if is_ok res then 1000 else 0) = unat (rl_credits_milli r)"
  using assms
  by (auto simp: rate_spend_def Let_def word_less_nat_alt unat_sub word_le_nat_alt split: if_splits)

lemma allow_at_facts:
  assumes "rl_wf r" "allow_at t r = (res, r')"
  shows "rl_wf r'" "rl_rate_per_second r' = rl_rate_per_second r" "rl_last r t \<le> rl_last r' t"
    "unat (rl_credits_milli r') + (if is_ok res then 1000 else 0) \<le>
       unat (rl_credits_milli r) + (rl_last r' t - rl_last r t) * unat (rl_rate_per_second r)"
    "rl_last_timestamp_ms r' \<noteq> None"
proof -
  consider (fresh) "rl_last_timestamp_ms r = None" "rate_spend t r = (res, r')"
    | (clock_back) p where "rl_last_timestamp_ms r = Some p" "r' = r" "\<not> is_ok res"
    | (refill) p where "rl_last_timestamp_ms r = Some p" "p \<le> t"
        "rate_spend t (rate_refill t p r) = (res, r')"
    using assms(2) by (auto simp: allow_at_def split: option.splits if_splits)
  then have "rl_wf r' \<and> rl_rate_per_second r' = rl_rate_per_second r \<and> rl_last r t \<le> rl_last r' t \<and>
    unat (rl_credits_milli r') + (if is_ok res then 1000 else 0) \<le>
       unat (rl_credits_milli r) + (rl_last r' t - rl_last r t) * unat (rl_rate_per_second r) \<and>
    rl_last_timestamp_ms r' \<noteq> None"
  proof cases
    case fresh
    note f = spend_facts [OF fresh(2)]
    then show ?thesis
      using assms(1) fresh(1) by (auto simp: rl_wf_def rl_capacity_def rl_last_def split: if_splits)
  next
    case clock_back
    then show ?thesis using assms(1) by (simp add: rl_last_def)
  next
    case refill
    note f = spend_facts [OF refill(3)] and c = refill_credits [OF assms(1), of t p]
    have "rl_wf r'"
      using f refill_wf [OF assms(1), of t p] by (auto simp: rl_wf_def rl_capacity_def split: if_splits)
    then show ?thesis
      using f c refill(1,2) by (auto simp: rl_last_def word_le_nat_alt split: if_splits)
  qed
  then show "rl_wf r'" "rl_rate_per_second r' = rl_rate_per_second r" "rl_last r t \<le> rl_last r' t"
    "unat (rl_credits_milli r') + (if is_ok res then 1000 else 0) \<le>
       unat (rl_credits_milli r) + (rl_last r' t - rl_last r t) * unat (rl_rate_per_second r)"
    "rl_last_timestamp_ms r' \<noteq> None"
    by blast+
qed

lemma allow_all_bound:
  assumes "rl_wf r" "rl_last_timestamp_ms r = Some a" "allow_all ts r = (n, r')"
  shows "\<exists>b. rl_wf r' \<and> rl_rate_per_second r' = rl_rate_per_second r \<and>
    rl_last_timestamp_ms r' = Some b \<and> unat a \<le> unat b \<and>
    1000 * n + unat (rl_credits_milli r') \<le>
      unat (rl_credits_milli r) + (unat b - unat a) * unat (rl_rate_per_second r)"
  using assms
proof (induction ts arbitrary: r a n)
  case (Cons t ts)
  obtain res r1 where r1: "allow_at t r = (res, r1)" by fastforce
  obtain m where m: "allow_all ts r1 = (m, r')" "n = (if is_ok res then Suc m else m)"
    using Cons.prems(3) r1 by (auto simp: Let_def split: prod.splits)
  note f = allow_at_facts [OF Cons.prems(1) r1]
  obtain c where c: "rl_last_timestamp_ms r1 = Some c" using f(5) by blast
  have ac: "unat a \<le> unat c" and step: "unat (rl_credits_milli r1) + (if is_ok res then 1000 else 0) \<le>
      unat (rl_credits_milli r) + (unat c - unat a) * unat (rl_rate_per_second r)"
    using f(3,4) c Cons.prems(2) by (simp_all add: rl_last_def)
  obtain b where b: "rl_wf r'" "rl_rate_per_second r' = rl_rate_per_second r"
    "rl_last_timestamp_ms r' = Some b" "unat c \<le> unat b"
    "1000 * m + unat (rl_credits_milli r') \<le>
      unat (rl_credits_milli r1) + (unat b - unat c) * unat (rl_rate_per_second r)"
    using Cons.IH [OF f(1) c m(1)] f(2) by auto
  have "(unat c - unat a) * unat (rl_rate_per_second r) + (unat b - unat c) * unat (rl_rate_per_second r)
      = (unat b - unat a) * unat (rl_rate_per_second r)"
    using ac b(4) by (simp flip: add_mult_distrib)
  then show ?case
    using b step m(2) ac by (intro exI [of _ b]) (auto split: if_splits)
qed simp

lemma rate_limiter_new_facts:
  assumes "rate_limiter_new rate = Inr r"
  shows "rl_wf r" "rl_rate_per_second r = rate" "rl_last_timestamp_ms r = None"
    "unat (rl_credits_milli r) = unat rate * 1000"
  using assms
  by (auto simp: rate_limiter_new_def rl_wf_def rl_capacity_def unat_capacity word_gt_0 not_less
      split: if_splits)

text \<open>C30: The limiter never lets more through than one second of credit plus its rate. In any stretch of
  calls after the first, however many events are offered and whatever the clock does, the number
  admitted is at most the rate plus the rate times the clock's advance over that stretch.\<close>

theorem rate_limit_bound:
  assumes "rate_limiter_new rate = Inr r"
    and "allow_all (t # ts) r = (k, r1)" "allow_all ts' r1 = (n, r2)"
  shows "\<exists>a b. rl_last_timestamp_ms r1 = Some a \<and> rl_last_timestamp_ms r2 = Some b \<and> unat a \<le> unat b \<and>
    1000 * n \<le> 1000 * unat rate + (unat b - unat a) * unat rate"
proof -
  note new = rate_limiter_new_facts [OF assms(1)]
  obtain res r0 where r0: "allow_at t r = (res, r0)" by fastforce
  note f = allow_at_facts [OF new(1) r0]
  obtain c where c: "rl_last_timestamp_ms r0 = Some c" using f(5) by blast
  obtain m where m: "allow_all ts r0 = (m, r1)"
    using assms(2) r0 by (auto simp: Let_def split: prod.splits)
  obtain a where a: "rl_wf r1" "rl_rate_per_second r1 = rate" "rl_last_timestamp_ms r1 = Some a"
    using allow_all_bound [OF f(1) c m] f(2) new(2) by auto
  obtain b where "rl_last_timestamp_ms r2 = Some b" "unat a \<le> unat b"
    "1000 * n + unat (rl_credits_milli r2) \<le> unat (rl_credits_milli r1) + (unat b - unat a) * unat rate"
    using allow_all_bound [OF a(1,3) assms(3)] a(2) by auto
  moreover have "unat (rl_credits_milli r1) \<le> 1000 * unat rate"
    using a(1,2) by (simp add: rl_wf_def rl_capacity_def)
  ultimately show ?thesis using a(3) by auto
qed

text \<open>
  The limiter never starves a caller that keeps to the rate: the first event is admitted, and so
  is any later one once the clock has advanced by the time one event takes at the rate.\<close>

theorem rate_limit_admits_paced_events:
  assumes "rate_limiter_new rate = Inr r" "allow_all ts r = (k, r1)"
    and "case rl_last_timestamp_ms r1 of None \<Rightarrow> True
         | Some l \<Rightarrow> l \<le> t \<and> 1000 \<le> (unat t - unat l) * unat rate"
  shows "fst (allow_at t r1) = Inr ()"
proof -
  note new = rate_limiter_new_facts [OF assms(1)]
  have "0 < unat rate"
    using new(1,2) by (auto simp: rl_wf_def word_less_nat_alt)
  then have pos: "1000 \<le> unat rate * 1000"
    by linarith
  have paid: "fst (rate_spend t r') = Inr ()" if "1000 \<le> unat (rl_credits_milli r')" for r'
    using that by (simp add: rate_spend_def Let_def word_less_nat_alt)
  have r1: "rl_wf r1 \<and> rl_rate_per_second r1 = rate \<and> (rl_last_timestamp_ms r1 = None \<longrightarrow> r1 = r)"
  proof (cases ts)
    case Nil
    then show ?thesis using assms(2) new by simp
  next
    case (Cons t0 rest)
    obtain res r0 where r0: "allow_at t0 r = (res, r0)" by fastforce
    note f = allow_at_facts [OF new(1) r0]
    obtain c where c: "rl_last_timestamp_ms r0 = Some c" using f(5) by blast
    obtain m where m: "allow_all rest r0 = (m, r1)"
      using assms(2) r0 Cons by (auto simp: Let_def split: prod.splits)
    show ?thesis using allow_all_bound [OF f(1) c m] f(2) new(2) by auto
  qed
  show ?thesis
  proof (cases "rl_last_timestamp_ms r1")
    case None
    then show ?thesis using r1 new(4) pos paid by (simp add: allow_at_def)
  next
    case (Some l)
    have "1000 \<le> unat (rl_credits_milli (rate_refill t l r1))"
      using refill_credits [of r1 t l] r1 assms(3) Some pos by (simp add: rl_capacity_def)
    then show ?thesis
      using Some assms(3) paid by (simp add: allow_at_def not_less)
  qed
qed

subsection \<open>Concrete runs\<close>

definition sample_ping :: "u64 \<Rightarrow> frame" where
  "sample_ping n = frame_new 1 n (MsgPing 0)"

theorem gate_admits_no_replay_witness:
  "sorted_wrt frame_before (admitted_on ChHeartbeat
     (gate_run [GateActivate 1, GateHeartbeat (sample_ping 4), GateHeartbeat (sample_ping 4)]
        sequence_gate_default)) \<and>
   length (gate_run [GateActivate 1, GateHeartbeat (sample_ping 4), GateHeartbeat (sample_ping 4)]
        sequence_gate_default) = 1"
  using gate_admits_no_replay [of "[GateActivate 1, GateHeartbeat (sample_ping 4), GateHeartbeat (sample_ping 4)]"
      sequence_gate_default]
  by (simp add: seeds_heartbeat_def gate_defs sequence_gate_default_def sample_ping_def frame_new_def)

lemma sample_limiter: "\<exists>r. rate_limiter_new 2 = Inr r"
  by (simp add: rate_limiter_new_def)

theorem rate_limit_bound_witness:
  "\<exists>r k r1 n r2 a b. rate_limiter_new 2 = Inr r \<and> allow_all [5] r = (k, r1) \<and>
     allow_all [6, 7, 8] r1 = (n, r2) \<and> rl_last_timestamp_ms r1 = Some a \<and>
     rl_last_timestamp_ms r2 = Some b \<and> 1000 * n \<le> 2000 + (unat b - unat a) * 2"
proof -
  obtain r where r: "rate_limiter_new 2 = Inr r" using sample_limiter by blast
  obtain k r1 n r2 where "allow_all [5] r = (k, r1)" "allow_all [6, 7, 8] r1 = (n, r2)"
    by fastforce
  then show ?thesis
    using r rate_limit_bound [OF r, of 5 "[]" k r1 "[6, 7, 8]" n r2] by auto
qed

theorem rate_limit_admits_paced_events_witness:
  "\<exists>r. rate_limiter_new 2 = Inr r \<and> fst (allow_at 5 r) = Inr ()"
proof -
  obtain r where r: "rate_limiter_new 2 = Inr r" using sample_limiter by blast
  have "fst (allow_at 5 r) = Inr ()"
    by (rule rate_limit_admits_paced_events [OF r, of "[]" 0 r])
      (simp_all add: rate_limiter_new_facts(3) [OF r])
  then show ?thesis using r by blast
qed

end
