(* ===== verification/Clipboard.thy ===== *)
theory Clipboard
  imports Protocol_Types
begin

section \<open>The clipboard stream: \<open>monhop-protocol/src/clipboard.rs\<close>\<close>

text \<open>
  The fixed 32-byte header that precedes a clipboard item, the checks on text, and the reading of a
  PNG's dimensions from its first bytes. A byte_slice \<open>bytes[a..b]\<close> is \<open>byte_slice a b bytes\<close>.
\<close>

definition byte_slice :: "nat \<Rightarrow> nat \<Rightarrow> 'a list \<Rightarrow> 'a list" where
  "byte_slice a b xs = take (b - a) (drop a xs)"

abbreviation (input) CLIPBOARD_MAGIC :: "u8 list" where "CLIPBOARD_MAGIC \<equiv> [0x4C, 0x4B, 0x4D, 0x43]"
abbreviation (input) CLIPBOARD_FORMAT_VERSION :: u8 where "CLIPBOARD_FORMAT_VERSION \<equiv> 1"
abbreviation (input) CLIPBOARD_HEADER_LEN :: nat where "CLIPBOARD_HEADER_LEN \<equiv> 32"
abbreviation (input) MAX_CLIPBOARD_TEXT :: u32 where "MAX_CLIPBOARD_TEXT \<equiv> 1024 * 1024"
abbreviation (input) MAX_CLIPBOARD_PNG :: u32 where "MAX_CLIPBOARD_PNG \<equiv> 32 * 1024 * 1024"
abbreviation (input) MAX_CLIPBOARD_PIXELS :: u64 where "MAX_CLIPBOARD_PIXELS \<equiv> 64000000"
abbreviation (input) MAX_CLIPBOARD_SIDE :: u32 where "MAX_CLIPBOARD_SIDE \<equiv> 32768"
abbreviation (input) STATE_PAYLOAD_LEN :: u32 where "STATE_PAYLOAD_LEN \<equiv> 1"
abbreviation (input) MIN_PNG_PAYLOAD_LEN :: u32 where "MIN_PNG_PAYLOAD_LEN \<equiv> 33"
abbreviation (input) PNG_PREFIX_LEN :: nat where "PNG_PREFIX_LEN \<equiv> 33"
abbreviation (input) PNG_SIGNATURE :: "u8 list" where "PNG_SIGNATURE \<equiv> [0x89, 0x50, 0x4E, 0x47, 0x0D, 0x0A, 0x1A, 0x0A]"
abbreviation (input) PNG_IHDR_TYPE :: "u8 list" where "PNG_IHDR_TYPE \<equiv> [0x49, 0x48, 0x44, 0x52]"
abbreviation (input) PNG_IHDR_DATA_LEN :: u32 where "PNG_IHDR_DATA_LEN \<equiv> 13"

datatype clipboard_header_error =
    ClipBadMagic
  | ClipUnsupportedVersion
  | ClipUnsupportedFormatVersion
  | ClipInvalidKind
  | ClipNonZeroReservedField
  | ClipEpochMismatch
  | ClipZeroSequence
  | ClipInvalidPayloadLength

datatype clipboard_kind = ClipState | ClipText | ClipPng

fun clipboard_kind_to_wire :: "clipboard_kind \<Rightarrow> u8" where
  "clipboard_kind_to_wire ClipState = 1"
| "clipboard_kind_to_wire ClipText = 2"
| "clipboard_kind_to_wire ClipPng = 3"

definition clipboard_kind_from_wire :: "u8 \<Rightarrow> clipboard_header_error + clipboard_kind" where
  "clipboard_kind_from_wire v =
     (if v = 1 then Inr ClipState
      else if v = 2 then Inr ClipText
      else if v = 3 then Inr ClipPng
      else Inl ClipInvalidKind)"

fun payload_bounds :: "clipboard_kind \<Rightarrow> u32 \<times> u32" where
  "payload_bounds ClipState = (STATE_PAYLOAD_LEN, STATE_PAYLOAD_LEN)"
| "payload_bounds ClipText = (1, MAX_CLIPBOARD_TEXT)"
| "payload_bounds ClipPng = (MIN_PNG_PAYLOAD_LEN, MAX_CLIPBOARD_PNG)"

record clipboard_header =
  clip_kind :: clipboard_kind
  clip_epoch :: u64
  clip_sequence :: u64
  clip_payload_len :: u32

definition clipboard_encode_header :: "clipboard_header \<Rightarrow> u8 list" where
  "clipboard_encode_header h =
     CLIPBOARD_MAGIC @ to_be_bytes 2 PROTOCOL_VERSION @ CLIPBOARD_FORMAT_VERSION #
     clipboard_kind_to_wire (clip_kind h) # to_be_bytes 8 (clip_epoch h) @
     to_be_bytes 8 (clip_sequence h) @ to_be_bytes 4 (clip_payload_len h) @ zeros 4"

definition clipboard_decode_header ::
    "u8 list \<Rightarrow> u64 \<Rightarrow> clipboard_header_error + clipboard_header" where
  "clipboard_decode_header bytes expected_epoch =
     (if byte_slice 0 4 bytes \<noteq> CLIPBOARD_MAGIC then Inl ClipBadMagic
      else if from_be_bytes [bytes ! 4, bytes ! 5] \<noteq> PROTOCOL_VERSION then Inl ClipUnsupportedVersion
      else if bytes ! 6 \<noteq> CLIPBOARD_FORMAT_VERSION then Inl ClipUnsupportedFormatVersion
      else rbind (clipboard_kind_from_wire (bytes ! 7)) (\<lambda>kind.
        if byte_slice 28 32 bytes \<noteq> zeros 4 then Inl ClipNonZeroReservedField
        else let epoch = from_be_bytes (byte_slice 8 16 bytes) in
        if epoch \<noteq> expected_epoch then Inl ClipEpochMismatch
        else let sequence = from_be_bytes (byte_slice 16 24 bytes) in
        if sequence = 0 then Inl ClipZeroSequence
        else let payload_len = from_be_bytes (byte_slice 24 28 bytes); (lo, hi) = payload_bounds kind in
        if \<not> (lo \<le> payload_len \<and> payload_len \<le> hi) then Inl ClipInvalidPayloadLength
        else Inr \<lparr>clip_kind = kind, clip_epoch = epoch, clip_sequence = sequence,
                  clip_payload_len = payload_len\<rparr>))"

datatype clipboard_text_error = TextEmpty | TextTooLarge | TextInvalidUtf8 | TextContainsNul

definition validate_text :: "u8 list \<Rightarrow> clipboard_text_error + unit" where
  "validate_text bytes =
     (if bytes = [] then Inl TextEmpty
      else if unat MAX_CLIPBOARD_TEXT < length bytes then Inl TextTooLarge
      else if \<not> utf8_valid bytes then Inl TextInvalidUtf8
      else if 0 \<in> set bytes then Inl TextContainsNul
      else Inr ())"

datatype clipboard_png_error =
    PngTruncated
  | PngBadSignature
  | PngIhdrNotFirst
  | PngInvalidIhdrLength
  | PngInvalidDimensions
  | PngInvalidBitDepthColorType
  | PngInvalidInterlace

definition image_within_caps :: "u32 \<Rightarrow> u32 \<Rightarrow> bool" where
  "image_within_caps width height =
     (1 \<le> width \<and> width \<le> MAX_CLIPBOARD_SIDE \<and> 1 \<le> height \<and> height \<le> MAX_CLIPBOARD_SIDE \<and>
      (ucast width * ucast height :: u64) \<le> MAX_CLIPBOARD_PIXELS)"

definition valid_bit_depth_color_type :: "u8 \<Rightarrow> u8 \<Rightarrow> bool" where
  "valid_bit_depth_color_type color_type bit_depth =
     (if color_type = 0 then bit_depth \<in> {1, 2, 4, 8, 16}
      else if color_type \<in> {2, 4, 6} then bit_depth \<in> {8, 16}
      else if color_type = 3 then bit_depth \<in> {1, 2, 4, 8}
      else False)"

definition png_dimensions :: "u8 list \<Rightarrow> clipboard_png_error + (u32 \<times> u32)" where
  "png_dimensions bytes =
     (if length bytes < PNG_PREFIX_LEN then Inl PngTruncated
      else let prefix = byte_slice 0 PNG_PREFIX_LEN bytes in
      if byte_slice 0 8 prefix \<noteq> PNG_SIGNATURE then Inl PngBadSignature
      else if byte_slice 12 16 prefix \<noteq> PNG_IHDR_TYPE then Inl PngIhdrNotFirst
      else if from_be_bytes (byte_slice 8 12 prefix) \<noteq> PNG_IHDR_DATA_LEN then Inl PngInvalidIhdrLength
      else let width = from_be_bytes (byte_slice 16 20 prefix); height = from_be_bytes (byte_slice 20 24 prefix) in
      if \<not> image_within_caps width height then Inl PngInvalidDimensions
      else if \<not> valid_bit_depth_color_type (prefix ! 25) (prefix ! 24) then Inl PngInvalidBitDepthColorType
      else if 1 < prefix ! 28 then Inl PngInvalidInterlace
      else Inr (width, height))"

subsection \<open>The header round-trips\<close>

interpretation clipboard_kind: wire_result clipboard_kind_to_wire clipboard_kind_from_wire
proof unfold_locales
  show "clipboard_kind_from_wire (clipboard_kind_to_wire x) = Inr x" for x
    by (cases x) (simp_all add: clipboard_kind_from_wire_def)
  show "clipboard_kind_from_wire w = Inr x \<Longrightarrow> clipboard_kind_to_wire x = w" for w x
    by (auto simp: clipboard_kind_from_wire_def split: if_splits)
qed

definition clip_header_ok :: "clipboard_header \<Rightarrow> u64 \<Rightarrow> bool" where
  "clip_header_ok h epoch =
     (clip_epoch h = epoch \<and> clip_sequence h \<noteq> 0 \<and>
      fst (payload_bounds (clip_kind h)) \<le> clip_payload_len h \<and>
      clip_payload_len h \<le> snd (payload_bounds (clip_kind h)))"

lemma length_clipboard_header: "length (clipboard_encode_header h) = CLIPBOARD_HEADER_LEN"
  by (simp add: clipboard_encode_header_def)

text \<open>The places of the header's fields.\<close>

lemma to_be_bytes_2: "to_be_bytes 2 w = [ucast (drop_bit 8 w), ucast w]"
  by (simp add: numeral_2_eq_2)

lemma clipboard_header_fields:
  "byte_slice 0 4 (clipboard_encode_header h) = CLIPBOARD_MAGIC"
  "[clipboard_encode_header h ! 4, clipboard_encode_header h ! 5] = to_be_bytes 2 PROTOCOL_VERSION"
  "clipboard_encode_header h ! 6 = CLIPBOARD_FORMAT_VERSION"
  "clipboard_encode_header h ! 7 = clipboard_kind_to_wire (clip_kind h)"
  "byte_slice 8 16 (clipboard_encode_header h) = to_be_bytes 8 (clip_epoch h)"
  "byte_slice 16 24 (clipboard_encode_header h) = to_be_bytes 8 (clip_sequence h)"
  "byte_slice 24 28 (clipboard_encode_header h) = to_be_bytes 4 (clip_payload_len h)"
  "byte_slice 28 32 (clipboard_encode_header h) = zeros 4"
  by (simp_all add: byte_slice_def clipboard_encode_header_def to_be_bytes_2
      numeral_eq_Suc [of "Num.Bit0 Num.One"])

lemma slice_append: "a \<le> b \<Longrightarrow> b \<le> c \<Longrightarrow> byte_slice a b xs @ byte_slice b c xs = byte_slice a c xs"
proof -
  assume le: "a \<le> b" "b \<le> c"
  have "c - a = (b - a) + (c - b)" "drop (b - a) (drop a xs) = drop b xs"
    using le by simp_all
  then show ?thesis by (simp add: byte_slice_def take_add)
qed

lemma slice_Cons: "a < length xs \<Longrightarrow> xs ! a # byte_slice (Suc a) c xs = byte_slice a c xs" if "a < c"
  using that by (simp add: byte_slice_def Cons_nth_drop_Suc [symmetric] Suc_diff_Suc [symmetric])

lemma to_from_slice:
  "a + n \<le> length xs \<Longrightarrow> 8 * n \<le> LENGTH('a) \<Longrightarrow>
     to_be_bytes n (from_be_bytes (byte_slice a (a + n) xs) :: 'a::len word) = byte_slice a (a + n) xs"
  using to_from_be_bytes [of "byte_slice a (a + n) xs", where 'a = 'a] by (simp add: byte_slice_def)

lemma clipboard_header_bytes:
  assumes "length bs = 32" "byte_slice 0 4 bs = CLIPBOARD_MAGIC"
    and "from_be_bytes [bs ! 4, bs ! 5] = PROTOCOL_VERSION" "bs ! 6 = CLIPBOARD_FORMAT_VERSION"
    and "bs ! 7 = clipboard_kind_to_wire (clip_kind h)"
    and "from_be_bytes (byte_slice 8 16 bs) = clip_epoch h" "from_be_bytes (byte_slice 16 24 bs) = clip_sequence h"
    and "from_be_bytes (byte_slice 24 28 bs) = clip_payload_len h" "byte_slice 28 32 bs = zeros 4"
  shows "clipboard_encode_header h = bs"
proof -
  have "byte_slice 4 32 bs = bs ! 4 # bs ! 5 # bs ! 6 # bs ! 7 # byte_slice 8 32 bs"
    using assms(1) slice_Cons [of 4 32 bs] slice_Cons [of 5 32 bs] slice_Cons [of 6 32 bs]
      slice_Cons [of 7 32 bs] by simp
  moreover have "byte_slice 8 32 bs = byte_slice 8 16 bs @ byte_slice 16 24 bs @ byte_slice 24 28 bs @ byte_slice 28 32 bs"
    by (simp add: slice_append)
  moreover have "bs = byte_slice 0 4 bs @ byte_slice 4 32 bs"
    using assms(1) by (simp add: slice_append) (simp add: byte_slice_def)
  ultimately have parts: "byte_slice 0 4 bs @ [bs ! 4, bs ! 5] @ bs ! 6 # bs ! 7 # byte_slice 8 16 bs @
      byte_slice 16 24 bs @ byte_slice 24 28 bs @ byte_slice 28 32 bs = bs"
    by simp
  have "to_be_bytes 2 PROTOCOL_VERSION = [bs ! 4, bs ! 5]"
    using assms(3) to_from_be_bytes [of "[bs ! 4, bs ! 5]", where 'a = 16]
    by (simp add: numeral_2_eq_2)
  moreover have "to_be_bytes 8 (clip_epoch h) = byte_slice 8 16 bs"
    "to_be_bytes 8 (clip_sequence h) = byte_slice 16 24 bs"
    "to_be_bytes 4 (clip_payload_len h) = byte_slice 24 28 bs"
    using assms(1,6-8) to_from_slice [of 8 8 bs, where 'a = 64] to_from_slice [of 16 8 bs, where 'a = 64]
      to_from_slice [of 24 4 bs, where 'a = 32] by simp_all
  ultimately show ?thesis
    unfolding clipboard_encode_header_def
    by (simp only: assms(2,4,5,9) [symmetric]) (rule parts)
qed

text \<open>C31: The clipboard header reads back exactly what was written: a header for the session's epoch
  with a nonzero sequence and a length its kind allows decodes to itself, and any 32 bytes that
  decode are the encoding of such a header.\<close>

theorem clipboard_header_round_trip:
  "(clip_header_ok h epoch \<longrightarrow> clipboard_decode_header (clipboard_encode_header h) epoch = Inr h) \<and>
   (length bs = CLIPBOARD_HEADER_LEN \<and> clipboard_decode_header bs epoch = Inr h \<longrightarrow>
      clip_header_ok h epoch \<and> clipboard_encode_header h = bs)"
proof (intro conjI impI)
  have be: "from_be_bytes (to_be_bytes 8 e) = (e :: u64)" "from_be_bytes (to_be_bytes 4 l) = (l :: u32)"
    "from_be_bytes (to_be_bytes 2 v) = (v :: u16)" for e l v
    by (simp_all add: from_to_be_bytes take_bit_word_beyond_length_eq)
  show "clipboard_decode_header (clipboard_encode_header h) epoch = Inr h" if "clip_header_ok h epoch"
    using that
    by (auto simp: clipboard_decode_header_def clipboard_header_fields be clip_header_ok_def
        clipboard_kind.ok_from_to Let_def split: prod.splits)
  assume d: "length bs = CLIPBOARD_HEADER_LEN \<and> clipboard_decode_header bs epoch = Inr h"
  then show "clip_header_ok h epoch"
    by (auto simp: clipboard_decode_header_def clip_header_ok_def rbind_eq_Inr_iff Let_def
        split: if_splits prod.splits)
  show "clipboard_encode_header h = bs"
    using d
    by (intro clipboard_header_bytes)
      (auto simp: clipboard_decode_header_def rbind_eq_Inr_iff Let_def
        clipboard_kind.from_eq_Inr_iff split: if_splits prod.splits)
qed

text \<open>C32: A PNG prefix that is accepted names dimensions within the caps (each side at most 32768, at
  most 64 million pixels, with no overflow in the product), and the answer depends on the first
  33 bytes only.\<close>

theorem png_dimensions_bounded:
  "(png_dimensions bs = Inr (w, h) \<longrightarrow>
      1 \<le> unat w \<and> unat w \<le> 32768 \<and> 1 \<le> unat h \<and> unat h \<le> 32768 \<and>
      unat w * unat h \<le> 64000000) \<and>
   (33 \<le> length bs \<longrightarrow> png_dimensions (take 33 bs @ rest) = png_dimensions bs)"
proof (intro conjI impI)
  assume "png_dimensions bs = Inr (w, h)"
  then have caps: "image_within_caps w h"
    by (auto simp: png_dimensions_def Let_def split: if_splits)
  then have sides: "1 \<le> unat w" "unat w \<le> 32768" "1 \<le> unat h" "unat h \<le> 32768"
    by (auto simp: image_within_caps_def word_le_nat_alt)
  then have "unat w * unat h \<le> 32768 * 32768"
    by (intro mult_le_mono)
  then have "unat (ucast w * ucast h :: u64) = unat w * unat h"
    using sides by (simp add: unat_word_ariths unsigned_ucast_eq take_bit_nat_eq_self)
  moreover have "unat (ucast w * ucast h :: u64) \<le> 64000000"
    using caps by (simp add: image_within_caps_def word_le_nat_alt)
  ultimately show "1 \<le> unat w" "unat w \<le> 32768" "1 \<le> unat h" "unat h \<le> 32768"
    "unat w * unat h \<le> 64000000"
    using sides by simp_all
next
  assume "33 \<le> length bs"
  then show "png_dimensions (take 33 bs @ rest) = png_dimensions bs"
    by (simp add: png_dimensions_def byte_slice_def)
qed

definition sample_clip :: clipboard_header where
  "sample_clip = \<lparr>clip_kind = ClipText, clip_epoch = 3, clip_sequence = 1, clip_payload_len = 5\<rparr>"

theorem clipboard_header_round_trip_witness:
  "clip_header_ok sample_clip 3 \<and>
   clipboard_decode_header (clipboard_encode_header sample_clip) 3 = Inr sample_clip"
proof -
  have "clip_header_ok sample_clip 3"
    by (simp add: clip_header_ok_def sample_clip_def word_le_nat_alt)
  then show ?thesis
    using clipboard_header_round_trip [of sample_clip 3 "[]"] by blast
qed

definition sample_png :: "u8 list" where
  "sample_png =
     [0x89, 0x50, 0x4E, 0x47, 0x0D, 0x0A, 0x1A, 0x0A, 0, 0, 0, 13, 0x49, 0x48, 0x44, 0x52,
      0, 0, 0, 2, 0, 0, 0, 3, 8, 6, 0, 0, 0, 0, 0, 0, 0]"

theorem png_dimensions_bounded_witness:
  "png_dimensions sample_png = Inr (2, 3) \<and> unat (2 :: u32) * unat (3 :: u32) \<le> 64000000 \<and>
   png_dimensions (take 33 sample_png @ [7]) = Inr (2, 3)"
proof -
  have "png_dimensions sample_png = Inr (2, 3)"
    by (simp add: png_dimensions_def sample_png_def byte_slice_def
        from_be_bytes_def image_within_caps_def
        valid_bit_depth_color_type_def word_le_nat_alt)
  moreover have "33 \<le> length sample_png" by (simp add: sample_png_def)
  ultimately show ?thesis
    using png_dimensions_bounded [of sample_png 2 3 "[7]"] by simp
qed

end
