(* ===== verification/Chord.thy ===== *)
theory Chord
  imports Held_Input Gestures
begin

section \<open>Planned key chords: \<open>monhop-core/src/chord.rs\<close>\<close>

text \<open>
  The chords a receiver injects for system gestures. A plan is the list of its steps; the source
  keeps them in an array of ten, so a plan must never be longer.
\<close>

type_synonym chord_modifiers = u8

abbreviation (input) CHORD_NONE :: chord_modifiers where "CHORD_NONE \<equiv> 0"
abbreviation (input) CHORD_CONTROL :: chord_modifiers where "CHORD_CONTROL \<equiv> 1"
abbreviation (input) CHORD_SHIFT :: chord_modifiers where "CHORD_SHIFT \<equiv> push_bit 1 1"
abbreviation (input) CHORD_ALTERNATE :: chord_modifiers where "CHORD_ALTERNATE \<equiv> push_bit 2 1"
abbreviation (input) CHORD_SYSTEM :: chord_modifiers where "CHORD_SYSTEM \<equiv> push_bit 3 1"

definition chord_union :: "chord_modifiers \<Rightarrow> chord_modifiers \<Rightarrow> chord_modifiers" where
  "chord_union a b = a OR b"

definition chord_contains :: "chord_modifiers \<Rightarrow> chord_modifiers \<Rightarrow> bool" where
  "chord_contains a b = (a AND b = b)"

definition chord_without :: "chord_modifiers \<Rightarrow> chord_modifiers \<Rightarrow> chord_modifiers" where
  "chord_without a b = a AND NOT b"

definition MODIFIER_KINDS :: "chord_modifiers list" where
  "MODIFIER_KINDS = [CHORD_CONTROL, CHORD_SHIFT, CHORD_ALTERNATE, CHORD_SYSTEM]"

record chord =
  chord_modifiers :: chord_modifiers
  chord_key :: hid_usage

definition chord_new :: "chord_modifiers \<Rightarrow> hid_usage \<Rightarrow> chord" where
  "chord_new m k = \<lparr>chord_modifiers = m, chord_key = k\<rparr>"

record key_step =
  step_usage :: hid_usage
  step_pressed :: bool

abbreviation (input) MAX_CHORD_STEPS :: nat where "MAX_CHORD_STEPS \<equiv> 10"

type_synonym key_plan = "key_step list"

definition plan_push :: "hid_usage \<Rightarrow> bool \<Rightarrow> key_plan \<Rightarrow> key_plan" where
  "plan_push u pressed plan = plan @ [\<lparr>step_usage = u, step_pressed = pressed\<rparr>]"

text \<open>The kinds the held keys already give; \<open>None\<close> when the chord's own key is held.\<close>

fun chord_held_kinds :: "hid_usage \<Rightarrow> hid_usage list \<Rightarrow> chord_modifiers \<Rightarrow> chord_modifiers option" where
  "chord_held_kinds key [] kinds = Some kinds"
| "chord_held_kinds key (u # us) kinds =
     (if u = key then None
      else chord_held_kinds key us
        (if hid_is_modifier u
         then chord_union kinds (MODIFIER_KINDS ! (unat (u - HID_LEFT_CONTROL) mod 4))
         else kinds))"

definition chord_left :: "nat \<Rightarrow> hid_usage" where
  "chord_left index = HID_LEFT_CONTROL + of_nat index"

fun push_missing ::
    "chord_modifiers \<Rightarrow> bool \<Rightarrow> (nat \<times> chord_modifiers) list \<Rightarrow> key_plan \<Rightarrow> key_plan" where
  "push_missing missing pressed [] plan = plan"
| "push_missing missing pressed ((index, kind) # rest) plan =
     push_missing missing pressed rest
       (if chord_contains missing kind then plan_push (chord_left index) pressed plan else plan)"

definition chord_plan :: "hid_usage list \<Rightarrow> chord \<Rightarrow> key_plan" where
  "chord_plan held c =
     (case chord_held_kinds (chord_key c) held CHORD_NONE of
        None \<Rightarrow> []
      | Some held_kinds \<Rightarrow>
          let missing = chord_without (chord_modifiers c) held_kinds;
              pressed = push_missing missing True (enumerate 0 MODIFIER_KINDS) [];
              tapped = plan_push (chord_key c) False (plan_push (chord_key c) True pressed)
          in push_missing missing False (rev (enumerate 0 MODIFIER_KINDS)) tapped)"

abbreviation (input) KEY_D :: hid_usage where "KEY_D \<equiv> 0x07"
abbreviation (input) KEY_N :: hid_usage where "KEY_N \<equiv> 0x11"
abbreviation (input) KEY_S :: hid_usage where "KEY_S \<equiv> 0x16"
abbreviation (input) KEY_TAB :: hid_usage where "KEY_TAB \<equiv> HID_TAB"
abbreviation (input) KEY_SPACE :: hid_usage where "KEY_SPACE \<equiv> 0x2C"
abbreviation (input) KEY_MINUS :: hid_usage where "KEY_MINUS \<equiv> 0x2D"
abbreviation (input) KEY_EQUAL :: hid_usage where "KEY_EQUAL \<equiv> 0x2E"
abbreviation (input) KEY_LEFT_BRACKET :: hid_usage where "KEY_LEFT_BRACKET \<equiv> 0x2F"
abbreviation (input) KEY_RIGHT_BRACKET :: hid_usage where "KEY_RIGHT_BRACKET \<equiv> 0x30"
abbreviation (input) KEY_F11 :: hid_usage where "KEY_F11 \<equiv> 0x44"
abbreviation (input) KEY_RIGHT_ARROW :: hid_usage where "KEY_RIGHT_ARROW \<equiv> HID_RIGHT_ARROW"
abbreviation (input) KEY_LEFT_ARROW :: hid_usage where "KEY_LEFT_ARROW \<equiv> HID_LEFT_ARROW"
abbreviation (input) KEY_DOWN_ARROW :: hid_usage where "KEY_DOWN_ARROW \<equiv> 0x51"
abbreviation (input) KEY_UP_ARROW :: hid_usage where "KEY_UP_ARROW \<equiv> 0x52"
abbreviation (input) KEY_LEFT_SYSTEM :: hid_usage where "KEY_LEFT_SYSTEM \<equiv> 0xE3"

abbreviation (input) MAC_LOOK_UP :: chord where "MAC_LOOK_UP \<equiv> chord_new (chord_union CHORD_CONTROL CHORD_SYSTEM) KEY_D"
abbreviation (input) MAC_ZOOM_IN :: chord where "MAC_ZOOM_IN \<equiv> chord_new CHORD_SYSTEM KEY_EQUAL"
abbreviation (input) MAC_ZOOM_OUT :: chord where "MAC_ZOOM_OUT \<equiv> chord_new CHORD_SYSTEM KEY_MINUS"

fun windows_chord :: "system_gesture \<Rightarrow> chord option" where
  "windows_chord Overview = Some (chord_new CHORD_SYSTEM KEY_TAB)"
| "windows_chord AppWindows = Some (chord_new CHORD_SYSTEM KEY_TAB)"
| "windows_chord DesktopPrevious =
     Some (chord_new (chord_union CHORD_CONTROL CHORD_SYSTEM) KEY_LEFT_ARROW)"
| "windows_chord DesktopNext =
     Some (chord_new (chord_union CHORD_CONTROL CHORD_SYSTEM) KEY_RIGHT_ARROW)"
| "windows_chord ShowDesktop = Some (chord_new CHORD_SYSTEM KEY_D)"
| "windows_chord Launcher = Some (chord_new CHORD_NONE KEY_LEFT_SYSTEM)"
| "windows_chord NotificationCenter = Some (chord_new CHORD_SYSTEM KEY_N)"
| "windows_chord Search = Some (chord_new CHORD_SYSTEM KEY_S)"
| "windows_chord SwitchAppNext = Some (chord_new CHORD_ALTERNATE KEY_TAB)"
| "windows_chord SwitchAppPrevious =
     Some (chord_new (chord_union CHORD_ALTERNATE CHORD_SHIFT) KEY_TAB)"
| "windows_chord NavigateBack = None"
| "windows_chord NavigateForward = None"

fun mac_chord :: "system_gesture \<Rightarrow> chord option" where
  "mac_chord Overview = Some (chord_new CHORD_CONTROL KEY_UP_ARROW)"
| "mac_chord AppWindows = Some (chord_new CHORD_CONTROL KEY_DOWN_ARROW)"
| "mac_chord DesktopPrevious = Some (chord_new CHORD_CONTROL KEY_LEFT_ARROW)"
| "mac_chord DesktopNext = Some (chord_new CHORD_CONTROL KEY_RIGHT_ARROW)"
| "mac_chord ShowDesktop = Some (chord_new CHORD_NONE KEY_F11)"
| "mac_chord NavigateBack = Some (chord_new CHORD_SYSTEM KEY_LEFT_BRACKET)"
| "mac_chord NavigateForward = Some (chord_new CHORD_SYSTEM KEY_RIGHT_BRACKET)"
| "mac_chord Search = Some (chord_new CHORD_SYSTEM KEY_SPACE)"
| "mac_chord SwitchAppNext = Some (chord_new CHORD_SYSTEM KEY_TAB)"
| "mac_chord SwitchAppPrevious = Some (chord_new (chord_union CHORD_SYSTEM CHORD_SHIFT) KEY_TAB)"
| "mac_chord Launcher = None"
| "mac_chord NotificationCenter = None"

fun system_chord :: "platform \<Rightarrow> system_gesture \<Rightarrow> chord option" where
  "system_chord Windows g = windows_chord g"
| "system_chord MacOs g = mac_chord g"

subsection \<open>What a plan does to the keys that are down\<close>

text \<open>Running a plan: pressing a key that is down or releasing one that is not is a failure.\<close>

fun run_steps :: "hid_usage set \<Rightarrow> key_plan \<Rightarrow> hid_usage set option" where
  "run_steps D [] = Some D"
| "run_steps D (s # ss) =
     (if step_pressed s
      then (if step_usage s \<in> D then None else run_steps (insert (step_usage s) D) ss)
      else (if step_usage s \<in> D then run_steps (D - {step_usage s}) ss else None))"

definition press :: "hid_usage \<Rightarrow> key_step" where
  "press u = \<lparr>step_usage = u, step_pressed = True\<rparr>"

definition lift :: "hid_usage \<Rightarrow> key_step" where
  "lift u = \<lparr>step_usage = u, step_pressed = False\<rparr>"

lemma press_lift_sel [simp]:
  "step_usage (press u) = u" "step_pressed (press u)" "step_usage (lift u) = u" "\<not> step_pressed (lift u)"
  by (simp_all add: press_def lift_def)

lemma run_steps_append: "run_steps D (xs @ ys) = Option.bind (run_steps D xs) (\<lambda>E. run_steps E ys)"
  by (induction xs arbitrary: D) auto

lemma run_presses:
  "distinct us \<Longrightarrow> set us \<inter> D = {} \<Longrightarrow> run_steps D (map press us) = Some (D \<union> set us)"
  by (induction us arbitrary: D) (auto simp: insert_commute)

lemma run_lifts:
  "distinct us \<Longrightarrow> set us \<inter> D = {} \<Longrightarrow> run_steps (D \<union> set us) (map lift us) = Some D"
proof (induction us)
  case (Cons u us)
  then have "D \<union> set (u # us) - {u} = D \<union> set us" by auto
  then show ?case using Cons by simp
qed simp

lemma push_missing_eq:
  "push_missing missing b ks plan = plan @
     map (\<lambda>(i, k). \<lparr>step_usage = chord_left i, step_pressed = b\<rparr>)
       (filter (\<lambda>(i, k). chord_contains missing k) ks)"
  by (induction ks arbitrary: plan) (auto simp: plan_push_def)

lemma chord_contains_bit: "i < 8 \<Longrightarrow> chord_contains s (2 ^ i) \<longleftrightarrow> bit s i"
proof
  assume "i < 8" "chord_contains s (2 ^ i)"
  then have "bit (s AND 2 ^ i) i" by (simp add: chord_contains_def bit_simps)
  then show "bit s i" by (simp add: bit_simps)
next
  assume "bit s i"
  then show "chord_contains s (2 ^ i)"
    unfolding chord_contains_def by (intro bit_eqI) (auto simp: bit_simps bit_exp_iff)
qed

lemma filter_kinds:
  "\<forall>i\<in>set js. i < 8 \<Longrightarrow>
     filter (\<lambda>(i, k). chord_contains missing k) (map (\<lambda>i. (i, 2 ^ i)) js) =
     map (\<lambda>i. (i, 2 ^ i)) (filter (bit missing) js)"
  by (induction js) (auto simp: chord_contains_bit)

lemma modifier_kinds_enum:
  "enumerate 0 MODIFIER_KINDS = map (\<lambda>i. (i, 2 ^ i)) [0, 1, 2, 3]"
  by (simp add: MODIFIER_KINDS_def)

text \<open>The left keys of the missing kinds, in the order they are pressed.\<close>

definition missing_keys :: "chord_modifiers \<Rightarrow> hid_usage list" where
  "missing_keys missing = map chord_left (filter (bit missing) [0, 1, 2, 3])"

lemma push_missing_presses:
  "push_missing missing True (enumerate 0 MODIFIER_KINDS) [] = map press (missing_keys missing)"
  unfolding push_missing_eq modifier_kinds_enum missing_keys_def
  by (subst filter_kinds) (simp_all add: press_def o_def del: filter.simps)

lemma push_missing_lifts:
  "push_missing missing False (rev (enumerate 0 MODIFIER_KINDS)) plan =
     plan @ map lift (rev (missing_keys missing))"
  unfolding push_missing_eq modifier_kinds_enum missing_keys_def rev_map rev_filter
  by (subst filter_kinds) (simp_all add: lift_def o_def del: filter.simps)

lemma chord_plan_shape:
  assumes "chord_held_kinds (chord_key c) held CHORD_NONE = Some hk"
  shows "chord_plan held c = map press (missing_keys (chord_without (chord_modifiers c) hk)) @
    [press (chord_key c), lift (chord_key c)] @
    map lift (rev (missing_keys (chord_without (chord_modifiers c) hk)))"
  using assms
  by (simp add: chord_plan_def push_missing_presses push_missing_lifts plan_push_def press_def
      lift_def Let_def)

lemma modifier_kinds_nth: "i < 4 \<Longrightarrow> MODIFIER_KINDS ! i = 2 ^ i"
  by (auto simp: MODIFIER_KINDS_def less_Suc_eq numeral_eq_Suc)

text \<open>A kind is held when some held modifier has it, on either side.\<close>

definition kind_held :: "nat \<Rightarrow> hid_usage \<Rightarrow> bool" where
  "kind_held i u = (hid_is_modifier u \<and> unat (u - HID_LEFT_CONTROL) mod 4 = i)"

lemma chord_held_kinds_bits:
  "chord_held_kinds key us acc = Some hk \<Longrightarrow> i < 4 \<Longrightarrow>
     bit hk i \<longleftrightarrow> bit acc i \<or> (\<exists>u\<in>set us. kind_held i u)"
proof (induction us arbitrary: acc)
  case (Cons u us)
  then show ?case
    by (auto simp: kind_held_def chord_union_def bit_simps bit_exp_iff modifier_kinds_nth split: if_splits)
qed simp

lemma chord_held_kinds_None: "chord_held_kinds key us acc = None \<longleftrightarrow> key \<in> set us"
  by (induction us arbitrary: acc) auto

lemma chord_left_simps: "chord_left 0 = 0xE0" "chord_left 1 = 0xE1" "chord_left 2 = 0xE2" "chord_left 3 = 0xE3"
  by (simp_all add: chord_left_def)

lemma kind_held_left:
  assumes "i \<in> {0, 1, 2, 3}"
  shows "kind_held i (chord_left i)"
  using assms by (auto simp: kind_held_def chord_left_def hid_is_modifier_def)

text \<open>
  A chord is separate when its key is not the left key of a kind it asks for; every chord of the
  program is.
\<close>

definition chord_separate :: "chord \<Rightarrow> bool" where
  "chord_separate c = list_all (\<lambda>i. bit (chord_modifiers c) i \<longrightarrow> chord_key c \<noteq> chord_left i) [0, 1, 2, 3]"

lemmas chord_separate_simps =
  chord_separate_def chord_new_def chord_left_simps chord_union_def

lemma system_chord_separate: "system_chord p g = Some c \<Longrightarrow> chord_separate c"
  by (cases p; cases g) (auto simp: chord_separate_simps chord_left_simps [unfolded One_nat_def] bit_simps)

lemma mac_chords_separate: "c \<in> {MAC_LOOK_UP, MAC_ZOOM_IN, MAC_ZOOM_OUT} \<Longrightarrow> chord_separate c"
  by (auto simp: chord_separate_simps
      chord_left_simps [unfolded One_nat_def] bit_simps)

lemma in_missing_keys: "u \<in> set (missing_keys m) \<longleftrightarrow> (\<exists>i\<in>{0, 1, 2, 3}. bit m i \<and> u = chord_left i)"
  by (auto simp: missing_keys_def)

lemma missing_keys_facts:
  assumes "chord_held_kinds (chord_key c) held CHORD_NONE = Some hk" "chord_separate c"
  defines "ks \<equiv> missing_keys (chord_without (chord_modifiers c) hk)"
  shows "distinct ks" "length ks \<le> 4" "set ks \<inter> set held = {}" "chord_key c \<notin> set ks"
proof -
  have "distinct (map chord_left [0, 1, 2, 3])"
    by (simp add: chord_left_simps chord_left_simps [unfolded One_nat_def])
  then show "distinct ks" unfolding ks_def missing_keys_def by (rule distinct_map_filter)
  show "length ks \<le> 4" unfolding ks_def missing_keys_def
    using length_filter_le [of "bit (chord_without (chord_modifiers c) hk)" "[0, 1, 2, 3]"] by simp
  have bits: "bit (chord_modifiers c) i \<and> \<not> (\<exists>u\<in>set held. kind_held i u)"
    if "bit (chord_without (chord_modifiers c) hk) i" "i \<in> {0, 1, 2, 3}" for i
  proof -
    have "bit hk i \<longleftrightarrow> (\<exists>u\<in>set held. kind_held i u)"
      using chord_held_kinds_bits [OF assms(1), of i] that(2) by auto
    then show ?thesis using that(1) by (auto simp: chord_without_def bit_simps)
  qed
  show "set ks \<inter> set held = {}"
    using bits kind_held_left unfolding ks_def in_missing_keys disjoint_iff by blast
  show "chord_key c \<notin> set ks"
    using bits assms(2) unfolding ks_def in_missing_keys chord_separate_def by auto
qed

lemma chord_plan_empty: "chord_plan held c = [] \<longleftrightarrow> chord_key c \<in> set held"
  using chord_held_kinds_None [of "chord_key c" held CHORD_NONE]
  by (cases "chord_held_kinds (chord_key c) held CHORD_NONE") (auto simp: chord_plan_def Let_def push_missing_lifts plan_push_def)

lemma chord_plan_runs:
  assumes "chord_held_kinds (chord_key c) held CHORD_NONE = Some hk" "chord_separate c"
  defines "ks \<equiv> missing_keys (chord_without (chord_modifiers c) hk)"
  shows "run_steps (set held) (map press ks) = Some (set held \<union> set ks)"
    "run_steps (set held) (chord_plan held c) = Some (set held)"
proof -
  note facts = missing_keys_facts [OF assms(1,2), folded ks_def]
  show presses: "run_steps (set held) (map press ks) = Some (set held \<union> set ks)"
    using facts by (simp add: run_presses)
  have key: "chord_key c \<notin> set held \<union> set ks"
    using facts assms(1) chord_held_kinds_None [of "chord_key c" held CHORD_NONE] by auto
  show "run_steps (set held) (chord_plan held c) = Some (set held)"
    using key facts run_lifts [of "rev ks" "set held"]
    by (simp add: chord_plan_shape [OF assms(1), folded ks_def] run_steps_append presses)
qed

lemma chord_kinds_down:
  assumes "chord_held_kinds (chord_key c) held CHORD_NONE = Some hk" "i < 4" "bit (chord_modifiers c) i"
  shows "\<exists>u\<in>set held \<union> set (missing_keys (chord_without (chord_modifiers c) hk)). kind_held i u"
proof (cases "bit hk i")
  case True
  then show ?thesis using chord_held_kinds_bits [OF assms(1,2)] by auto
next
  case False
  have "i \<in> {0, 1, 2, 3}" using assms(2) by auto
  then have "chord_left i \<in> set (missing_keys (chord_without (chord_modifiers c) hk))"
    using False assms(3) unfolding in_missing_keys by (auto simp: chord_without_def bit_simps)
  then show ?thesis using kind_held_left [OF \<open>i \<in> {0, 1, 2, 3}\<close>] by blast
qed

text \<open>
  C34: A planned chord leaves the keyboard as it found it. For every list of held keys and every
  chord whose key is not itself one of its modifiers, the plan fits the ten steps of the array,
  never presses a key that is down nor releases one that is up, touches none of the held keys, and
  ends with exactly the held keys down; it is empty exactly when the chord's own key is held, and
  otherwise taps the key at a moment when every modifier kind of the chord is down.
\<close>

theorem chord_plan_neutral:
  assumes "chord_separate c"
  shows "length (chord_plan held c) \<le> MAX_CHORD_STEPS \<and>
    run_steps (set held) (chord_plan held c) = Some (set held) \<and>
    step_usage ` set (chord_plan held c) \<inter> set held = {} \<and>
    (chord_plan held c = [] \<longleftrightarrow> chord_key c \<in> set held) \<and>
    (chord_key c \<notin> set held \<longrightarrow> (\<exists>pre post down.
       chord_plan held c = pre @ [press (chord_key c), lift (chord_key c)] @ post \<and>
       run_steps (set held) pre = Some down \<and>
       (\<forall>i<4. bit (chord_modifiers c) i \<longrightarrow> (\<exists>u\<in>down. kind_held i u))))"
proof (cases "chord_held_kinds (chord_key c) held CHORD_NONE")
  case None
  then have "chord_key c \<in> set held" "chord_plan held c = []"
    by (simp_all add: chord_held_kinds_None chord_plan_empty)
  then show ?thesis by simp
next
  case (Some hk)
  let ?ks = "missing_keys (chord_without (chord_modifiers c) hk)"
  note facts = missing_keys_facts [OF Some assms] and runs = chord_plan_runs [OF Some assms]
  have key: "chord_key c \<notin> set held"
    using Some chord_held_kinds_None [of "chord_key c" held CHORD_NONE] by auto
  have "length (chord_plan held c) \<le> MAX_CHORD_STEPS"
    using facts(2) by (simp add: chord_plan_shape [OF Some])
  moreover have "step_usage ` set (chord_plan held c) \<inter> set held = {}"
    using facts(3) key by (auto simp: chord_plan_shape [OF Some])
  moreover have "\<exists>pre post down.
       chord_plan held c = pre @ [press (chord_key c), lift (chord_key c)] @ post \<and>
       run_steps (set held) pre = Some down \<and>
       (\<forall>i<4. bit (chord_modifiers c) i \<longrightarrow> (\<exists>u\<in>down. kind_held i u))"
    using chord_plan_shape [OF Some] runs(1) chord_kinds_down [OF Some] by blast
  ultimately show ?thesis using runs(2) key by (simp add: chord_plan_empty)
qed

theorem chord_plan_neutral_witness:
  "run_steps {0xE4} (chord_plan [0xE4] MAC_LOOK_UP) = Some {0xE4} \<and>
   map step_usage (chord_plan [0xE4] MAC_LOOK_UP) = [0xE3, 0x07, 0x07, 0xE3]"
proof -
  have "chord_separate MAC_LOOK_UP" by (rule mac_chords_separate) simp
  from chord_plan_neutral [OF this, of "[0xE4]"]
  have "run_steps {0xE4} (chord_plan [0xE4] MAC_LOOK_UP) = Some {0xE4}" by simp
  then show ?thesis
    by (simp add: chord_plan_def chord_new_def MODIFIER_KINDS_def
        chord_union_def chord_contains_def chord_without_def plan_push_def chord_left_def
        hid_is_modifier_def)
qed

end
