(* ===== verification/Control_As_Command.thy ===== *)
theory Control_As_Command
  imports Chord
begin

section \<open>Shortcuts across platforms: \<open>monhop-core/src/control_as_command.rs\<close>, \<open>dimming.rs\<close>\<close>

text \<open>
  The translator that trades Ctrl and Command between a keyboard and the other platform's
  computer. Its table of 256 held keys is a list of that length; the plan an operation fills is
  the list of steps it appends to. The dimming chord, which keeps its keys, comes from
  \<open>dimming.rs\<close>.
\<close>

abbreviation (input) DIM_LEVEL_MIN :: u8 where "DIM_LEVEL_MIN \<equiv> 10"
abbreviation (input) DIM_LEVEL_MAX :: u8 where "DIM_LEVEL_MAX \<equiv> 99"

definition dim_level_new :: "u8 \<Rightarrow> u8 option" where
  "dim_level_new percent =
     (if percent \<ge> DIM_LEVEL_MIN \<and> percent \<le> DIM_LEVEL_MAX then Some percent else None)"

abbreviation (input) DIM_LEVEL_DEFAULT :: u8 where "DIM_LEVEL_DEFAULT \<equiv> 50"

record dim_chord =
  dim_control :: bool
  dim_alt :: bool
  dim_shift :: bool
  dim_command :: bool
  dim_key :: hid_usage

abbreviation (input) DIM_TOGGLE :: dim_chord where "DIM_TOGGLE \<equiv> \<lparr>dim_control = True, dim_alt = True, dim_shift = False, dim_command = False,
     dim_key = 0x27\<rparr>"

datatype direction = WindowsOnMac | MacOnWindows

fun direction_between :: "platform option \<Rightarrow> platform option \<Rightarrow> direction option" where
  "direction_between (Some Windows) (Some MacOs) = Some WindowsOnMac"
| "direction_between (Some MacOs) (Some Windows) = Some MacOnWindows"
| "direction_between _ _ = None"

definition presses_first :: "direction \<Rightarrow> bool" where
  "presses_first d = (d = MacOnWindows)"

record held =
  held_target :: hid_usage
  held_follows :: bool
  held_switching :: bool

definition held_fixed :: "hid_usage \<Rightarrow> held" where
  "held_fixed t = \<lparr>held_target = t, held_follows = False, held_switching = False\<rparr>"

record kinds =
  kinds_control :: bool
  kinds_shift :: bool
  kinds_alt :: bool
  kinds_system :: bool

definition kinds_default :: kinds where
  "kinds_default =
     \<lparr>kinds_control = False, kinds_shift = False, kinds_alt = False, kinds_system = False\<rparr>"

record translator =
  tr_held :: "held option list"

definition translator_default :: translator where
  "translator_default = \<lparr>tr_held = replicate 256 None\<rparr>"

definition translator_index :: "translator \<Rightarrow> hid_usage \<Rightarrow> nat option" where
  "translator_index tr u = (let index = unat u in if index < length (tr_held tr) then Some index else None)"

definition translator_holds :: "translator \<Rightarrow> hid_usage \<Rightarrow> bool" where
  "translator_holds tr t =
     list_ex (\<lambda>e. case e of None \<Rightarrow> False | Some h \<Rightarrow> held_target h = t) (tr_held tr)"

definition MODIFIER_USAGES :: "hid_usage list" where
  "MODIFIER_USAGES = [0xE0, 0xE1, 0xE2, 0xE3, 0xE4, 0xE5, 0xE6, 0xE7]"

fun kinds_add :: "translator \<Rightarrow> hid_usage \<Rightarrow> kinds \<Rightarrow> kinds" where
  "kinds_add tr u k =
     (if tr_held tr ! unat u \<noteq> None
      then (case semantic_modifier u of
              None \<Rightarrow> k
            | Some m \<Rightarrow>
                (case sm_kind m of
                   MControl \<Rightarrow> k\<lparr>kinds_control := True\<rparr>
                 | MShift \<Rightarrow> k\<lparr>kinds_shift := True\<rparr>
                 | MAlternate \<Rightarrow> k\<lparr>kinds_alt := True\<rparr>
                 | MSystem \<Rightarrow> k\<lparr>kinds_system := True\<rparr>))
      else k)"

definition translator_kinds :: "translator \<Rightarrow> kinds" where
  "translator_kinds tr = fold (kinds_add tr) MODIFIER_USAGES kinds_default"

definition translator_first :: "direction \<Rightarrow> semantic_modifier \<Rightarrow> held" where
  "translator_first d m =
     (let kind = (case sm_kind m of MControl \<Rightarrow> MSystem | MSystem \<Rightarrow> MControl | other \<Rightarrow> other);
          follows = (case d of
              WindowsOnMac \<Rightarrow> sm_kind m = MControl \<or> sm_kind m = MAlternate
            | MacOnWindows \<Rightarrow> sm_kind m \<noteq> MShift)
      in \<lparr>held_target = semantic_modifier_usage (m\<lparr>sm_kind := kind\<rparr>),
          held_follows = follows, held_switching = False\<rparr>)"

definition dims :: "hid_usage \<Rightarrow> kinds \<Rightarrow> bool" where
  "dims key k =
     (key = dim_key DIM_TOGGLE \<and>
      kinds_control k = dim_control DIM_TOGGLE \<and>
      kinds_alt k = dim_alt DIM_TOGGLE \<and>
      kinds_shift k = dim_shift DIM_TOGGLE \<and>
      kinds_system k = dim_command DIM_TOGGLE)"

definition wanted_kind ::
    "direction \<Rightarrow> semantic_modifier_kind \<Rightarrow> bool \<Rightarrow> hid_usage option \<Rightarrow> kinds \<Rightarrow> semantic_modifier_kind \<times> bool" where
  "wanted_kind d kind was_switching key k =
     (let tab = (key = Some HID_TAB);
          switches = (was_switching \<or> tab);
          control_stays = (tab \<or> (case key of None \<Rightarrow> False | Some u \<Rightarrow> dims u k));
          word = (key \<in> {Some HID_LEFT_ARROW, Some HID_RIGHT_ARROW, Some HID_BACKSPACE,
                         Some HID_DELETE_FORWARD})
      in case (d, kind) of
           (WindowsOnMac, MControl) \<Rightarrow>
             if control_stays then (MControl, False)
             else if word \<and> \<not> kinds_alt k \<and> \<not> kinds_system k then (MAlternate, False)
             else (MSystem, False)
         | (WindowsOnMac, MAlternate) \<Rightarrow> if switches then (MSystem, True) else (MAlternate, False)
         | (MacOnWindows, MSystem) \<Rightarrow> if switches then (MAlternate, True) else (MControl, False)
         | (MacOnWindows, MControl) \<Rightarrow> if control_stays then (MControl, False) else (MSystem, False)
         | (MacOnWindows, MAlternate) \<Rightarrow>
             if switches then (MAlternate, True)
             else if word \<and> \<not> kinds_control k \<and> \<not> kinds_system k then (MControl, False)
             else (MAlternate, False)
         | (_, other) \<Rightarrow> (other, False))"

definition wanted ::
    "direction \<Rightarrow> semantic_modifier \<Rightarrow> held \<Rightarrow> hid_usage option \<Rightarrow> kinds \<Rightarrow> held" where
  "wanted d m h key k =
     (let (kind, switching) = wanted_kind d (sm_kind m) (held_switching h) key k
      in h\<lparr>held_target := semantic_modifier_usage (m\<lparr>sm_kind := kind\<rparr>), held_switching := switching\<rparr>)"

definition push_if :: "bool \<Rightarrow> hid_usage \<Rightarrow> bool \<Rightarrow> key_plan \<Rightarrow> key_plan" where
  "push_if needed u pressed plan = (if needed then plan_push u pressed plan else plan)"

text \<open>One turn of the loop of \<open>follow\<close>, and the loop over the modifier usages.\<close>

definition follow_one ::
    "direction \<Rightarrow> hid_usage option \<Rightarrow> kinds \<Rightarrow> hid_usage \<Rightarrow> translator \<times> key_plan \<Rightarrow> translator \<times> key_plan" where
  "follow_one d key k u = (\<lambda>(tr, plan).
     case tr_held tr ! unat u of
       None \<Rightarrow> (tr, plan)
     | Some h \<Rightarrow>
         if \<not> held_follows h then (tr, plan)
         else (case semantic_modifier u of
             None \<Rightarrow> (tr, plan)
           | Some m \<Rightarrow>
               let next = wanted d m h key k;
                   moves = (held_target next \<noteq> held_target h);
                   press_needed = (moves \<and> \<not> translator_holds tr (held_target next));
                   tr' = tr\<lparr>tr_held := (tr_held tr)[unat u := Some next]\<rparr>;
                   release_needed = (moves \<and> \<not> translator_holds tr' (held_target h))
               in (tr', if presses_first d
                        then push_if release_needed (held_target h) False
                               (push_if press_needed (held_target next) True plan)
                        else push_if press_needed (held_target next) True
                               (push_if release_needed (held_target h) False plan))))"

definition translator_follow ::
    "direction \<Rightarrow> hid_usage option \<Rightarrow> translator \<times> key_plan \<Rightarrow> translator \<times> key_plan" where
  "translator_follow d key s = fold (follow_one d key (translator_kinds (fst s))) MODIFIER_USAGES s"

definition translator_key ::
    "hid_usage \<Rightarrow> bool \<Rightarrow> direction option \<Rightarrow> translator \<Rightarrow> key_plan \<times> translator" where
  "translator_key u pressed translate tr =
     (case translator_index tr u of
        None \<Rightarrow> (plan_push u pressed [], tr)
      | Some index \<Rightarrow>
          if \<not> pressed then
            let target = (case tr_held tr ! index of None \<Rightarrow> u | Some h \<Rightarrow> held_target h);
                tr' = tr\<lparr>tr_held := (tr_held tr)[index := None]\<rparr>
            in (push_if (\<not> translator_holds tr' target) target False [], tr')
          else
            let modifier = semantic_modifier u;
                (tr1, plan) = (case (translate, modifier) of
                    (Some d, None) \<Rightarrow> translator_follow d (Some u) (tr, [])
                  | _ \<Rightarrow> (tr, []))
            in case tr_held tr1 ! index of
                 Some h \<Rightarrow> (plan_push (held_target h) True plan, tr1)
               | None \<Rightarrow>
                   let h = (case (modifier, translate) of
                       (Some m, Some d) \<Rightarrow> translator_first d m
                     | _ \<Rightarrow> held_fixed u);
                       shared = translator_holds tr1 (held_target h)
                   in (push_if (\<not> shared) (held_target h) True plan,
                       tr1\<lparr>tr_held := (tr_held tr1)[index := Some h]\<rparr>))"

definition translator_click :: "direction option \<Rightarrow> translator \<Rightarrow> key_plan \<times> translator" where
  "translator_click translate tr =
     (case translate of
        None \<Rightarrow> ([], tr)
      | Some d \<Rightarrow> (let (tr', plan) = translator_follow d None (tr, []) in (plan, tr')))"

definition translator_clear :: "translator \<Rightarrow> translator" where
  "translator_clear tr = tr\<lparr>tr_held := replicate 256 None\<rparr>"

subsection \<open>What the destination holds\<close>

text \<open>
  The keys the destination should have down are the targets of the held entries. A plan changes
  what is down by pressing and releasing; pressing a key that is down is a key repeat.
\<close>

definition targets :: "translator \<Rightarrow> hid_usage set" where
  "targets tr = {t. translator_holds tr t}"

definition apply_steps :: "key_plan \<Rightarrow> hid_usage set \<Rightarrow> hid_usage set" where
  "apply_steps plan D = fold (\<lambda>s D. if step_pressed s then insert (step_usage s) D else D - {step_usage s}) plan D"

lemma translator_holds_iff:
  "translator_holds tr t \<longleftrightarrow> (\<exists>i<length (tr_held tr). \<exists>h. tr_held tr ! i = Some h \<and> held_target h = t)"
proof -
  have "translator_holds tr t \<longleftrightarrow> (\<exists>h. Some h \<in> set (tr_held tr) \<and> held_target h = t)"
    by (auto simp: translator_holds_def list_ex_iff split: option.splits)
  then show ?thesis by (metis in_set_conv_nth)
qed

lemma targets_update:
  assumes "i < length (tr_held tr)"
  shows "targets (tr\<lparr>tr_held := (tr_held tr)[i := Some h]\<rparr>) =
    insert (held_target h) (targets (tr\<lparr>tr_held := (tr_held tr)[i := None]\<rparr>))"
  using assms by (auto simp: targets_def translator_holds_iff nth_list_update)

lemma targets_entry:
  assumes "i < length (tr_held tr)" "tr_held tr ! i = Some h"
  shows "targets tr = insert (held_target h) (targets (tr\<lparr>tr_held := (tr_held tr)[i := None]\<rparr>))"
  using targets_update [OF assms(1), of h] list_update_id [of "tr_held tr" i] assms(2) by simp

lemma targets_empty_entry:
  assumes "i < length (tr_held tr)" "tr_held tr ! i = None"
  shows "targets (tr\<lparr>tr_held := (tr_held tr)[i := None]\<rparr>) = targets tr"
  using list_update_id [of "tr_held tr" i] assms(2) by simp

lemma apply_steps_simps [simp]:
  "apply_steps [] D = D"
  "apply_steps (p @ q) D = apply_steps q (apply_steps p D)"
  "apply_steps (plan_push u b p) D =
     (if b then insert u (apply_steps p D) else apply_steps p D - {u})"
  by (simp_all add: apply_steps_def plan_push_def)

lemma apply_push_if:
  "apply_steps (push_if c u b p) D =
     (if \<not> c then apply_steps p D else if b then insert u (apply_steps p D) else apply_steps p D - {u})"
  by (simp add: push_if_def)

text \<open>
  The shape every operation keeps: 256 entries, every target a key of the table. Keys outside the
  table pass through untranslated.
\<close>

definition tr_wf :: "translator \<Rightarrow> bool" where
  "tr_wf tr = (length (tr_held tr) = 256 \<and>
     list_all (\<lambda>e. case e of None \<Rightarrow> True | Some h \<Rightarrow> unat (held_target h) < 256) (tr_held tr))"

definition occupied :: "translator \<Rightarrow> hid_usage set" where
  "occupied tr = {u. unat u < 256 \<and> tr_held tr ! unat u \<noteq> None}"

definition wide :: "hid_usage set" where "wide = {u. 256 \<le> unat u}"

lemma tr_wf_length: "tr_wf tr \<Longrightarrow> length (tr_held tr) = 256"
  by (simp add: tr_wf_def)

lemma tr_wf_entry: "tr_wf tr \<Longrightarrow> i < 256 \<Longrightarrow> tr_held tr ! i = Some h \<Longrightarrow> unat (held_target h) < 256"
  by (auto simp: tr_wf_def list_all_length split: option.splits)

lemma tr_wf_update:
  assumes "tr_wf tr" "case e of None \<Rightarrow> True | Some h \<Rightarrow> unat (held_target h) < 256"
  shows "tr_wf (tr\<lparr>tr_held := (tr_held tr)[i := e]\<rparr>)"
  using assms set_update_subset_insert [of "tr_held tr" i e] by (auto simp: tr_wf_def list_all_iff)

lemma modifier_usage_small: "unat (semantic_modifier_usage m) < 256"
  by (cases "sm_side m"; cases "sm_kind m") (simp_all add: semantic_modifier_usage_def)

lemma wanted_small: "unat (held_target (wanted d m h key k)) < 256"
  by (simp add: wanted_def modifier_usage_small split: prod.splits)

lemma modifier_usages_small: "u \<in> set MODIFIER_USAGES \<Longrightarrow> unat u < 256"
  by (auto simp: MODIFIER_USAGES_def)

text \<open>
  Retargeting one entry from an old to a new target, in either order of the two steps: the old
  key goes unless another entry holds it and the new one comes unless another already does.
\<close>

lemma retarget_delivers:
  assumes "D = insert old R \<union> X" "old \<notin> X" "new \<noteq> old"
    and "press_needed \<longleftrightarrow> new \<notin> insert old R" "release_needed \<longleftrightarrow> old \<notin> insert new R"
    and "apply_steps plan D0 = D"
  shows "apply_steps (push_if release_needed old False (push_if press_needed new True plan)) D0 = insert new R \<union> X"
    "apply_steps (push_if press_needed new True (push_if release_needed old False plan)) D0 = insert new R \<union> X"
  using assms by (auto simp: apply_push_if)

lemma follow_one_cases:
  obtains (same) "follow_one d key k u (tr, plan) = (tr, plan)"
      "\<forall>h. tr_held tr ! unat u = Some h \<longrightarrow> held_follows h \<longrightarrow> semantic_modifier u = None"
  | (moved) h m where "tr_held tr ! unat u = Some h" "held_follows h" "semantic_modifier u = Some m"
      "fst (follow_one d key k u (tr, plan)) =
         tr\<lparr>tr_held := (tr_held tr)[unat u := Some (wanted d m h key k)]\<rparr>"
  by (cases "tr_held tr ! unat u"; cases "semantic_modifier u")
    (auto simp: follow_one_def Let_def split: if_splits)

lemma follow_one_keeps:
  assumes "tr_wf tr" "unat u < 256"
  shows "tr_wf (fst (follow_one d key k u (tr, plan)))"
    "occupied (fst (follow_one d key k u (tr, plan))) = occupied tr"
    "i \<noteq> unat u \<Longrightarrow> tr_held (fst (follow_one d key k u (tr, plan))) ! i = tr_held tr ! i"
proof -
  have "tr_wf (fst (follow_one d key k u (tr, plan))) \<and>
    occupied (fst (follow_one d key k u (tr, plan))) = occupied tr \<and>
    (i \<noteq> unat u \<longrightarrow> tr_held (fst (follow_one d key k u (tr, plan))) ! i = tr_held tr ! i)"
  proof (cases rule: follow_one_cases [of d key k u tr plan])
    case (moved h m)
    then show ?thesis
      using assms tr_wf_update [OF assms(1), of "Some (wanted d m h key k)" "unat u"]
      by (auto simp: wanted_small occupied_def nth_list_update tr_wf_length)
  qed (simp add: assms)
  then show "tr_wf (fst (follow_one d key k u (tr, plan)))"
    "occupied (fst (follow_one d key k u (tr, plan))) = occupied tr"
    "i \<noteq> unat u \<Longrightarrow> tr_held (fst (follow_one d key k u (tr, plan))) ! i = tr_held tr ! i"
    by blast+
qed

lemma follow_one_delivers:
  assumes "tr_wf tr" "unat u < 256" "X \<subseteq> wide" "apply_steps plan D = targets tr \<union> X"
  shows "apply_steps (snd (follow_one d key k u (tr, plan))) D =
    targets (fst (follow_one d key k u (tr, plan))) \<union> X"
proof (cases rule: follow_one_cases [of d key k u tr plan])
  case same
  then show ?thesis using assms(4) by simp
next
  case (moved h m)
  let ?n = "wanted d m h key k" and ?R = "targets (tr\<lparr>tr_held := (tr_held tr)[unat u := None]\<rparr>)"
  let ?tr' = "tr\<lparr>tr_held := (tr_held tr)[unat u := Some ?n]\<rparr>"
  have len: "unat u < length (tr_held tr)" using assms by (simp add: tr_wf_length)
  have old: "targets tr = insert (held_target h) ?R" by (rule targets_entry [OF len moved(1)])
  have new: "targets ?tr' = insert (held_target ?n) ?R" by (rule targets_update [OF len])
  have notX: "held_target h \<notin> X"
    using tr_wf_entry [OF assms(1,2) moved(1)] assms(3) by (auto simp: wide_def)
  have holds: "translator_holds tr t \<longleftrightarrow> t \<in> insert (held_target h) ?R"
    "translator_holds ?tr' t \<longleftrightarrow> t \<in> insert (held_target ?n) ?R" for t
    using old new by (auto simp: targets_def)
  show ?thesis
  proof (cases "held_target ?n = held_target h")
    case True
    then show ?thesis
      using moved(1-3) assms(4) old new by (simp add: follow_one_def Let_def push_if_def)
  next
    case False
    note r = retarget_delivers [OF refl notX False _ _ assms(4) [unfolded old]]
    show ?thesis
      using moved(1-3) False new
      by (simp add: follow_one_def Let_def holds r del: insert_iff)
  qed
qed

lemma follow_fold:
  assumes "tr_wf tr" "\<forall>u\<in>set us. unat u < 256" "X \<subseteq> wide" "apply_steps plan D = targets tr \<union> X"
  shows "tr_wf (fst (fold (follow_one d key k) us (tr, plan))) \<and>
    occupied (fst (fold (follow_one d key k) us (tr, plan))) = occupied tr \<and>
    apply_steps (snd (fold (follow_one d key k) us (tr, plan))) D =
      targets (fst (fold (follow_one d key k) us (tr, plan))) \<union> X"
  using assms
proof (induction us arbitrary: tr plan)
  case (Cons u us)
  have u: "unat u < 256" and us: "\<forall>u\<in>set us. unat u < 256" using Cons.prems(2) by auto
  obtain tr' plan' where s: "follow_one d key k u (tr, plan) = (tr', plan')" by (cases "follow_one d key k u (tr, plan)")
  show ?case
    using Cons.IH [of tr' plan'] follow_one_keeps(1,2) [OF Cons.prems(1) u, of d key k plan] us
      follow_one_delivers [OF Cons.prems(1) u Cons.prems(3,4), of d key k] Cons.prems(3) s by simp
qed simp

lemma follow_delivers:
  assumes "tr_wf tr" "translator_follow d key (tr, []) = (tr', plan)"
  shows "tr_wf tr'" "occupied tr' = occupied tr"
    "X \<subseteq> wide \<Longrightarrow> apply_steps plan (targets tr \<union> X) = targets tr' \<union> X"
proof -
  have f: "tr_wf tr' \<and> occupied tr' = occupied tr \<and> apply_steps plan (targets tr \<union> X) = targets tr' \<union> X"
    if "X \<subseteq> wide" for X
    using follow_fold [of tr MODIFIER_USAGES X "[]" "targets tr \<union> X" d key "translator_kinds tr"] assms that
      modifier_usages_small by (simp add: translator_follow_def)
  show "tr_wf tr'" "occupied tr' = occupied tr" using f [of "{}"] by simp_all
  show "apply_steps plan (targets tr \<union> X) = targets tr' \<union> X" if "X \<subseteq> wide" using f [OF that] by simp
qed

lemma clear_entry:
  assumes "tr_wf tr" "unat u < 256"
  shows "tr_wf (tr\<lparr>tr_held := (tr_held tr)[unat u := None]\<rparr>)"
    "occupied (tr\<lparr>tr_held := (tr_held tr)[unat u := None]\<rparr>) = occupied tr - {u}"
  using tr_wf_update [OF assms(1), of None] assms
  by (auto simp: occupied_def nth_list_update tr_wf_length word_unat_eq_iff split: if_splits)

lemma set_entry:
  assumes "tr_wf tr" "unat u < 256" "unat (held_target h) < 256"
  shows "tr_wf (tr\<lparr>tr_held := (tr_held tr)[unat u := Some h]\<rparr>)"
    "occupied (tr\<lparr>tr_held := (tr_held tr)[unat u := Some h]\<rparr>) = insert u (occupied tr)"
  using tr_wf_update [OF assms(1), of "Some h"] assms
  by (auto simp: occupied_def nth_list_update tr_wf_length word_unat_eq_iff split: if_splits)

text \<open>What one operation must do: \<open>X\<close> are the keys outside the table that are down.\<close>

definition delivers :: "translator \<Rightarrow> key_plan \<times> translator \<Rightarrow> hid_usage set \<Rightarrow> bool" where
  "delivers tr r P' = (tr_wf (snd r) \<and> occupied (snd r) = P' \<and>
     (\<forall>X\<subseteq>wide. apply_steps (fst r) (targets tr \<union> X) = targets (snd r) \<union> X))"

lemma release_delivers:
  assumes "tr_wf tr" "unat u < 256"
  shows "delivers tr (translator_key u False t tr) (occupied tr - {u})"
proof -
  let ?tr' = "tr\<lparr>tr_held := (tr_held tr)[unat u := None]\<rparr>"
  have len: "unat u < length (tr_held tr)" using assms by (simp add: tr_wf_length)
  have holds: "translator_holds ?tr' x \<longleftrightarrow> x \<in> targets ?tr'" for x by (simp add: targets_def)
  have out: "x \<notin> X" if "unat x < 256" "X \<subseteq> wide" for x X using that by (auto simp: wide_def)
  show ?thesis
  proof (cases "tr_held tr ! unat u")
    case None
    then show ?thesis
      using len clear_entry [OF assms] out [OF assms(2)] targets_empty_entry [OF len None]
      by (auto simp: delivers_def translator_key_def translator_index_def Let_def apply_push_if holds)
  next
    case (Some h)
    then show ?thesis
      using len clear_entry [OF assms] out [OF tr_wf_entry [OF assms Some]] targets_entry [OF len Some]
      by (auto simp: delivers_def translator_key_def translator_index_def Let_def apply_push_if holds)
  qed
qed

lemma press_finishes:
  assumes "tr_wf tr1" "unat u < 256" "X \<subseteq> wide" "apply_steps plan D = targets tr1 \<union> X"
  shows "tr_held tr1 ! unat u = Some h \<Longrightarrow> apply_steps (plan_push (held_target h) True plan) D = targets tr1 \<union> X"
    "tr_held tr1 ! unat u = None \<Longrightarrow>
       apply_steps (push_if (\<not> translator_holds tr1 (held_target h)) (held_target h) True plan) D =
       targets (tr1\<lparr>tr_held := (tr_held tr1)[unat u := Some h]\<rparr>) \<union> X"
proof -
  have len: "unat u < length (tr_held tr1)" using assms by (simp add: tr_wf_length)
  show "apply_steps (plan_push (held_target h) True plan) D = targets tr1 \<union> X"
    if "tr_held tr1 ! unat u = Some h"
    using targets_entry [OF len that] assms(4) by auto
  show "apply_steps (push_if (\<not> translator_holds tr1 (held_target h)) (held_target h) True plan) D =
       targets (tr1\<lparr>tr_held := (tr_held tr1)[unat u := Some h]\<rparr>) \<union> X"
    if "tr_held tr1 ! unat u = None"
    using targets_update [OF len, of h] targets_empty_entry [OF len that] assms(4)
    by (auto simp: apply_push_if targets_def)
qed

lemma occupied_iff: "unat u < 256 \<Longrightarrow> u \<in> occupied tr \<longleftrightarrow> tr_held tr ! unat u \<noteq> None"
  by (simp add: occupied_def)

lemma first_small: "unat (held_target (translator_first d m)) < 256"
  by (simp add: translator_first_def modifier_usage_small Let_def)

lemma press_delivers:
  assumes "tr_wf tr" "unat u < 256"
  shows "delivers tr (translator_key u True t tr) (insert u (occupied tr))"
proof -
  have idx: "translator_index tr u = Some (unat u)"
    using assms by (simp add: translator_index_def tr_wf_length)
  define s where "s = (case (t, semantic_modifier u) of
      (Some d, None) \<Rightarrow> translator_follow d (Some u) (tr, []) | _ \<Rightarrow> (tr, []))"
  obtain tr1 plan where tp: "s = (tr1, plan)" by (cases s)
  have one: "tr_wf tr1" "occupied tr1 = occupied tr"
    "\<And>X. X \<subseteq> wide \<Longrightarrow> apply_steps plan (targets tr \<union> X) = targets tr1 \<union> X"
    using tp assms(1) follow_delivers [OF assms(1)]
    by (auto simp: s_def split: option.splits)
  define h where "h = (case (semantic_modifier u, t) of
      (Some m, Some d) \<Rightarrow> translator_first d m | _ \<Rightarrow> held_fixed u)"
  have small: "unat (held_target h) < 256"
    using assms(2) by (auto simp: h_def first_small held_fixed_def split: option.splits)
  note fin = press_finishes [OF one(1) assms(2) _ one(3)]
  show ?thesis
  proof (cases "tr_held tr1 ! unat u")
    case None
    then have "translator_key u True t tr =
        (push_if (\<not> translator_holds tr1 (held_target h)) (held_target h) True plan,
         tr1\<lparr>tr_held := (tr_held tr1)[unat u := Some h]\<rparr>)"
      using tp idx by (simp add: translator_key_def s_def h_def Let_def)
    then show ?thesis
      using None one fin(2) set_entry [OF one(1) assms(2) small] by (simp add: delivers_def)
  next
    case (Some h1)
    then have "translator_key u True t tr = (plan_push (held_target h1) True plan, tr1)"
      using tp idx by (simp add: translator_key_def s_def Let_def)
    then show ?thesis
      using Some one fin(1) occupied_iff [OF assms(2), of tr1] by (simp add: delivers_def insert_absorb)
  qed
qed

lemma click_delivers:
  assumes "tr_wf tr"
  shows "delivers tr (translator_click t tr) (occupied tr)"
  using assms follow_delivers [OF assms]
  by (auto simp: delivers_def translator_click_def split: option.splits prod.splits)

subsection \<open>A run of keys, clicks and clears\<close>

datatype tr_event =
    TKey hid_usage bool "direction option"
  | TClick "direction option"
  | TClear

text \<open>
  A run keeps the translator, what is down at the destination, and the keys that were pressed and
  not released since the destination last released everything.
\<close>

fun tr_step :: "tr_event \<Rightarrow> translator \<times> hid_usage set \<times> hid_usage set
    \<Rightarrow> translator \<times> hid_usage set \<times> hid_usage set" where
  "tr_step (TKey u pressed t) (tr, D, P) =
     (let (plan, tr') = translator_key u pressed t tr
      in (tr', apply_steps plan D, if pressed then insert u P else P - {u}))"
| "tr_step (TClick t) (tr, D, P) =
     (let (plan, tr') = translator_click t tr in (tr', apply_steps plan D, P))"
| "tr_step TClear (tr, D, P) = (translator_clear tr, {}, {})"

definition tr_run :: "tr_event list \<Rightarrow> translator \<times> hid_usage set \<times> hid_usage set" where
  "tr_run evs = fold tr_step evs (translator_default, {}, {})"

definition tr_inv :: "translator \<times> hid_usage set \<times> hid_usage set \<Rightarrow> bool" where
  "tr_inv = (\<lambda>(tr, D, P). tr_wf tr \<and> D = targets tr \<union> (P \<inter> wide) \<and> occupied tr = P - wide)"

lemma empty_translator:
  "tr_wf \<lparr>tr_held = replicate 256 None\<rparr>" "targets \<lparr>tr_held = replicate 256 None\<rparr> = {}"
  "occupied \<lparr>tr_held = replicate 256 None\<rparr> = {}"
  by (auto simp: tr_wf_def targets_def translator_holds_iff occupied_def list_all_iff)

lemma tr_inv_step:
  assumes "tr_inv s"
  shows "tr_inv (tr_step e s)"
proof -
  obtain tr D P where s: "s = (tr, D, P)" by (cases s)
  have wf: "tr_wf tr" and D: "D = targets tr \<union> (P \<inter> wide)" and occ: "occupied tr = P - wide"
    using assms s by (simp_all add: tr_inv_def)
  have inv: "tr_inv (snd r, apply_steps (fst r) D, P')"
    if "delivers tr r Q" "P' \<inter> wide = P \<inter> wide" "P' - wide = Q" for r P' Q
    using that D by (auto simp: tr_inv_def delivers_def)
  show ?thesis
  proof (cases e)
    case (TKey u pressed t)
    show ?thesis
    proof (cases "unat u < 256")
      case True
      then have u: "u \<notin> wide" by (simp add: wide_def)
      have sets: "insert u P \<inter> wide = P \<inter> wide" "insert u P - wide = insert u (occupied tr)"
        "(P - {u}) \<inter> wide = P \<inter> wide" "P - {u} - wide = occupied tr - {u}"
        using u unfolding occ by auto
      show ?thesis
        using inv [OF press_delivers [OF wf True, of t] sets(1,2)]
          inv [OF release_delivers [OF wf True, of t] sets(3,4)]
        by (cases pressed) (simp_all add: s TKey case_prod_beta)
    next
      case False
      then have "u \<in> wide" and k: "translator_key u pressed t tr = (plan_push u pressed [], tr)"
        using wf by (simp_all add: wide_def translator_key_def translator_index_def tr_wf_length)
      moreover have "u \<notin> targets tr"
        using False wf tr_wf_entry by (auto simp: targets_def translator_holds_iff tr_wf_length)
      ultimately show ?thesis
        using wf D occ by (auto simp: s TKey tr_inv_def)
    qed
  next
    case (TClick t)
    show ?thesis using inv [OF click_delivers [OF wf, of t], of P] occ by (simp add: s TClick split_beta Let_def)
  next
    case TClear
    show ?thesis using wf empty_translator by (cases tr) (simp add: s TClear tr_inv_def translator_clear_def)
  qed
qed

lemma tr_inv_run: "tr_inv (tr_run evs)"
proof -
  have "tr_inv s \<Longrightarrow> tr_inv (fold tr_step evs s)" for s
    by (induction evs arbitrary: s) (simp_all add: tr_inv_step)
  then show ?thesis
    using empty_translator by (simp add: tr_run_def tr_inv_def translator_default_def)
qed

text \<open>
  C35: The translator never strands a key. Over any run of key events, clicks and clears, with the
  translation switched on, off or around at any moment, what is down at the destination is exactly
  the targets of the physical keys still held (each of which has one entry) and the held keys
  outside the table, which pass through; once every pressed key has been released, nothing is down.
\<close>

theorem translator_strands_no_key:
  assumes "tr_run evs = (tr, D, P)"
  shows "D = targets tr \<union> (P \<inter> wide) \<and> occupied tr = P - wide \<and> (P = {} \<longrightarrow> D = {})"
proof -
  have inv: "tr_wf tr" "D = targets tr \<union> (P \<inter> wide)" "occupied tr = P - wide"
    using tr_inv_run [of evs] assms by (simp_all add: tr_inv_def)
  have "targets tr = {}" if "P = {}"
  proof -
    have "tr_held tr ! i = None" if "i < 256" for i
      using inv(3) \<open>P = {}\<close> that occupied_iff [of "of_nat i" tr]
      by (auto simp: unat_of_nat take_bit_nat_eq_self)
    then show ?thesis using inv(1) by (auto simp: targets_def translator_holds_iff tr_wf_length)
  qed
  then show ?thesis using inv by auto
qed

lemma tr_step_pressed:
  "snd (snd (tr_step (TKey u b t) s)) = (if b then insert u (snd (snd s)) else snd (snd s) - {u})"
  "snd (snd (tr_step (TClick t) s)) = snd (snd s)"
  by (cases s; simp add: split_beta Let_def)+

theorem translator_strands_no_key_witness:
  "fst (snd (tr_run
     [TKey 0xE0 True (Some WindowsOnMac), TKey HID_TAB True (Some WindowsOnMac),
      TClick (Some WindowsOnMac), TKey 0xE0 False None, TKey HID_TAB False None])) = {}"
proof -
  let ?evs = "[TKey 0xE0 True (Some WindowsOnMac), TKey HID_TAB True (Some WindowsOnMac),
      TClick (Some WindowsOnMac), TKey 0xE0 False None, TKey HID_TAB False None]"
  obtain tr D P where r: "tr_run ?evs = (tr, D, P)" by (cases "tr_run ?evs")
  have "snd (snd (tr_run ?evs)) = {}"
    by (auto simp: tr_run_def tr_step_pressed simp del: tr_step.simps)
  then show ?thesis using translator_strands_no_key [OF r] r by auto
qed

subsection \<open>A plan always fits its array\<close>

text \<open>
  The steps of a plan are pushed into an array of ten, so a longer plan would panic. What bounds
  it is where the entries that follow can point, per direction.
\<close>

definition side_usage :: "modifier_side \<Rightarrow> semantic_modifier_kind \<Rightarrow> hid_usage" where
  "side_usage side kind = semantic_modifier_usage \<lparr>sm_side = side, sm_kind = kind\<rparr>"

fun entry_ok :: "direction \<Rightarrow> modifier_side \<Rightarrow> semantic_modifier_kind \<Rightarrow> held \<Rightarrow> bool" where
  "entry_ok WindowsOnMac side kind h = (kind = MControl \<or> kind = MAlternate)"
| "entry_ok MacOnWindows side MShift h = False"
| "entry_ok MacOnWindows side MControl h = True"
| "entry_ok MacOnWindows side MAlternate h =
     (held_target h \<in> {side_usage side MAlternate, side_usage side MControl})"
| "entry_ok MacOnWindows side MSystem h =
     (held_target h = side_usage side (if held_switching h then MAlternate else MControl))"

definition followers_ok :: "direction \<Rightarrow> translator \<Rightarrow> bool" where
  "followers_ok d tr = (\<forall>i<256. \<forall>h. tr_held tr ! i = Some h \<longrightarrow> held_follows h \<longrightarrow>
     (case semantic_modifier (of_nat i) of
        None \<Rightarrow> False | Some m \<Rightarrow> entry_ok d (sm_side m) (sm_kind m) h))"

lemma followers_okD:
  assumes "followers_ok d tr" "unat u < 256" "tr_held tr ! unat u = Some h" "held_follows h"
  obtains m where "semantic_modifier u = Some m" "entry_ok d (sm_side m) (sm_kind m) h"
proof -
  have "case semantic_modifier (of_nat (unat u)) of
      None \<Rightarrow> False | Some m \<Rightarrow> entry_ok d (sm_side m) (sm_kind m) h"
    using assms unfolding followers_ok_def by blast
  then show ?thesis using that by (auto split: option.splits)
qed

lemma modifier_with_kind: "semantic_modifier_usage (m\<lparr>sm_kind := k\<rparr>) = side_usage (sm_side m) k"
  by (cases m) (simp add: side_usage_def)

lemma entry_ok_wanted:
  "entry_ok d (sm_side m) (sm_kind m) h \<Longrightarrow> entry_ok d (sm_side m) (sm_kind m) (wanted d m h key k)"
  by (cases d; cases "sm_kind m")
    (auto simp: wanted_def wanted_kind_def modifier_with_kind Let_def)

lemma entry_ok_first:
  "held_follows (translator_first d m) \<Longrightarrow> entry_ok d (sm_side m) (sm_kind m) (translator_first d m)"
  by (cases d; cases "sm_kind m") (auto simp: translator_first_def modifier_with_kind Let_def)

lemma followers_ok_update:
  assumes "followers_ok d tr" "length (tr_held tr) = 256" "unat u < 256"
    and "held_follows h \<Longrightarrow> \<exists>m. semantic_modifier u = Some m \<and> entry_ok d (sm_side m) (sm_kind m) h"
  shows "followers_ok d (tr\<lparr>tr_held := (tr_held tr)[unat u := Some h]\<rparr>)"
  using assms unfolding followers_ok_def by (auto simp: nth_list_update)

lemma follow_one_followers:
  assumes "followers_ok d tr" "tr_wf tr" "unat u < 256"
  shows "followers_ok d (fst (follow_one d key k u (tr, plan)))"
proof (cases rule: follow_one_cases [of d key k u tr plan])
  case (moved h m)
  obtain m' where "semantic_modifier u = Some m'" "entry_ok d (sm_side m') (sm_kind m') h"
    using followers_okD [OF assms(1,3) moved(1,2)] by blast
  then show ?thesis
    unfolding moved(4) using moved(3) assms
    by (intro followers_ok_update) (auto simp: tr_wf_length entry_ok_wanted)
qed (simp add: assms)

lemma follow_one_grows:
  "length (snd (follow_one d key k u (tr, plan))) \<le> length plan + 2"
  by (auto simp: follow_one_def Let_def push_if_def plan_push_def split: option.splits)

lemma follow_one_idle:
  assumes "\<And>h m. tr_held tr ! unat u = Some h \<Longrightarrow> held_follows h \<Longrightarrow> semantic_modifier u = Some m \<Longrightarrow>
    held_target (wanted d m h key k) = held_target h"
  shows "length (snd (follow_one d key k u (tr, plan))) = length plan"
  using assms by (auto simp: follow_one_def Let_def push_if_def split: option.splits)

text \<open>One of the two steps falls away when another entry holds the new or the old target.\<close>

lemma follow_one_shared:
  assumes "tr_wf tr" "i < 256" "i \<noteq> unat u" "tr_held tr ! i = Some g"
    and "\<And>h m. tr_held tr ! unat u = Some h \<Longrightarrow> held_follows h \<Longrightarrow> semantic_modifier u = Some m \<Longrightarrow>
      held_target (wanted d m h key k) = held_target g \<or> held_target h = held_target g \<or>
      held_target (wanted d m h key k) = held_target h"
  shows "length (snd (follow_one d key k u (tr, plan))) \<le> length plan + 1"
proof -
  have "translator_holds tr (held_target g)"
    "translator_holds (tr\<lparr>tr_held := (tr_held tr)[unat u := e]\<rparr>) (held_target g)" for e
    using assms(1-4) by (auto simp: translator_holds_iff tr_wf_length intro!: exI [of _ i])
  then show ?thesis
    using assms(5)
    by (fastforce simp: follow_one_def Let_def push_if_def plan_push_def split: option.splits)
qed

lemma semantic_side_usage: "semantic_modifier (side_usage side kind) = Some \<lparr>sm_side = side, sm_kind = kind\<rparr>"
  by (cases side; cases kind) (simp_all add: side_usage_def semantic_modifier_usage_def semantic_modifier_def)

lemma side_usage_small: "unat (side_usage side kind) < 256"
  by (simp add: side_usage_def modifier_usage_small)

lemma side_usage_inj: "unat (side_usage side k) = unat (side_usage side k') \<longleftrightarrow> k = k'"
  by (cases side; cases k; cases k') (simp_all add: side_usage_def semantic_modifier_usage_def)

lemma followers_side:
  assumes "followers_ok d tr" "tr_held tr ! unat (side_usage side kind) = Some h" "held_follows h"
  shows "entry_ok d side kind h"
  using followers_okD [OF assms(1) side_usage_small assms(2,3)] by (auto simp: semantic_side_usage)

lemma wanted_target:
  "held_target (wanted d \<lparr>sm_side = side, sm_kind = kind\<rparr> h key k) =
     side_usage side (fst (wanted_kind d kind (held_switching h) key k))"
  by (simp add: wanted_def side_usage_def split: prod.splits)

definition moves :: "direction \<Rightarrow> hid_usage option \<Rightarrow> kinds \<Rightarrow> modifier_side \<Rightarrow> semantic_modifier_kind \<Rightarrow> translator \<Rightarrow> bool" where
  "moves d key k side kind tr = (\<exists>h. tr_held tr ! unat (side_usage side kind) = Some h \<and> held_follows h \<and>
     side_usage side (fst (wanted_kind d kind (held_switching h) key k)) \<noteq> held_target h)"

lemma not_moves_idle:
  "\<not> moves d key k side kind tr \<Longrightarrow>
     length (snd (follow_one d key k (side_usage side kind) (tr, plan))) = length plan"
  by (rule follow_one_idle) (auto simp: moves_def semantic_side_usage wanted_target)

text \<open>
  A Mac keyboard's Command moves only for Tab, from Ctrl to Alt; Control and Option on the same
  side then need one step each, since Command still holds Ctrl.
\<close>

lemma system_moves:
  assumes "followers_ok MacOnWindows tr" "moves MacOnWindows key k side MSystem tr"
  obtains g where "tr_held tr ! unat (side_usage side MSystem) = Some g"
    "held_target g = side_usage side MControl" "key = Some HID_TAB"
proof -
  obtain g where g: "tr_held tr ! unat (side_usage side MSystem) = Some g" "held_follows g"
    "side_usage side (fst (wanted_kind MacOnWindows MSystem (held_switching g) key k)) \<noteq> held_target g"
    using assms(2) by (auto simp: moves_def)
  have "held_target g = side_usage side (if held_switching g then MAlternate else MControl)"
    using followers_side [OF assms(1) g(1,2)] by simp
  then show ?thesis using g that by (auto simp: wanted_kind_def Let_def split: if_splits)
qed

lemma system_shares:
  assumes "followers_ok MacOnWindows tr" "tr_wf tr" "kind = MControl \<or> kind = MAlternate"
    and "tr_held tr ! unat (side_usage side MSystem) = Some g" "held_target g = side_usage side MControl"
  shows "length (snd (follow_one MacOnWindows (Some HID_TAB) k (side_usage side kind) (tr, plan))) \<le> length plan + 1"
proof (rule follow_one_shared [OF assms(2) side_usage_small _ assms(4)])
  show "unat (side_usage side MSystem) \<noteq> unat (side_usage side kind)"
    using assms(3) by (auto simp: side_usage_inj)
  fix h m
  assume h: "tr_held tr ! unat (side_usage side kind) = Some h" "held_follows h"
    and m: "semantic_modifier (side_usage side kind) = Some m"
  show "held_target (wanted MacOnWindows m h (Some HID_TAB) k) = held_target g \<or>
      held_target h = held_target g \<or>
      held_target (wanted MacOnWindows m h (Some HID_TAB) k) = held_target h"
    using followers_side [OF assms(1) h] m assms(3,5)
    by (auto simp: semantic_side_usage wanted_target wanted_kind_def)
qed

definition plan_within :: "direction \<Rightarrow> nat \<Rightarrow> translator \<times> key_plan \<Rightarrow> bool" where
  "plan_within d n = (\<lambda>(tr, plan). tr_wf tr \<and> followers_ok d tr \<and> length plan \<le> n)"

lemma follow_one_next:
  assumes "follow_one d key k (side_usage side kind) (t, p) = (t', p')" "tr_wf t" "followers_ok d t"
  shows "tr_wf t'" "followers_ok d t'" "length p' \<le> length p + 2"
    "kind \<noteq> MSystem \<Longrightarrow>
       tr_held t' ! unat (side_usage side MSystem) = tr_held t ! unat (side_usage side MSystem)"
  using follow_one_keeps(1) [OF assms(2) side_usage_small, where d = d and key = key and k = k and plan = p]
    follow_one_keeps(3) [OF assms(2) side_usage_small, where d = d and key = key and k = k and plan = p]
    follow_one_grows [of d key k "side_usage side kind" t p]
    follow_one_followers [OF assms(3,2) side_usage_small, where key = key and k = k and plan = p] assms(1)
  by (metis fst_conv snd_conv side_usage_inj)+

lemma shift_stays:
  assumes "followers_ok d tr"
  shows "\<not> moves d key k side MShift tr"
  using followers_side [OF assms, of side MShift] by (cases d) (auto simp: moves_def)

lemma follow_side:
  assumes "plan_within d n s"
  shows "plan_within d (n + 4)
    (fold (follow_one d key k) (map (side_usage side) [MControl, MShift, MAlternate, MSystem]) s)"
proof -
  let ?f = "\<lambda>kind. follow_one d key k (side_usage side kind)"
  obtain tr plan where s: "s = (tr, plan)" by (cases s)
  have t0: "tr_wf tr" "followers_ok d tr" "length plan \<le> n" using assms s by (simp_all add: plan_within_def)
  obtain tr1 p1 where s1: "?f MControl (tr, plan) = (tr1, p1)" by (cases "?f MControl (tr, plan)")
  note t1 = follow_one_next [OF s1 t0(1,2)]
  obtain tr2 p2 where s2: "?f MShift (tr1, p1) = (tr2, p2)" by (cases "?f MShift (tr1, p1)")
  note t2 = follow_one_next [OF s2 t1(1,2)]
  obtain tr3 p3 where s3: "?f MAlternate (tr2, p2) = (tr3, p3)" by (cases "?f MAlternate (tr2, p2)")
  note t3 = follow_one_next [OF s3 t2(1,2)]
  obtain tr4 p4 where s4: "?f MSystem (tr3, p3) = (tr4, p4)" by (cases "?f MSystem (tr3, p3)")
  note t4 = follow_one_next [OF s4 t3(1,2)]
  note sys = t1(4) t2(4) t3(4) and grows = t1(3) t3(3) t4(3)
  have shift: "\<not> moves d key k side MShift tr1" by (rule shift_stays [OF t1(2)])
  have p2: "length p2 = length p1" using not_moves_idle [OF shift, of p1] s2 by simp
  have "length p4 \<le> length plan + 4"
  proof (cases "moves d key k side MSystem tr")
    case False
    then have "\<not> moves d key k side MSystem tr3" using sys by (simp add: moves_def)
    then have "length p4 = length p3" using not_moves_idle [of d key k side MSystem tr3 p3] s4 by simp
    then show ?thesis using grows p2 by simp
  next
    case True
    have d: "d = MacOnWindows"
      using True followers_side [OF t0(2), of side MSystem] by (cases d) (auto simp: moves_def)
    obtain g where g: "tr_held tr ! unat (side_usage side MSystem) = Some g"
      "held_target g = side_usage side MControl" "key = Some HID_TAB"
      using system_moves [OF t0(2) [unfolded d] True [unfolded d]] by blast
    have "length p1 \<le> length plan + 1"
      using system_shares [OF t0(2) [unfolded d] t0(1) _ g(1,2), of MControl k plan] s1 d g(3) by simp
    moreover have "length p3 \<le> length p2 + 1"
      using system_shares [OF t2(2) [unfolded d] t2(1) _ _ g(2), of MAlternate k p2] sys g s3 d by simp
    ultimately show ?thesis using grows(3) p2 by simp
  qed
  then show ?thesis using s s1 s2 s3 s4 t4(1,2) t0(3) by (simp add: plan_within_def)
qed

lemma follow_within:
  assumes "plan_within d n s"
  shows "plan_within d (n + 8) (translator_follow d key s)"
proof -
  have usages: "MODIFIER_USAGES = map (side_usage LeftSide) [MControl, MShift, MAlternate, MSystem] @
      map (side_usage RightSide) [MControl, MShift, MAlternate, MSystem]"
    by (simp add: MODIFIER_USAGES_def side_usage_def semantic_modifier_usage_def)
  show ?thesis
    using follow_side [OF follow_side [OF assms], of key "translator_kinds (fst s)" RightSide key "translator_kinds (fst s)" LeftSide]
    unfolding translator_follow_def usages fold_append comp_apply by (simp add: add.commute del: list.map)
qed

definition one_way :: "direction \<Rightarrow> direction option \<Rightarrow> bool" where
  "one_way d t = (t = None \<or> t = Some d)"

fun event_one_way :: "direction \<Rightarrow> tr_event \<Rightarrow> bool" where
  "event_one_way d (TKey u pressed t) = one_way d t"
| "event_one_way d (TClick t) = one_way d t"
| "event_one_way d TClear = True"

fun event_plan :: "tr_event \<Rightarrow> translator \<Rightarrow> key_plan" where
  "event_plan (TKey u pressed t) tr = fst (translator_key u pressed t tr)"
| "event_plan (TClick t) tr = fst (translator_click t tr)"
| "event_plan TClear tr = []"

fun event_state :: "tr_event \<Rightarrow> translator \<Rightarrow> translator" where
  "event_state (TKey u pressed t) tr = snd (translator_key u pressed t tr)"
| "event_state (TClick t) tr = snd (translator_click t tr)"
| "event_state TClear tr = translator_clear tr"

lemma fst_tr_step: "fst (tr_step e s) = event_state e (fst s)"
  by (cases e; cases s) (simp_all add: split_beta Let_def)

lemma followers_ok_clear:
  assumes "followers_ok d tr" "length (tr_held tr) = 256"
  shows "followers_ok d (tr\<lparr>tr_held := (tr_held tr)[i := None]\<rparr>)"
proof (cases "i < 256")
  case True
  then show ?thesis using assms unfolding followers_ok_def by (auto simp: nth_list_update)
next
  case False
  then show ?thesis using assms by (simp add: list_update_beyond)
qed

lemma first_or_fixed_ok:
  assumes "one_way d t" "h = (case (semantic_modifier u, t) of
      (Some m, Some d) \<Rightarrow> translator_first d m | _ \<Rightarrow> held_fixed u)" "held_follows h"
  shows "\<exists>m. semantic_modifier u = Some m \<and> entry_ok d (sm_side m) (sm_kind m) h"
  using assms by (auto simp: one_way_def held_fixed_def entry_ok_first split: option.splits)

lemma push_if_length: "length (push_if c u b plan) \<le> Suc (length plan)"
  by (simp add: push_if_def plan_push_def)

lemma key_within:
  assumes "tr_wf tr" "followers_ok d tr" "one_way d t"
  shows "followers_ok d (snd (translator_key u pressed t tr)) \<and>
    length (fst (translator_key u pressed t tr)) \<le> 9"
proof (cases "unat u < 256 \<and> pressed")
  case False
  then show ?thesis
    using assms followers_ok_clear [OF assms(2)] tr_wf_length [OF assms(1)]
    by (auto simp: translator_key_def translator_index_def plan_push_def push_if_def Let_def)
next
  case True
  then have u: "unat u < 256" and pressed by auto
  define s where "s = (case (t, semantic_modifier u) of
      (Some d, None) \<Rightarrow> translator_follow d (Some u) (tr, []) | _ \<Rightarrow> (tr, []))"
  obtain tr1 plan where tp: "s = (tr1, plan)" by (cases s)
  have base: "plan_within d 0 (tr, [])" using assms by (simp add: plan_within_def)
  have "plan_within d 8 s"
    using base follow_within [OF base, of "Some u"] assms(3)
    by (auto simp: s_def one_way_def plan_within_def split: option.splits)
  then have one: "tr_wf tr1" "followers_ok d tr1" "length plan \<le> 8" using tp by (simp_all add: plan_within_def)
  define h where "h = (case (semantic_modifier u, t) of
      (Some m, Some d) \<Rightarrow> translator_first d m | _ \<Rightarrow> held_fixed u)"
  have "followers_ok d (tr1\<lparr>tr_held := (tr_held tr1)[unat u := Some h]\<rparr>)"
    by (rule followers_ok_update [OF one(2) tr_wf_length [OF one(1)] u first_or_fixed_ok [OF assms(3) h_def]])
  moreover have "length (push_if c x b plan) \<le> 9" "length (plan_push x b plan) \<le> 9" for c x b
    using one(3) push_if_length [of c x b plan] by (simp_all add: plan_push_def)
  moreover have "translator_key u pressed t tr = (case tr_held tr1 ! unat u of
      Some g \<Rightarrow> (plan_push (held_target g) True plan, tr1)
    | None \<Rightarrow> (push_if (\<not> translator_holds tr1 (held_target h)) (held_target h) True plan,
        tr1\<lparr>tr_held := (tr_held tr1)[unat u := Some h]\<rparr>))"
    using u \<open>pressed\<close> tp tr_wf_length [OF assms(1)]
    by (cases "tr_held tr1 ! unat u") (simp_all add: translator_key_def translator_index_def s_def h_def Let_def)
  ultimately show ?thesis using one(2) by (auto split: option.splits)
qed

lemma event_within:
  assumes "tr_wf tr" "followers_ok d tr" "event_one_way d e"
  shows "followers_ok d (event_state e tr) \<and> length (event_plan e tr) \<le> 9"
proof (cases e)
  case (TKey u pressed t)
  then show ?thesis using key_within [OF assms(1,2)] assms(3) by simp
next
  case (TClick t)
  have "plan_within d 0 (tr, [])" using assms by (simp add: plan_within_def)
  from follow_within [OF this, of None] show ?thesis
    using TClick assms by (auto simp: translator_click_def one_way_def plan_within_def split_beta Let_def)
next
  case TClear
  then show ?thesis by (simp add: translator_clear_def followers_ok_def)
qed

lemma run_followers:
  assumes "list_all (event_one_way d) evs"
  shows "followers_ok d (fst (tr_run evs))"
  using assms
proof (induction evs rule: rev_induct)
  case Nil
  show ?case by (simp add: tr_run_def translator_default_def followers_ok_def)
next
  case (snoc e evs)
  have "tr_wf (fst (tr_run evs))" using tr_inv_run [of evs] by (auto simp: tr_inv_def)
  then show ?case
    using snoc event_within [of "fst (tr_run evs)" d e] by (simp add: tr_run_def fst_tr_step)
qed

text \<open>
  A translator's plan always fits its array. After any run in which the translation is off or
  goes one way (the keyboard and the computer it drives keep their platforms), the plan of any
  further key or click has at most nine of the ten steps the array holds, so pushing a step never
  runs past its end.
\<close>

theorem translator_plan_fits:
  assumes "list_all (event_one_way d) evs" "event_one_way d e"
  shows "length (event_plan e (fst (tr_run evs))) < MAX_CHORD_STEPS"
proof -
  have "tr_wf (fst (tr_run evs))" using tr_inv_run [of evs] by (auto simp: tr_inv_def)
  from event_within [OF this run_followers [OF assms(1)] assms(2)] show ?thesis
    by simp
qed

theorem translator_plan_fits_witness:
  "length (event_plan (TKey HID_TAB True (Some MacOnWindows))
     (fst (tr_run [TKey 0xE3 True (Some MacOnWindows)]))) < MAX_CHORD_STEPS"
  by (rule translator_plan_fits [where d = MacOnWindows]) (simp_all add: one_way_def)

end
