(* ===== verification/Capture_Event.thy ===== *)
theory Capture_Event
  imports Gestures
begin

section \<open>Captured events and their slot words: \<open>monhop-core/src/capture.rs\<close>\<close>

text \<open>
  A captured event, when it is representable, and the three words a queue slot keeps it in. An
  \<open>i32\<close> is its 32 bits: capture only tests it for zero, packs it and converts it. The event kinds
  are the constants of the source.
\<close>

type_synonym i32 = "32 word"

abbreviation (input) "EVENT_KEY \<equiv> (1 :: u64)"
abbreviation (input) "EVENT_BUTTON \<equiv> (2 :: u64)"
abbreviation (input) "EVENT_ABSOLUTE_MOTION \<equiv> (3 :: u64)"
abbreviation (input) "EVENT_RELATIVE_MOTION \<equiv> (4 :: u64)"
abbreviation (input) "EVENT_SCROLL \<equiv> (5 :: u64)"
abbreviation (input) "EVENT_ROUTE_CHANGED \<equiv> (6 :: u64)"
abbreviation (input) "EVENT_LOGICAL_ABSOLUTE_MOTION \<equiv> (7 :: u64)"
abbreviation (input) "EVENT_LOGICAL_RELATIVE_MOTION \<equiv> (8 :: u64)"
abbreviation (input) "EVENT_LOGICAL_SCROLL \<equiv> (9 :: u64)"
abbreviation (input) "EVENT_GESTURE \<equiv> (10 :: u64)"
abbreviation (input) "EVENT_SYSTEM_GESTURE \<equiv> (11 :: u64)"
abbreviation (input) "EVENT_KIND_MASK \<equiv> (0xff :: u64)"
abbreviation (input) "GESTURE_FIELD_MASK \<equiv> (0xf :: u64)"

datatype capture_event =
    KeyEvent hid_usage bool bool modifier_state
    \<comment> \<open>usage, pressed, repeat, modifiers\<close>
  | ButtonEvent mouse_button bool duration
    \<comment> \<open>button, pressed, at\<close>
  | AbsoluteMotion i32 i32
  | RelativeMotion i32 i32 f64
    \<comment> \<open>dx, dy, gain\<close>
  | Scroll i32 i32
    \<comment> \<open>horizontal, vertical\<close>
  | LogicalAbsoluteMotion f64 f64
  | LogicalRelativeMotion f64 f64
  | LogicalScroll f64 f64
  | RouteChanged bool u64
    \<comment> \<open>remote, revision\<close>
  | Gesture gesture_kind "gesture_phase option" f64
  | SystemGesture system_gesture

fun capture_event_is_valid :: "capture_event \<Rightarrow> bool" where
  "capture_event_is_valid (KeyEvent u _ _ _) = hid_is_valid u"
| "capture_event_is_valid (ButtonEvent _ _ _) = True"
| "capture_event_is_valid (AbsoluteMotion _ _) = True"
| "capture_event_is_valid (RelativeMotion dx dy gain) =
     ((dx \<noteq> 0 \<or> dy \<noteq> 0) \<and> f64_is_finite gain \<and> f64_le f64_zero gain)"
| "capture_event_is_valid (Scroll h v) = (h \<noteq> 0 \<or> v \<noteq> 0)"
| "capture_event_is_valid (LogicalAbsoluteMotion x y) = (f64_is_finite x \<and> f64_is_finite y)"
| "capture_event_is_valid (LogicalRelativeMotion dx dy) =
     (f64_is_finite dx \<and> f64_is_finite dy \<and> (\<not> f64_eq dx f64_zero \<or> \<not> f64_eq dy f64_zero))"
| "capture_event_is_valid (LogicalScroll h v) =
     (f64_is_finite h \<and> f64_is_finite v \<and> (\<not> f64_eq h f64_zero \<or> \<not> f64_eq v f64_zero))"
| "capture_event_is_valid (RouteChanged _ _) = True"
| "capture_event_is_valid (SystemGesture _) = True"
| "capture_event_is_valid (Gesture kind phase value) = is_ok (gesture_from_parts kind phase value)"

definition capture_event_gesture :: "pointer_gesture \<Rightarrow> capture_event" where
  "capture_event_gesture g = Gesture (gesture_kind_of g) (gesture_phase_of g) (gesture_value_of g)"

record captured_event =
  ce_event :: capture_event
  ce_routing_revision :: u64
  ce_remote :: bool
  ce_floor_generation :: u64

record encoded_event =
  enc_header :: u64
  enc_payload :: u64
  enc_revision :: u64

definition pack_i32_pair :: "i32 \<Rightarrow> i32 \<Rightarrow> u64" where
  "pack_i32_pair first second = ucast first OR push_bit 32 (ucast second)"

definition unpack_i32_pair :: "u64 \<Rightarrow> i32 \<times> i32" where
  "unpack_i32_pair packed = (ucast packed, ucast (drop_bit 32 packed))"

text \<open>\<open>u64::try_from(at.as_nanos()).unwrap_or(u64::MAX)\<close>.\<close>

definition saturated_nanos :: "duration \<Rightarrow> u64" where
  "saturated_nanos t = (if t < 2 ^ 64 then of_nat t else - 1)"

definition encoded :: "u64 \<Rightarrow> u64 \<Rightarrow> u64 \<Rightarrow> encoded_event" where
  "encoded h p r = \<lparr>enc_header = h, enc_payload = p, enc_revision = r\<rparr>"

fun encode_event :: "capture_event \<Rightarrow> encoded_event" where
  "encode_event (KeyEvent u pressed rep modifiers) =
     encoded (EVENT_KEY OR push_bit 8 (ucast u) OR push_bit 24 (of_bool pressed)
       OR push_bit 25 (of_bool rep) OR push_bit 26 (ucast modifiers)) 0 0"
| "encode_event (ButtonEvent b pressed t) =
     encoded (EVENT_BUTTON OR push_bit 8 (of_nat (button_index b)) OR push_bit 11 (of_bool pressed))
       (saturated_nanos t) 0"
| "encode_event (AbsoluteMotion x y) = encoded EVENT_ABSOLUTE_MOTION (pack_i32_pair x y) 0"
| "encode_event (RelativeMotion dx dy gain) =
     encoded EVENT_RELATIVE_MOTION (pack_i32_pair dx dy) gain"
| "encode_event (Scroll h v) = encoded EVENT_SCROLL (pack_i32_pair h v) 0"
| "encode_event (LogicalAbsoluteMotion x y) = encoded EVENT_LOGICAL_ABSOLUTE_MOTION x y"
| "encode_event (LogicalRelativeMotion dx dy) = encoded EVENT_LOGICAL_RELATIVE_MOTION dx dy"
| "encode_event (LogicalScroll h v) = encoded EVENT_LOGICAL_SCROLL h v"
| "encode_event (RouteChanged remote revision) =
     encoded (EVENT_ROUTE_CHANGED OR push_bit 8 (of_bool remote)) 0 revision"
| "encode_event (Gesture kind phase value) =
     encoded (EVENT_GESTURE OR push_bit 8 (ucast (gesture_kind_to_wire kind))
       OR push_bit 12 (ucast (case phase of None \<Rightarrow> 0 | Some ph \<Rightarrow> gesture_phase_to_wire ph))) value 0"
| "encode_event (SystemGesture g) =
     encoded (EVENT_SYSTEM_GESTURE OR push_bit 8 (ucast (system_gesture_to_wire g))) 0 0"

text \<open>The event a header and its two words stand for; \<open>None\<close> where the source returns early.\<close>

definition decode_event :: "u64 \<Rightarrow> u64 \<Rightarrow> u64 \<Rightarrow> capture_event option" where
  "decode_event header payload revision =
     (let kind = header AND EVENT_KIND_MASK; field = drop_bit 8 header in
      if kind = EVENT_KEY then
        Some (KeyEvent (ucast (field AND 0xffff))
          (header AND push_bit 24 1 \<noteq> 0) (header AND push_bit 25 1 \<noteq> 0)
          (ucast (drop_bit 26 header AND 0xff)))
      else if kind = EVENT_BUTTON then
        map_option (\<lambda>b. ButtonEvent b (header AND push_bit 11 1 \<noteq> 0) (unat payload))
          (button_from_index (unat (field AND 0x07)))
      else if kind = EVENT_ABSOLUTE_MOTION then
        (let (x, y) = unpack_i32_pair payload in Some (AbsoluteMotion x y))
      else if kind = EVENT_RELATIVE_MOTION then
        (let (dx, dy) = unpack_i32_pair payload in Some (RelativeMotion dx dy revision))
      else if kind = EVENT_SCROLL then
        (let (h, v) = unpack_i32_pair payload in Some (Scroll h v))
      else if kind = EVENT_LOGICAL_ABSOLUTE_MOTION then Some (LogicalAbsoluteMotion payload revision)
      else if kind = EVENT_LOGICAL_RELATIVE_MOTION then Some (LogicalRelativeMotion payload revision)
      else if kind = EVENT_LOGICAL_SCROLL then Some (LogicalScroll payload revision)
      else if kind = EVENT_ROUTE_CHANGED then
        Some (RouteChanged (header AND push_bit 8 1 \<noteq> 0) revision)
      else if kind = EVENT_GESTURE then
        (let phase = drop_bit 12 header AND GESTURE_FIELD_MASK in
         case gesture_kind_from_wire (ucast (field AND GESTURE_FIELD_MASK)) of
           None \<Rightarrow> None
         | Some k \<Rightarrow>
             if phase = 0 then Some (Gesture k None payload)
             else map_option (\<lambda>ph. Gesture k (Some ph) payload) (gesture_phase_from_wire (ucast phase)))
      else if kind = EVENT_SYSTEM_GESTURE then
        map_option SystemGesture (system_gesture_from_wire (ucast (field AND 0xff)))
      else None)"

definition captured_decode ::
    "u64 \<Rightarrow> u64 \<Rightarrow> u64 \<Rightarrow> u64 \<Rightarrow> u64 \<Rightarrow> u64 \<Rightarrow> captured_event option" where
  "captured_decode header payload event_revision routing_revision routing_remote floor_generation =
     (if routing_remote \<noteq> 0 \<and> routing_remote \<noteq> 1 then None
      else let remote = (routing_remote = 1) in
      case decode_event header payload event_revision of
        None \<Rightarrow> None
      | Some event \<Rightarrow>
          if (case event of
                RouteChanged event_remote revision \<Rightarrow> event_remote \<noteq> remote \<or> revision \<noteq> routing_revision
              | _ \<Rightarrow> False)
          then None
          else if capture_event_is_valid event
          then Some \<lparr>ce_event = event, ce_routing_revision = routing_revision, ce_remote = remote,
                     ce_floor_generation = floor_generation\<rparr>
          else None)"

subsection \<open>What a slot keeps of an event\<close>

text \<open>
  Only the time of a button press beyond \<open>u64::MAX\<close> nanoseconds (584 years) does not fit; it is
  kept as the largest that does.
\<close>

fun stored_event :: "capture_event \<Rightarrow> capture_event" where
  "stored_event (ButtonEvent b pressed t) = ButtonEvent b pressed (min t (2 ^ 64 - 1))"
| "stored_event e = e"

lemma bit_field:
  fixes w :: "'a::len word"
  shows "w AND push_bit n 1 \<noteq> 0 \<longleftrightarrow> bit w n"
  by (rule bit_iff_and_push_bit_not_eq_0 [symmetric])

lemma ff_masks: "(0xff :: u64) = mask 8" "(0xffff :: u64) = mask 16"
  by (simp_all add: mask_eq_exp_minus_1)

lemma unpack_pack_i32 [simp]: "unpack_i32_pair (pack_i32_pair a b) = (a, b)"
  by (auto simp: unpack_i32_pair_def pack_i32_pair_def bit_eq_iff bit_simps dest: bit_imp_le_length)

definition key_header :: "hid_usage \<Rightarrow> bool \<Rightarrow> bool \<Rightarrow> modifier_state \<Rightarrow> u64" where
  "key_header u pressed rep modifiers = EVENT_KEY OR push_bit 8 (ucast u) OR push_bit 24 (of_bool pressed)
     OR push_bit 25 (of_bool rep) OR push_bit 26 (ucast modifiers)"

lemma bit_key_header:
  "bit (key_header u pressed rep modifiers) n \<longleftrightarrow> n < 64 \<and>
     (n = 0 \<or> 8 \<le> n \<and> bit u (n - 8) \<or> n = 24 \<and> pressed \<or> n = 25 \<and> rep \<or>
      26 \<le> n \<and> bit modifiers (n - 26))"
  unfolding key_header_def
  by (auto simp: bit_simps bit_1_iff dest: bit_imp_le_length)

lemma key_header_fields:
  "key_header u pressed rep modifiers AND EVENT_KIND_MASK = EVENT_KEY"
  "ucast (drop_bit 8 (key_header u pressed rep modifiers) AND 0xffff) = u"
  "key_header u pressed rep modifiers AND push_bit 24 1 \<noteq> 0 \<longleftrightarrow> pressed"
  "key_header u pressed rep modifiers AND push_bit 25 1 \<noteq> 0 \<longleftrightarrow> rep"
  "ucast (drop_bit 26 (key_header u pressed rep modifiers) AND 0xff) = modifiers"
proof -
  have u: "\<not> bit u n" if "16 \<le> n" for n using that bit_imp_le_length [of u n] by auto
  have m: "\<not> bit modifiers n" if "8 \<le> n" for n using that bit_imp_le_length [of modifiers n] by auto
  show "key_header u pressed rep modifiers AND EVENT_KIND_MASK = EVENT_KEY"
    unfolding ff_masks by (rule bit_eqI) (auto simp: bit_simps bit_key_header bit_1_iff)
  show "ucast (drop_bit 8 (key_header u pressed rep modifiers) AND 0xffff) = u"
    unfolding ff_masks by (rule bit_eqI) (auto simp: bit_simps bit_key_header)
  show "key_header u pressed rep modifiers AND push_bit 24 1 \<noteq> 0 \<longleftrightarrow> pressed"
    "key_header u pressed rep modifiers AND push_bit 25 1 \<noteq> 0 \<longleftrightarrow> rep"
    unfolding bit_field bit_key_header using u by auto
  show "ucast (drop_bit 26 (key_header u pressed rep modifiers) AND 0xff) = modifiers"
    unfolding ff_masks using u by (intro bit_eqI) (auto simp: bit_simps bit_key_header)
qed

lemma decode_key:
  "decode_event (key_header u pressed rep modifiers) p r = Some (KeyEvent u pressed rep modifiers)"
  using key_header_fields [of u pressed rep modifiers] by (simp add: decode_event_def Let_def)

lemma saturated_nanos_value: "unat (saturated_nanos t) = min t (2 ^ 64 - 1)"
  by (simp add: saturated_nanos_def unat_of_nat take_bit_nat_eq_self unat_max_word)

lemma decode_button:
  "decode_event (enc_header (encode_event (ButtonEvent b pressed t))) p r =
     Some (ButtonEvent b pressed (unat p))"
  by (cases b; cases pressed) (simp_all add: decode_event_def Let_def encoded_def button_from_index_def)

lemma decode_gesture:
  "decode_event (enc_header (encode_event (Gesture kind phase v))) p r = Some (Gesture kind phase p)"
proof (cases phase)
  case None
  then show ?thesis
    by (cases kind) (simp_all add: decode_event_def Let_def encoded_def gesture_kind_from_wire_def)
next
  case (Some ph)
  then show ?thesis
    by (cases kind; cases ph)
      (simp_all add: decode_event_def Let_def encoded_def gesture_kind_from_wire_def gesture_phase_from_wire_def)
qed

lemma decode_system_gesture:
  "decode_event (enc_header (encode_event (SystemGesture g))) p r = Some (SystemGesture g)"
  by (cases g) (simp_all add: decode_event_def Let_def encoded_def system_gesture_from_wire_def)

lemma decode_encode_event:
  "decode_event (enc_header (encode_event e)) (enc_payload (encode_event e)) (enc_revision (encode_event e)) =
     Some (stored_event e)"
proof (cases e)
  case (KeyEvent u pressed rep modifiers)
  then show ?thesis by (simp add: encoded_def decode_key [unfolded key_header_def])
next
  case (ButtonEvent b pressed t)
  then show ?thesis
    using decode_button [of b pressed t "saturated_nanos t"] by (simp add: encoded_def saturated_nanos_value)
next
  case (RouteChanged remote revision)
  then show ?thesis by (cases remote) (simp_all add: encoded_def decode_event_def Let_def)
next
  case (Gesture kind phase v)
  then show ?thesis using decode_gesture [of kind phase v v] by (simp add: encoded_def)
next
  case (SystemGesture g)
  then show ?thesis using decode_system_gesture [of g] by (simp add: encoded_def)
qed (simp_all add: encoded_def decode_event_def Let_def)

lemma stored_event_valid [simp]: "capture_event_is_valid (stored_event e) = capture_event_is_valid e"
  by (cases e) simp_all

end
