(* ===== verification/Capture_Stop.thy ===== *)
theory Capture_Stop
  imports Wire_Enum Atomic_Cell
begin

section \<open>Ending a session and a capture: \<open>revocation.rs\<close>, \<open>capture.rs\<close>\<close>

text \<open>
  The permanent revocation signal of a session, the first-reason-wins stop of a capture, and the
  suppression lease that ends with it. The stop is kept in one byte; the operations are written on
  the reason it stands for, and the byte is shown to implement them. Call sites are values of a
  type parameter; running a waker is an effect outside these components.
\<close>

subsection \<open>Revocation\<close>

record 'loc revocation_state =
  rv_revoked :: bool
  rv_stopping :: bool
  rv_control_change :: bool
  rv_origin :: "'loc option"

definition revocation_default :: "'loc revocation_state" where
  "revocation_default = \<lparr>rv_revoked = False, rv_stopping = False, rv_control_change = False, rv_origin = None\<rparr>"

text \<open>\<open>OnceLock::set\<close>: the first call site stays.\<close>

definition set_origin :: "'loc \<Rightarrow> 'loc revocation_state \<Rightarrow> 'loc revocation_state" where
  "set_origin l s = (case rv_origin s of None \<Rightarrow> s\<lparr>rv_origin := Some l\<rparr> | Some _ \<Rightarrow> s)"

definition mark_revoked_without_wake :: "'loc \<Rightarrow> 'loc revocation_state \<Rightarrow> 'loc revocation_state" where
  "mark_revoked_without_wake l s = (set_origin l s)\<lparr>rv_revoked := True\<rparr>"

definition request_stop :: "'loc \<Rightarrow> 'loc revocation_state \<Rightarrow> 'loc revocation_state" where
  "request_stop l s = (set_origin l s)\<lparr>rv_stopping := True\<rparr>"

definition request_stop_for_control_change ::
    "'loc \<Rightarrow> 'loc revocation_state \<Rightarrow> 'loc revocation_state" where
  "request_stop_for_control_change l s =
     (set_origin l s)\<lparr>rv_control_change := True, rv_stopping := True\<rparr>"

definition is_stopping :: "'loc revocation_state \<Rightarrow> bool" where
  "is_stopping s = (rv_stopping s \<or> rv_revoked s)"

subsection \<open>The stop of a capture\<close>

datatype stop_reason =
    Requested | QueueFull | QueueContended | ConsumerDropped | LeaseExpired | ClockRegression
  | InvalidInput | EmergencyEscape | NativeFailure | DisplaysChanged

definition reason_ends_session :: "stop_reason \<Rightarrow> bool" where
  "reason_ends_session r = (r \<noteq> Requested)"

fun stop_encoded :: "stop_reason \<Rightarrow> u8" where
  "stop_encoded Requested = 1"
| "stop_encoded QueueFull = 2"
| "stop_encoded QueueContended = 3"
| "stop_encoded ConsumerDropped = 4"
| "stop_encoded LeaseExpired = 5"
| "stop_encoded ClockRegression = 6"
| "stop_encoded InvalidInput = 7"
| "stop_encoded EmergencyEscape = 8"
| "stop_encoded NativeFailure = 9"
| "stop_encoded DisplaysChanged = 10"

definition stop_from_encoded :: "u8 \<Rightarrow> stop_reason option" where
  "stop_from_encoded v =
     (if v = 1 then Some Requested
      else if v = 2 then Some QueueFull
      else if v = 3 then Some QueueContended
      else if v = 4 then Some ConsumerDropped
      else if v = 5 then Some LeaseExpired
      else if v = 6 then Some ClockRegression
      else if v = 7 then Some InvalidInput
      else if v = 8 then Some EmergencyEscape
      else if v = 9 then Some NativeFailure
      else if v = 10 then Some DisplaysChanged
      else None)"

interpretation stop_reason: wire_enum stop_encoded stop_from_encoded
proof
  show "stop_from_encoded (stop_encoded x) = Some x" for x
    by (cases x) (simp_all add: stop_from_encoded_def)
  show "stop_from_encoded w = Some x \<Longrightarrow> stop_encoded x = w" for w x
    by (auto simp: stop_from_encoded_def split: if_splits)
qed

type_synonym capture_stop = "stop_reason option"

definition capture_stop_stop :: "stop_reason \<Rightarrow> capture_stop \<Rightarrow> capture_stop" where
  "capture_stop_stop r s = (case s of None \<Rightarrow> Some r | Some first \<Rightarrow> Some first)"

definition is_stopped :: "capture_stop \<Rightarrow> bool" where
  "is_stopped s = (s \<noteq> None)"

definition stop_ends_session :: "capture_stop \<Rightarrow> bool" where
  "stop_ends_session s = (case s of None \<Rightarrow> False | Some r \<Rightarrow> reason_ends_session r)"

definition stopped_or :: "stop_reason \<Rightarrow> capture_stop \<Rightarrow> stop_reason \<times> capture_stop" where
  "stopped_or r s = (case s of None \<Rightarrow> r | Some first \<Rightarrow> first, capture_stop_stop r s)"

definition request_session_stop ::
    "'loc \<Rightarrow> capture_stop \<Rightarrow> 'loc revocation_state \<Rightarrow> stop_reason option \<times> 'loc revocation_state" where
  "request_session_stop l s session =
     (case s of
        None \<Rightarrow> (None, session)
      | Some r \<Rightarrow>
          if \<not> reason_ends_session r then (None, session)
          else if is_stopping session then (None, session)
          else (Some r, request_stop l session))"

text \<open>The byte: zero before any stop, changed once by compare-and-exchange from zero.\<close>

definition stop_byte :: "capture_stop \<Rightarrow> u8" where
  "stop_byte s = (case s of None \<Rightarrow> 0 | Some r \<Rightarrow> stop_encoded r)"

definition stop_exchange :: "stop_reason \<Rightarrow> u8 \<Rightarrow> u8" where
  "stop_exchange r w = snd (compare_exchange 0 (stop_encoded r) w)"

lemma stop_encoded_neq_0 [simp]: "stop_encoded r \<noteq> 0" "0 \<noteq> stop_encoded r"
  by (cases r; simp)+

interpretation stop_cell: packed_cell stop_byte "\<lambda>w. Some (stop_from_encoded w)" "\<lambda>_. True"
  by unfold_locales (auto simp: stop_byte_def stop_reason.from_to stop_from_encoded_def [of 0] split: option.splits)

lemma stop_byte_inject: "stop_byte s = stop_byte t \<longleftrightarrow> s = t"
  using stop_cell.pack_inject by simp

lemma stop_byte_load: "stop_from_encoded (stop_byte s) = s"
  using stop_cell.unpack_pack [of s] by simp

lemma stop_byte_exchange: "stop_exchange r (stop_byte s) = stop_byte (capture_stop_stop r s)"
  by (cases s) (simp_all add: stop_exchange_def compare_exchange_def stop_byte_def capture_stop_stop_def)

lemma capture_stop_simps [simp]:
  "capture_stop_stop r None = Some r" "capture_stop_stop r (Some q) = Some q"
  "\<not> is_stopped None" "is_stopped (Some q)"
  by (simp_all add: capture_stop_stop_def is_stopped_def)

lemma stop_permanent: "is_stopped s \<Longrightarrow> capture_stop_stop r s = s"
  by (cases s) simp_all

lemma stopped_or_is_stopped [simp]: "is_stopped (capture_stop_stop r s)"
  by (cases s) simp_all

subsection \<open>The suppression lease\<close>

abbreviation (input) MAX_SUPPRESSION_TTL :: duration where "MAX_SUPPRESSION_TTL \<equiv> from_millis 120"

record suppression_lease =
  sl_generation :: u64
  sl_deadline :: "duration option"
  sl_last_now :: duration

type_synonym lease_state = "suppression_lease \<times> capture_stop"

definition lease_new :: "u64 \<Rightarrow> duration \<Rightarrow> suppression_lease" where
  "lease_new generation now = \<lparr>sl_generation = generation, sl_deadline = None, sl_last_now = now\<rparr>"

text \<open>\<open>Err(self.stop.stopped_or(reason))\<close>, and \<open>?\<close> on a step of the lease.\<close>

definition lease_fail :: "stop_reason \<Rightarrow> lease_state \<Rightarrow> (stop_reason + unit) \<times> lease_state" where
  "lease_fail r = (\<lambda>(l, s). let (e, s') = stopped_or r s in (Inl e, (l, s')))"

definition lease_then ::
    "(lease_state \<Rightarrow> (stop_reason + unit) \<times> lease_state) \<Rightarrow>
     (lease_state \<Rightarrow> (stop_reason + unit) \<times> lease_state) \<Rightarrow>
     lease_state \<Rightarrow> (stop_reason + unit) \<times> lease_state" where
  "lease_then f g x = (case f x of (Inl e, x') \<Rightarrow> (Inl e, x') | (Inr _, x') \<Rightarrow> g x')"

definition observe_time :: "duration \<Rightarrow> lease_state \<Rightarrow> (stop_reason + unit) \<times> lease_state" where
  "observe_time now = (\<lambda>(l, s).
     case s of
       Some r \<Rightarrow> (Inl r, (l, s))
     | None \<Rightarrow>
         if now < sl_last_now l then lease_fail ClockRegression (l, s)
         else (Inr (), (l\<lparr>sl_last_now := now\<rparr>, s)))"

definition validate_generation_and_time ::
    "u64 \<Rightarrow> duration \<Rightarrow> lease_state \<Rightarrow> (stop_reason + unit) \<times> lease_state" where
  "validate_generation_and_time generation now = lease_then (observe_time now) (\<lambda>(l, s).
     case s of
       Some r \<Rightarrow> (Inl r, (l, s))
     | None \<Rightarrow>
         if generation \<noteq> sl_generation l then lease_fail InvalidInput (l, s) else (Inr (), (l, s)))"

definition reject_expired :: "duration \<Rightarrow> lease_state \<Rightarrow> (stop_reason + unit) \<times> lease_state" where
  "reject_expired now = (\<lambda>(l, s).
     case s of
       Some r \<Rightarrow> (Inl r, (l, s))
     | None \<Rightarrow>
         if (case sl_deadline l of None \<Rightarrow> False | Some d \<Rightarrow> d \<le> now) then lease_fail LeaseExpired (l, s)
         else (Inr (), (l, s)))"

definition lease_renew ::
    "u64 \<Rightarrow> duration \<Rightarrow> duration \<Rightarrow> lease_state \<Rightarrow> (stop_reason + unit) \<times> lease_state" where
  "lease_renew generation now ttl =
     lease_then (validate_generation_and_time generation now) (lease_then (reject_expired now) (\<lambda>(l, s).
       if ttl = 0 \<or> MAX_SUPPRESSION_TTL < ttl then lease_fail InvalidInput (l, s)
       else case duration_checked_add now ttl of
           None \<Rightarrow> lease_fail InvalidInput (l, s)
         | Some d \<Rightarrow> (Inr (), (l\<lparr>sl_deadline := Some d\<rparr>, s))))"

definition lease_release :: "u64 \<Rightarrow> duration \<Rightarrow> lease_state \<Rightarrow> (stop_reason + unit) \<times> lease_state" where
  "lease_release generation now =
     lease_then (validate_generation_and_time generation now) (lease_then (reject_expired now) (\<lambda>(l, s).
       (Inr (), (l\<lparr>sl_deadline := None\<rparr>, s))))"

definition is_suppressing :: "duration \<Rightarrow> lease_state \<Rightarrow> bool \<times> lease_state" where
  "is_suppressing now x =
     (case observe_time now x of
        (Inl _, x') \<Rightarrow> (False, x')
      | (Inr _, x') \<Rightarrow>
          if is_stopped (snd x') then (False, x')
          else case reject_expired now x' of
              (Inl _, x'') \<Rightarrow> (False, x'')
            | (Inr _, x'') \<Rightarrow> (sl_deadline (fst x'') \<noteq> None, x''))"

lemmas lease_defs =
  observe_time_def validate_generation_and_time_def reject_expired_def lease_renew_def lease_release_def
  is_suppressing_def lease_then_def lease_fail_def stopped_or_def Let_def

text \<open>What may happen to a lease between two of its renewals: readings, and stops by other threads.\<close>

datatype lease_event = LAsk duration | LStop stop_reason

fun lease_event_step :: "lease_event \<Rightarrow> lease_state \<Rightarrow> lease_state" where
  "lease_event_step (LAsk now) x = snd (is_suppressing now x)"
| "lease_event_step (LStop r) x = (fst x, capture_stop_stop r (snd x))"

lemma lease_stopped:
  assumes "snd x = Some r"
  shows "lease_renew g now ttl x = (Inl r, x)" "lease_release g now x = (Inl r, x)"
    "is_suppressing now x = (False, x)" "lease_event_step e x = x"
  using assms by (cases x; cases e; simp add: lease_defs)+

lemma lease_renewed:
  assumes "lease_renew g t ttl x = (Inr (), x')"
  shows "sl_deadline (fst x') = Some (t + ttl)" "sl_last_now (fst x') = t" "ttl \<le> MAX_SUPPRESSION_TTL"
    "snd x' = None" "g = sl_generation (fst x)"
  using assms
  by (cases x; cases "snd x";
      auto simp: lease_defs duration_checked_add_def split: if_splits option.splits)+

lemma lease_quiet_step:
  assumes "sl_deadline (fst x) = Some d" "t \<le> sl_last_now (fst x)"
  shows "sl_deadline (fst (lease_event_step e x)) = Some d \<and> t \<le> sl_last_now (fst (lease_event_step e x))"
  using assms by (cases x; cases "snd x"; cases e) (auto simp: lease_defs)

lemma lease_quiet_run:
  assumes "sl_deadline (fst x) = Some d" "t \<le> sl_last_now (fst x)"
  shows "sl_deadline (fst (fold lease_event_step evs x)) = Some d \<and>
    t \<le> sl_last_now (fst (fold lease_event_step evs x))"
  using assms by (induction evs arbitrary: x) (simp_all add: lease_quiet_step)

lemma is_suppressing_True:
  assumes "is_suppressing now x = (True, y)"
  obtains d where "sl_deadline (fst x) = Some d" "now < d" "sl_last_now (fst x) \<le> now" "snd x = None"
  using assms
  by (cases x; cases "snd x") (auto simp: lease_defs split: if_splits option.splits)

text \<open>
  C37: Suppression is bounded by its lease. After a renewal at time \<open>t\<close> for \<open>ttl\<close> is accepted, and
  after any readings and any stops by other threads, a reading that finds suppression active was
  made at or after \<open>t\<close>, strictly before \<open>t + ttl\<close>, with \<open>ttl\<close> at most 120 milliseconds and no stop
  recorded; and once a stop is recorded, every later renewal and release is refused with its
  reason and no reading finds suppression active again.
\<close>

theorem suppression_bounded:
  assumes "lease_renew g t ttl x = (Inr (), x')"
  shows "(fst (is_suppressing now (fold lease_event_step evs x')) \<longrightarrow>
       t \<le> now \<and> now < t + ttl \<and> ttl \<le> MAX_SUPPRESSION_TTL \<and> snd (fold lease_event_step evs x') = None) \<and>
    (\<forall>r. snd (fold lease_event_step evs x') = Some r \<longrightarrow>
       (\<forall>evs' g' now' ttl'. let x'' = fold lease_event_step (evs @ evs') x' in
          lease_renew g' now' ttl' x'' = (Inl r, x'') \<and> lease_release g' now' x'' = (Inl r, x'') \<and>
          \<not> fst (is_suppressing now' x'')))"
proof (intro conjI allI impI)
  let ?y = "fold lease_event_step evs x'"
  have quiet: "sl_deadline (fst ?y) = Some (t + ttl)" "t \<le> sl_last_now (fst ?y)"
    using lease_quiet_run [of x' "t + ttl" t evs] lease_renewed [OF assms] by simp_all
  assume "fst (is_suppressing now ?y)"
  then obtain z where "is_suppressing now ?y = (True, z)" by (cases "is_suppressing now ?y") auto
  then show "t \<le> now" "now < t + ttl" "ttl \<le> MAX_SUPPRESSION_TTL" "snd ?y = None"
    using quiet lease_renewed(3) [OF assms] by (auto elim!: is_suppressing_True)
next
  fix r evs' g' now' ttl'
  let ?y = "fold lease_event_step evs x'"
  assume r: "snd ?y = Some r"
  have "fold lease_event_step evs' ?y = ?y"
    using lease_stopped(4) [OF r] by (induction evs') simp_all
  then show "let x'' = fold lease_event_step (evs @ evs') x' in
          lease_renew g' now' ttl' x'' = (Inl r, x'') \<and> lease_release g' now' x'' = (Inl r, x'') \<and>
          \<not> fst (is_suppressing now' x'')"
    using lease_stopped(1-3) [OF r] by simp
qed

theorem suppression_bounded_witness:
  "\<not> fst (is_suppressing (from_millis 100)
     (fold lease_event_step [LAsk (from_millis 10)]
       (snd (lease_renew 7 0 (from_millis 100) (lease_new 7 0, None)))))"
proof -
  have r: "lease_renew 7 0 (from_millis 100) (lease_new 7 0, None) =
      (Inr (), snd (lease_renew 7 0 (from_millis 100) (lease_new 7 0, None)))"
    by (simp add: lease_defs lease_new_def duration_checked_add_def duration_max_def)
  show ?thesis using suppression_bounded [OF r, of "from_millis 100" "[LAsk (from_millis 10)]"] by auto
qed

end
