(* ===== verification/Capture_Queue.thy ===== *)
theory Capture_Queue
  imports Capture_Event Capture_Stop
begin

section \<open>The lock-free capture queue: \<open>monhop-core/src/capture.rs\<close>\<close>

text \<open>
  The single-producer single-consumer ring between the native hook and the session. The first part
  has the two operations as the source writes them. The second splits them into their accesses of
  shared memory, in program order, and lets the two threads and any stop interleave. The payload
  words of a slot are written and read in one step each, which the ownership that \<open>publish\<close> hands
  over justifies: no step of one thread touches a slot the other one owns.
\<close>

definition CAPTURE_QUEUE_CAPACITY :: nat where "CAPTURE_QUEUE_CAPACITY = 512"

record queue_slot =
  qs_publish :: u64
  qs_event_header :: u64
  qs_event_payload :: u64
  qs_event_revision :: u64
  qs_routing_revision :: u64
  qs_routing_remote :: u64
  qs_floor_generation :: u64

definition queue_slot_new :: "u64 \<Rightarrow> queue_slot" where
  "queue_slot_new position = \<lparr>qs_publish = position, qs_event_header = 0, qs_event_payload = 0,
     qs_event_revision = 0, qs_routing_revision = 0, qs_routing_remote = 0, qs_floor_generation = 0\<rparr>"

record capture_queue =
  cq_stop :: capture_stop
  cq_slots :: "queue_slot list"

record capture_producer =
  cp_tail :: u64
  cp_routing_revision :: u64
  cp_remote :: bool

record capture_consumer =
  cc_head :: u64

definition capture_channel :: "capture_stop \<Rightarrow> capture_queue \<times> capture_producer \<times> capture_consumer" where
  "capture_channel s =
     (\<lparr>cq_stop = s, cq_slots = map (\<lambda>i. queue_slot_new (of_nat i)) [0..<CAPTURE_QUEUE_CAPACITY]\<rparr>,
      \<lparr>cp_tail = 0, cp_routing_revision = 0, cp_remote = False\<rparr>,
      \<lparr>cc_head = 0\<rparr>)"

definition slot_index :: "u64 \<Rightarrow> nat" where
  "slot_index position = unat position mod CAPTURE_QUEUE_CAPACITY"

definition accepts_route :: "captured_event \<Rightarrow> capture_producer \<Rightarrow> bool" where
  "accepts_route r p =
     (case ce_event r of
        RouteChanged remote revision \<Rightarrow>
          cp_routing_revision p < revision \<and> ce_routing_revision r = revision \<and> ce_remote r = remote
      | _ \<Rightarrow> ce_routing_revision r = cp_routing_revision p \<and> ce_remote r = cp_remote p)"

text \<open>The six relaxed stores of a record, and the local bookkeeping after its publication.\<close>

definition slot_store :: "captured_event \<Rightarrow> queue_slot \<Rightarrow> queue_slot" where
  "slot_store r slot =
     (let e = encode_event (ce_event r)
      in slot\<lparr>qs_event_header := enc_header e, qs_event_payload := enc_payload e,
              qs_event_revision := enc_revision e, qs_routing_revision := ce_routing_revision r,
              qs_routing_remote := of_bool (ce_remote r), qs_floor_generation := ce_floor_generation r\<rparr>)"

definition slot_load :: "queue_slot \<Rightarrow> captured_event option" where
  "slot_load slot = captured_decode (qs_event_header slot) (qs_event_payload slot) (qs_event_revision slot)
     (qs_routing_revision slot) (qs_routing_remote slot) (qs_floor_generation slot)"

definition producer_advance :: "captured_event \<Rightarrow> capture_producer \<Rightarrow> capture_producer" where
  "producer_advance r p =
     (case ce_event r of
        RouteChanged remote revision \<Rightarrow>
          p\<lparr>cp_tail := cp_tail p + 1, cp_remote := remote, cp_routing_revision := revision\<rparr>
      | _ \<Rightarrow> p\<lparr>cp_tail := cp_tail p + 1\<rparr>)"

definition update_slot :: "u64 \<Rightarrow> (queue_slot \<Rightarrow> queue_slot) \<Rightarrow> capture_queue \<Rightarrow> capture_queue" where
  "update_slot position f q =
     q\<lparr>cq_slots := (cq_slots q)[slot_index position := f (cq_slots q ! slot_index position)]\<rparr>"

definition queue_fail :: "stop_reason \<Rightarrow> capture_queue \<Rightarrow> stop_reason \<times> capture_queue" where
  "queue_fail r q = (let (e, s) = stopped_or r (cq_stop q) in (e, q\<lparr>cq_stop := s\<rparr>))"

definition try_push_tagged ::
    "captured_event \<Rightarrow> capture_producer \<times> capture_queue
     \<Rightarrow> (stop_reason + unit) \<times> capture_producer \<times> capture_queue" where
  "try_push_tagged r = (\<lambda>(p, q).
     case cq_stop q of
       Some reason \<Rightarrow> (Inl reason, p, q)
     | None \<Rightarrow>
         if \<not> capture_event_is_valid (ce_event r) \<or> \<not> accepts_route r p then
           (let (e, q') = queue_fail InvalidInput q in (Inl e, p, q'))
         else case cq_stop q of
             Some reason \<Rightarrow> (Inl reason, p, q)
           | None \<Rightarrow>
               let position = cp_tail p in
               if qs_publish (cq_slots q ! slot_index position) \<noteq> position then
                 (let (e, q') = queue_fail QueueFull q in (Inl e, p, q'))
               else
                 let q1 = update_slot position (slot_store r) q;
                     q2 = update_slot position (\<lambda>slot. slot\<lparr>qs_publish := position + 1\<rparr>) q1
                 in (case cq_stop q2 of None \<Rightarrow> Inr () | Some reason \<Rightarrow> Inl reason,
                     producer_advance r p, q2))"

definition try_push ::
    "capture_event \<Rightarrow> capture_producer \<times> capture_queue
     \<Rightarrow> (stop_reason + unit) \<times> capture_producer \<times> capture_queue" where
  "try_push e = try_push_tagged
     \<lparr>ce_event = e, ce_routing_revision = 0, ce_remote = False, ce_floor_generation = 0\<rparr>"

definition try_pop_tagged ::
    "capture_consumer \<times> capture_queue
     \<Rightarrow> (stop_reason + captured_event option) \<times> capture_consumer \<times> capture_queue" where
  "try_pop_tagged = (\<lambda>(c, q).
     case cq_stop q of
       Some reason \<Rightarrow> (Inl reason, c, q)
     | None \<Rightarrow>
         let position = cc_head c in
         if qs_publish (cq_slots q ! slot_index position) \<noteq> position + 1 then (Inr None, c, q)
         else
           let r = slot_load (cq_slots q ! slot_index position);
               q1 = update_slot position (\<lambda>slot. slot\<lparr>qs_publish := position + of_nat CAPTURE_QUEUE_CAPACITY\<rparr>) q;
               c1 = c\<lparr>cc_head := position + 1\<rparr>
           in case r of
                None \<Rightarrow> (let (e, q2) = queue_fail NativeFailure q1 in (Inl e, c1, q2))
              | Some e \<Rightarrow> (case cq_stop q1 of None \<Rightarrow> Inr (Some e) | Some reason \<Rightarrow> Inl reason, c1, q1))"

definition try_pop ::
    "capture_consumer \<times> capture_queue
     \<Rightarrow> (stop_reason + capture_event option) \<times> capture_consumer \<times> capture_queue" where
  "try_pop x = (case try_pop_tagged x of
       (Inl e, x') \<Rightarrow> (Inl e, x')
     | (Inr r, x') \<Rightarrow> (Inr (map_option ce_event r), x'))"

definition consumer_drop :: "capture_queue \<Rightarrow> capture_queue" where
  "consumer_drop q = q\<lparr>cq_stop := capture_stop_stop ConsumerDropped (cq_stop q)\<rparr>"

subsection \<open>The two threads, access by access\<close>

datatype producer_pc =
    PIdle
  | PAdmitted captured_event  \<comment> \<open>valid and on the producer's route\<close>
  | PRunning captured_event  \<comment> \<open>the second look at the stop found none\<close>
  | PClaimed captured_event  \<comment> \<open>the slot was free\<close>
  | PWritten captured_event
  | PPublished
  | PRefusing stop_reason

datatype consumer_pc =
    CIdle
  | CRunning  \<comment> \<open>the first look at the stop found none\<close>
  | CClaimed  \<comment> \<open>the slot was published\<close>
  | CRead "captured_event option"
  | CFreed "captured_event option"

text \<open>
  The logs are what was published, what was freed and what \<open>try_pop_tagged\<close> returned.
\<close>

record queue_system =
  qy_queue :: capture_queue
  qy_producer :: capture_producer
  qy_consumer :: capture_consumer
  qy_ppc :: producer_pc
  qy_cpc :: consumer_pc
  qy_sent :: "captured_event list"
  qy_freed :: nat
  qy_delivered :: "captured_event list"

inductive cq_step :: "queue_system \<Rightarrow> queue_system \<Rightarrow> bool" where
  push_refused: "qy_ppc s = PIdle \<Longrightarrow> cq_stop (qy_queue s) = Some reason \<Longrightarrow> cq_step s s"
| push_invalid: "qy_ppc s = PIdle \<Longrightarrow> cq_stop (qy_queue s) = None \<Longrightarrow>
    \<not> (capture_event_is_valid (ce_event r) \<and> accepts_route r (qy_producer s)) \<Longrightarrow>
    cq_step s (s\<lparr>qy_ppc := PRefusing InvalidInput\<rparr>)"
| push_admit: "qy_ppc s = PIdle \<Longrightarrow> cq_stop (qy_queue s) = None \<Longrightarrow>
    capture_event_is_valid (ce_event r) \<Longrightarrow> accepts_route r (qy_producer s) \<Longrightarrow>
    cq_step s (s\<lparr>qy_ppc := PAdmitted r\<rparr>)"
| push_recheck: "qy_ppc s = PAdmitted r \<Longrightarrow>
    cq_step s (s\<lparr>qy_ppc := (if cq_stop (qy_queue s) = None then PRunning r else PIdle)\<rparr>)"
| push_claim: "qy_ppc s = PRunning r \<Longrightarrow> position = cp_tail (qy_producer s) \<Longrightarrow>
    cq_step s (s\<lparr>qy_ppc :=
      (if qs_publish (cq_slots (qy_queue s) ! slot_index position) \<noteq> position
       then PRefusing QueueFull else PClaimed r)\<rparr>)"
| push_refuse: "qy_ppc s = PRefusing reason \<Longrightarrow>
    cq_step s (s\<lparr>qy_ppc := PIdle, qy_queue := snd (queue_fail reason (qy_queue s))\<rparr>)"
| push_write: "qy_ppc s = PClaimed r \<Longrightarrow>
    cq_step s (s\<lparr>qy_ppc := PWritten r,
      qy_queue := update_slot (cp_tail (qy_producer s)) (slot_store r) (qy_queue s)\<rparr>)"
| push_publish: "qy_ppc s = PWritten r \<Longrightarrow> position = cp_tail (qy_producer s) \<Longrightarrow>
    cq_step s (s\<lparr>qy_ppc := PPublished,
      qy_queue := update_slot position (\<lambda>slot. slot\<lparr>qs_publish := position + 1\<rparr>) (qy_queue s),
      qy_producer := producer_advance r (qy_producer s), qy_sent := qy_sent s @ [r]\<rparr>)"
| push_finish: "qy_ppc s = PPublished \<Longrightarrow> cq_step s (s\<lparr>qy_ppc := PIdle\<rparr>)"
| pop_begin: "qy_cpc s = CIdle \<Longrightarrow>
    cq_step s (s\<lparr>qy_cpc := (if cq_stop (qy_queue s) = None then CRunning else CIdle)\<rparr>)"
| pop_claim: "qy_cpc s = CRunning \<Longrightarrow> position = cc_head (qy_consumer s) \<Longrightarrow>
    cq_step s (s\<lparr>qy_cpc :=
      (if qs_publish (cq_slots (qy_queue s) ! slot_index position) \<noteq> position + 1 then CIdle else CClaimed)\<rparr>)"
| pop_read: "qy_cpc s = CClaimed \<Longrightarrow>
    cq_step s (s\<lparr>qy_cpc := CRead (slot_load (cq_slots (qy_queue s) ! slot_index (cc_head (qy_consumer s))))\<rparr>)"
| pop_free: "qy_cpc s = CRead e \<Longrightarrow> position = cc_head (qy_consumer s) \<Longrightarrow>
    cq_step s (s\<lparr>qy_cpc := CFreed e,
      qy_queue := update_slot position
        (\<lambda>slot. slot\<lparr>qs_publish := position + of_nat CAPTURE_QUEUE_CAPACITY\<rparr>) (qy_queue s),
      qy_consumer := (qy_consumer s)\<lparr>cc_head := position + 1\<rparr>, qy_freed := qy_freed s + 1\<rparr>)"
| pop_broken: "qy_cpc s = CFreed None \<Longrightarrow>
    cq_step s (s\<lparr>qy_cpc := CIdle, qy_queue := snd (queue_fail NativeFailure (qy_queue s))\<rparr>)"
| pop_deliver: "qy_cpc s = CFreed (Some e) \<Longrightarrow> cq_stop (qy_queue s) = None \<Longrightarrow>
    cq_step s (s\<lparr>qy_cpc := CIdle, qy_delivered := qy_delivered s @ [e]\<rparr>)"
| pop_stopped: "qy_cpc s = CFreed (Some e) \<Longrightarrow> cq_stop (qy_queue s) = Some reason \<Longrightarrow>
    cq_step s (s\<lparr>qy_cpc := CIdle\<rparr>)"
| stopped: "cq_step s (s\<lparr>qy_queue := (qy_queue s)
    \<lparr>cq_stop := capture_stop_stop reason (cq_stop (qy_queue s))\<rparr>\<rparr>)"

definition cq_initial :: queue_system where
  "cq_initial = (let (q, p, c) = capture_channel None in
     \<lparr>qy_queue = q, qy_producer = p, qy_consumer = c, qy_ppc = PIdle, qy_cpc = CIdle,
      qy_sent = [], qy_freed = 0, qy_delivered = []\<rparr>)"

definition cq_reachable :: "queue_system \<Rightarrow> bool" where
  "cq_reachable s = cq_step\<^sup>*\<^sup>* cq_initial s"

subsection \<open>The ring holds exactly the records in flight\<close>

definition stored :: "captured_event \<Rightarrow> captured_event" where
  "stored r = r\<lparr>ce_event := stored_event (ce_event r)\<rparr>"

definition record_ok :: "captured_event \<Rightarrow> capture_producer \<Rightarrow> bool" where
  "record_ok r p = (capture_event_is_valid (ce_event r) \<and> accepts_route r p)"

lemma slot_load_store:
  assumes "record_ok r p"
  shows "slot_load (slot_store r slot) = Some (stored r)"
proof -
  have tag: "ce_remote r = remote \<and> ce_routing_revision r = revision"
    if "ce_event r = RouteChanged remote revision" for remote revision
    using assms that by (simp add: record_ok_def accepts_route_def)
  show ?thesis
    using assms tag
    by (cases "ce_event r")
      (simp_all add: slot_load_def slot_store_def captured_decode_def decode_encode_event Let_def record_ok_def
        stored_def del: encode_event.simps split: capture_event.splits)
qed

lemma slot_load_publish [simp]: "slot_load (slot\<lparr>qs_publish := v\<rparr>) = slot_load slot"
  by (simp add: slot_load_def)

lemma slot_store_publish [simp]: "qs_publish (slot_store r slot) = qs_publish slot"
  by (simp add: slot_store_def Let_def)

lemma slot_index_of_nat: "slot_index (of_nat n) = n mod 512"
proof -
  have "n mod 2 ^ 64 mod 512 = n mod 512" by (rule mod_mod_cancel) simp
  then show ?thesis by (simp add: slot_index_def CAPTURE_QUEUE_CAPACITY_def unat_of_nat take_bit_eq_mod)
qed

lemma mod_window:
  assumes "F \<le> n" "n < F + 512" "F \<le> m" "m < F + 512"
  shows "n mod 512 = m mod 512 \<longleftrightarrow> n = (m :: nat)"
proof
  have *: "a = b" if "a mod 512 = b mod 512" "a \<le> b" "b < a + 512" for a b :: nat
  proof -
    have "512 dvd b - a" using that by (simp add: mod_eq_dvd_iff_nat [symmetric])
    then show ?thesis using that by (auto dest: dvd_imp_le)
  qed
  assume "n mod 512 = m mod 512"
  then show "n = m" using * [of n m] * [of m n] assms by (cases "n \<le> m") auto
qed simp

lemma position_eq:
  assumes "a < b + 2 ^ 64" "b < a + 2 ^ 64"
  shows "(of_nat a :: u64) = of_nat b \<longleftrightarrow> a = b"
proof
  assume eq: "(of_nat a :: u64) = of_nat b"
  have *: "x = y" if "(of_nat x :: u64) = of_nat y" "x \<le> y" "y < x + 2 ^ 64" for x y
  proof -
    have "x mod 2 ^ 64 = y mod 2 ^ 64" using that(1) by (simp add: word_of_nat_eq_iff take_bit_eq_mod)
    then have "2 ^ 64 dvd y - x" using that(2) by (simp add: mod_eq_dvd_iff_nat [symmetric])
    then show ?thesis using that by (auto dest: dvd_imp_le)
  qed
  show "a = b" using * [of a b] * [of b a] eq assms by (cases "a \<le> b") auto
qed simp

definition ring_inv :: "capture_queue \<Rightarrow> captured_event list \<Rightarrow> nat \<Rightarrow> bool" where
  "ring_inv q sent F =
     (length (cq_slots q) = 512 \<and> F \<le> length sent \<and> length sent \<le> F + 512 \<and>
      (\<forall>n. F \<le> n \<and> n < length sent \<longrightarrow>
         qs_publish (cq_slots q ! (n mod 512)) = of_nat (n + 1) \<and>
         slot_load (cq_slots q ! (n mod 512)) = Some (stored (sent ! n))) \<and>
      (\<forall>n. length sent \<le> n \<and> n < F + 512 \<longrightarrow> qs_publish (cq_slots q ! (n mod 512)) = of_nat n))"

lemma ring_invD:
  assumes "ring_inv q sent F"
  shows "length (cq_slots q) = 512" "F \<le> length sent" "length sent \<le> F + 512"
    "F \<le> n \<Longrightarrow> n < length sent \<Longrightarrow> qs_publish (cq_slots q ! (n mod 512)) = of_nat (n + 1)"
    "F \<le> n \<Longrightarrow> n < length sent \<Longrightarrow> slot_load (cq_slots q ! (n mod 512)) = Some (stored (sent ! n))"
    "length sent \<le> n \<Longrightarrow> n < F + 512 \<Longrightarrow> qs_publish (cq_slots q ! (n mod 512)) = of_nat n"
  using assms by (auto simp: ring_inv_def)

lemma updated_slot:
  assumes "length (cq_slots q) = 512" "F \<le> k" "k < F + 512" "F \<le> n" "n < F + 512"
  shows "cq_slots (update_slot (of_nat k) f q) ! (n mod 512) =
    (if n = k then f (cq_slots q ! (k mod 512)) else cq_slots q ! (n mod 512))"
  using assms mod_window [of F n k] by (auto simp: update_slot_def slot_index_of_nat)

lemma updated_length: "length (cq_slots (update_slot k f q)) = length (cq_slots q)"
  by (simp add: update_slot_def)

lemma ring_claim:
  assumes "ring_inv q sent F"
  shows "qs_publish (cq_slots q ! slot_index (of_nat (length sent))) = of_nat (length sent) \<longleftrightarrow>
    length sent < F + 512"
proof (cases "length sent < F + 512")
  case True
  then show ?thesis using ring_invD [OF assms] by (simp add: slot_index_of_nat)
next
  case False
  then have N: "length sent = F + 512" using ring_invD [OF assms] by simp
  then have "qs_publish (cq_slots q ! (F mod 512)) = of_nat (F + 1)" using ring_invD(4) [OF assms] by auto
  moreover have "(of_nat (F + 1) :: u64) \<noteq> of_nat (F + 512)" by (subst position_eq) auto
  ultimately show ?thesis unfolding N slot_index_of_nat by simp
qed

lemma ring_pop_claim:
  assumes "ring_inv q sent F"
  shows "qs_publish (cq_slots q ! slot_index (of_nat F)) = of_nat F + 1 \<longleftrightarrow> F < length sent"
proof (cases "F < length sent")
  case True
  then show ?thesis using ring_invD(4) [OF assms, of F] by (simp add: slot_index_of_nat)
next
  case False
  then show ?thesis using ring_invD(2) [OF assms] ring_invD(6) [OF assms, of F] by (simp add: slot_index_of_nat)
qed

lemma ring_write:
  assumes "ring_inv q sent F" "length sent < F + 512"
  shows "ring_inv (update_slot (of_nat (length sent)) (slot_store r) q) sent F"
  using ring_invD [OF assms(1)] assms(2)
  by (auto simp: ring_inv_def updated_length updated_slot [where F = F])

lemma ring_publish:
  assumes "ring_inv q sent F" "length sent < F + 512"
    and "slot_load (cq_slots q ! (length sent mod 512)) = Some (stored r)"
  shows "ring_inv (update_slot (of_nat (length sent))
    (\<lambda>slot. slot\<lparr>qs_publish := of_nat (length sent) + 1\<rparr>) q) (sent @ [r]) F"
  using ring_invD [OF assms(1)] assms(2,3)
  by (auto simp: ring_inv_def updated_length updated_slot [where F = F] nth_append)

lemma ring_free:
  assumes "ring_inv q sent F" "F < length sent"
  shows "ring_inv (update_slot (of_nat F)
    (\<lambda>slot. slot\<lparr>qs_publish := of_nat F + of_nat CAPTURE_QUEUE_CAPACITY\<rparr>) q) sent (F + 1)"
    (is "ring_inv ?q sent (F + 1)")
proof -
  note inv = ring_invD [OF assms(1)]
  have slot: "cq_slots ?q ! (n mod 512) = cq_slots q ! (n mod 512)" if "F < n" "n < F + 512" for n
    using that inv(1) by (simp add: updated_slot [where F = F])
  have "cq_slots ?q ! ((F + 512) mod 512) =
      (cq_slots q ! (F mod 512))\<lparr>qs_publish := of_nat F + of_nat CAPTURE_QUEUE_CAPACITY\<rparr>"
    using inv(1) updated_slot [of q F F F] by simp
  then have freed: "qs_publish (cq_slots ?q ! ((F + 512) mod 512)) = of_nat (F + 512)"
    by (simp add: CAPTURE_QUEUE_CAPACITY_def)
  have "qs_publish (cq_slots ?q ! (n mod 512)) = of_nat n" if "length sent \<le> n" "n < F + 1 + 512" for n
  proof (cases "n = F + 512")
    case False
    then show ?thesis using slot [of n] inv(6) [of n] that assms(2) by simp
  qed (use freed in simp)
  then show ?thesis
    using inv assms(2) slot unfolding ring_inv_def updated_length by auto
qed

subsection \<open>The invariant of the two threads\<close>

text \<open>The route the queue has reached: that of the last barrier, local at revision zero before any.\<close>

definition route_after :: "captured_event list \<Rightarrow> u64 \<times> bool" where
  "route_after rs = fold (\<lambda>r route. case ce_event r of
     RouteChanged remote revision \<Rightarrow> (revision, remote) | _ \<Rightarrow> route) rs (0, False)"

definition tagged_ok :: "u64 \<times> bool \<Rightarrow> captured_event \<Rightarrow> bool" where
  "tagged_ok route r =
     (case ce_event r of
        RouteChanged remote revision \<Rightarrow>
          fst route < revision \<and> ce_routing_revision r = revision \<and> ce_remote r = remote
      | _ \<Rightarrow> (ce_routing_revision r, ce_remote r) = route)"

definition routes_ok :: "captured_event list \<Rightarrow> bool" where
  "routes_ok rs = (\<forall>n < length rs. tagged_ok (route_after (take n rs)) (rs ! n))"

lemma route_after_snoc:
  "route_after (rs @ [r]) = (case ce_event r of
     RouteChanged remote revision \<Rightarrow> (revision, remote) | _ \<Rightarrow> route_after rs)"
  by (cases "ce_event r") (simp_all add: route_after_def)

lemma routes_ok_snoc: "routes_ok (rs @ [r]) \<longleftrightarrow> routes_ok rs \<and> tagged_ok (route_after rs) r"
  by (auto simp: routes_ok_def nth_append less_Suc_eq)

lemma accepts_route_iff:
  "accepts_route r p \<longleftrightarrow> tagged_ok (cp_routing_revision p, cp_remote p) r"
  by (simp add: accepts_route_def tagged_ok_def split: capture_event.splits)

lemma producer_advance_sel [simp]:
  "cp_tail (producer_advance r p) = cp_tail p + 1"
  "(cp_routing_revision (producer_advance r p), cp_remote (producer_advance r p)) =
     (case ce_event r of RouteChanged remote revision \<Rightarrow> (revision, remote)
      | _ \<Rightarrow> (cp_routing_revision p, cp_remote p))"
  by (simp_all add: producer_advance_def split: capture_event.splits)

fun ppc_inv :: "queue_system \<Rightarrow> producer_pc \<Rightarrow> bool" where
  "ppc_inv s (PAdmitted r) = record_ok r (qy_producer s)"
| "ppc_inv s (PRunning r) = record_ok r (qy_producer s)"
| "ppc_inv s (PClaimed r) = (record_ok r (qy_producer s) \<and> length (qy_sent s) < qy_freed s + 512)"
| "ppc_inv s (PWritten r) = (record_ok r (qy_producer s) \<and> length (qy_sent s) < qy_freed s + 512 \<and>
     slot_load (cq_slots (qy_queue s) ! (length (qy_sent s) mod 512)) = Some (stored r))"
| "ppc_inv s _ = True"

fun cpc_inv :: "queue_system \<Rightarrow> consumer_pc \<Rightarrow> bool" where
  "cpc_inv s CClaimed = (qy_freed s < length (qy_sent s))"
| "cpc_inv s (CRead e) = (qy_freed s < length (qy_sent s) \<and> e = Some (stored (qy_sent s ! qy_freed s)))"
| "cpc_inv s (CFreed e) = (0 < qy_freed s \<and> e = Some (stored (qy_sent s ! (qy_freed s - 1))))"
| "cpc_inv s _ = True"

definition owed :: "consumer_pc \<Rightarrow> nat" where
  "owed c = (case c of CFreed _ \<Rightarrow> 1 | _ \<Rightarrow> 0)"

definition log_inv :: "queue_system \<Rightarrow> bool" where
  "log_inv s = (qy_delivered s = map stored (take (length (qy_delivered s)) (qy_sent s)) \<and>
     length (qy_delivered s) + owed (qy_cpc s) \<le> qy_freed s \<and>
     (cq_stop (qy_queue s) = None \<longrightarrow> length (qy_delivered s) + owed (qy_cpc s) = qy_freed s))"

definition cq_inv :: "queue_system \<Rightarrow> bool" where
  "cq_inv s = (ring_inv (qy_queue s) (qy_sent s) (qy_freed s) \<and>
     cp_tail (qy_producer s) = of_nat (length (qy_sent s)) \<and>
     cc_head (qy_consumer s) = of_nat (qy_freed s) \<and>
     route_after (qy_sent s) = (cp_routing_revision (qy_producer s), cp_remote (qy_producer s)) \<and>
     routes_ok (qy_sent s) \<and> ppc_inv s (qy_ppc s) \<and> cpc_inv s (qy_cpc s) \<and> log_inv s)"

lemma ring_inv_stop [simp]: "ring_inv (q\<lparr>cq_stop := x\<rparr>) sent F = ring_inv q sent F"
  by (simp add: ring_inv_def)

lemma queue_fail_slots [simp]:
  "snd (queue_fail r q) = q\<lparr>cq_stop := capture_stop_stop r (cq_stop q)\<rparr>"
  by (simp add: queue_fail_def stopped_or_def)

lemma ppc_inv_stop [simp]:
  "ppc_inv (s\<lparr>qy_queue := (qy_queue s)\<lparr>cq_stop := x\<rparr>\<rparr>) c = ppc_inv s c"
  "ppc_inv (s\<lparr>qy_ppc := p\<rparr>) c = ppc_inv s c" "ppc_inv (s\<lparr>qy_cpc := d\<rparr>) c = ppc_inv s c"
  "ppc_inv (s\<lparr>qy_delivered := l\<rparr>) c = ppc_inv s c"
  by (cases c; simp)+

lemma cpc_inv_stop [simp]:
  "cpc_inv (s\<lparr>qy_queue := q\<rparr>) c = cpc_inv s c"
  "cpc_inv (s\<lparr>qy_ppc := p\<rparr>) c = cpc_inv s c" "cpc_inv (s\<lparr>qy_cpc := d\<rparr>) c = cpc_inv s c"
  "cpc_inv (s\<lparr>qy_delivered := l\<rparr>) c = cpc_inv s c"
  by (cases c; simp)+

lemma cq_inv_initial: "cq_inv cq_initial"
proof -
  have slots: "map (\<lambda>i. queue_slot_new (of_nat i)) [0..<512] ! (n mod 512) = queue_slot_new (of_nat n)"
    if "n < 512" for n
    using that by simp
  show ?thesis
    using slots
    by (simp add: cq_inv_def cq_initial_def capture_channel_def ring_inv_def CAPTURE_QUEUE_CAPACITY_def
        queue_slot_new_def route_after_def routes_ok_def log_inv_def owed_def)
qed

lemma cq_inv_write:
  assumes "cq_inv s" "qy_ppc s = PClaimed r"
  shows "cq_inv (s\<lparr>qy_ppc := PWritten r,
      qy_queue := update_slot (cp_tail (qy_producer s)) (slot_store r) (qy_queue s)\<rparr>)"
proof -
  have inv: "ring_inv (qy_queue s) (qy_sent s) (qy_freed s)" "length (qy_sent s) < qy_freed s + 512"
    "record_ok r (qy_producer s)" "cp_tail (qy_producer s) = of_nat (length (qy_sent s))"
    using assms by (simp_all add: cq_inv_def)
  have "slot_load (cq_slots (update_slot (of_nat (length (qy_sent s))) (slot_store r) (qy_queue s)) !
      (length (qy_sent s) mod 512)) = Some (stored r)"
    using inv ring_invD [OF inv(1)] by (simp add: updated_slot [where F = "qy_freed s"] slot_load_store)
  then show ?thesis
    using assms inv ring_write [OF inv(1,2), of r] by (simp add: cq_inv_def log_inv_def update_slot_def)
qed

lemma cq_inv_publish:
  assumes "cq_inv s" "qy_ppc s = PWritten r"
  shows "cq_inv (s\<lparr>qy_ppc := PPublished,
      qy_queue := update_slot (cp_tail (qy_producer s))
        (\<lambda>slot. slot\<lparr>qs_publish := cp_tail (qy_producer s) + 1\<rparr>) (qy_queue s),
      qy_producer := producer_advance r (qy_producer s), qy_sent := qy_sent s @ [r]\<rparr>)"
proof -
  have inv: "ring_inv (qy_queue s) (qy_sent s) (qy_freed s)" "length (qy_sent s) < qy_freed s + 512"
    "slot_load (cq_slots (qy_queue s) ! (length (qy_sent s) mod 512)) = Some (stored r)"
    "cp_tail (qy_producer s) = of_nat (length (qy_sent s))"
    "tagged_ok (route_after (qy_sent s)) r" "routes_ok (qy_sent s)" "log_inv s" "cpc_inv s (qy_cpc s)"
    "route_after (qy_sent s) = (cp_routing_revision (qy_producer s), cp_remote (qy_producer s))"
    using assms by (simp_all add: cq_inv_def record_ok_def accepts_route_iff)
  have "qy_freed s \<le> length (qy_sent s)" using ring_invD(2) [OF inv(1)] .
  then have log: "take (length (qy_delivered s)) (qy_sent s @ [r]) = take (length (qy_delivered s)) (qy_sent s)"
    using inv(7) by (simp add: log_inv_def)
  have cpc: "cpc_inv (s\<lparr>qy_ppc := PPublished, qy_queue := q, qy_producer := p, qy_sent := qy_sent s @ [r]\<rparr>) (qy_cpc s)" for p q
    using inv(8) ring_invD(2) [OF inv(1)] by (cases "qy_cpc s") (auto simp: nth_append)
  have route: "route_after (qy_sent s @ [r]) = (cp_routing_revision (producer_advance r (qy_producer s)),
      cp_remote (producer_advance r (qy_producer s)))"
    by (simp only: producer_advance_sel(2) route_after_snoc inv(9))
  show ?thesis
    using assms(1) inv log cpc route ring_publish [OF inv(1-3)]
    by (simp add: cq_inv_def log_inv_def routes_ok_snoc update_slot_def)
qed

lemma cq_inv_free:
  assumes "cq_inv s" "qy_cpc s = CRead e"
  shows "cq_inv (s\<lparr>qy_cpc := CFreed e,
      qy_queue := update_slot (cc_head (qy_consumer s))
        (\<lambda>slot. slot\<lparr>qs_publish := cc_head (qy_consumer s) + of_nat CAPTURE_QUEUE_CAPACITY\<rparr>) (qy_queue s),
      qy_consumer := (qy_consumer s)\<lparr>cc_head := cc_head (qy_consumer s) + 1\<rparr>, qy_freed := qy_freed s + 1\<rparr>)"
proof -
  have inv: "ring_inv (qy_queue s) (qy_sent s) (qy_freed s)" "qy_freed s < length (qy_sent s)"
    "e = Some (stored (qy_sent s ! qy_freed s))" "cc_head (qy_consumer s) = of_nat (qy_freed s)"
    "ppc_inv s (qy_ppc s)" "log_inv s"
    using assms by (simp_all add: cq_inv_def)
  let ?q = "update_slot (of_nat (qy_freed s))
    (\<lambda>slot. slot\<lparr>qs_publish := of_nat (qy_freed s) + of_nat CAPTURE_QUEUE_CAPACITY\<rparr>) (qy_queue s)"
  have "ppc_inv (s\<lparr>qy_cpc := CFreed e, qy_queue := ?q, qy_consumer := c, qy_freed := qy_freed s + 1\<rparr>) (qy_ppc s)" for c
    using inv(5) ring_invD [OF inv(1)] inv(2)
    by (cases "qy_ppc s") (auto simp: updated_slot [where F = "qy_freed s"])
  then show ?thesis
    using assms inv ring_free [OF inv(1,2)]
    by (simp add: cq_inv_def log_inv_def owed_def update_slot_def add.commute)
qed

lemma cq_inv_read:
  assumes "cq_inv s" "qy_cpc s = CClaimed"
  shows "cq_inv (s\<lparr>qy_cpc := CRead (slot_load (cq_slots (qy_queue s) ! slot_index (cc_head (qy_consumer s))))\<rparr>)"
  using assms ring_invD(5) [of "qy_queue s" "qy_sent s" "qy_freed s" "qy_freed s"]
  by (simp add: cq_inv_def log_inv_def owed_def slot_index_of_nat)

lemma cq_inv_deliver:
  assumes "cq_inv s" "qy_cpc s = CFreed (Some e)" "cq_stop (qy_queue s) = None"
  shows "cq_inv (s\<lparr>qy_cpc := CIdle, qy_delivered := qy_delivered s @ [e]\<rparr>)"
proof -
  have D: "qy_freed s = length (qy_delivered s) + 1" and F: "qy_freed s \<le> length (qy_sent s)"
    using assms ring_invD(2) [of "qy_queue s" "qy_sent s" "qy_freed s"]
    by (simp_all add: cq_inv_def log_inv_def owed_def)
  moreover have "e = stored (qy_sent s ! (qy_freed s - 1))" using assms by (simp add: cq_inv_def)
  ultimately have "map stored (take (Suc (length (qy_delivered s))) (qy_sent s)) =
      map stored (take (length (qy_delivered s)) (qy_sent s)) @ [e]"
    by (simp add: take_Suc_conv_app_nth)
  then show ?thesis
    using assms D by (simp add: cq_inv_def log_inv_def owed_def)
qed

lemma cq_inv_stop:
  assumes "cq_inv s"
  shows "cq_inv (s\<lparr>qy_queue := (qy_queue s)\<lparr>cq_stop := capture_stop_stop reason (cq_stop (qy_queue s))\<rparr>\<rparr>)"
  using assms by (cases "cq_stop (qy_queue s)") (simp_all add: cq_inv_def log_inv_def)

lemma cq_inv_ppc: "cq_inv s \<Longrightarrow> ppc_inv s c \<Longrightarrow> cq_inv (s\<lparr>qy_ppc := c\<rparr>)"
  by (simp add: cq_inv_def log_inv_def)

lemma cq_inv_cpc: "cq_inv s \<Longrightarrow> cpc_inv s c \<Longrightarrow> owed c \<le> owed (qy_cpc s) \<Longrightarrow>
    (cq_stop (qy_queue s) = None \<Longrightarrow> owed c = owed (qy_cpc s)) \<Longrightarrow> cq_inv (s\<lparr>qy_cpc := c\<rparr>)"
  by (auto simp: cq_inv_def log_inv_def)

lemma cq_inv_step: "cq_step s t \<Longrightarrow> cq_inv s \<Longrightarrow> cq_inv t"
proof (induction rule: cq_step.induct)
  case (push_admit s r)
  then show ?case by (intro cq_inv_ppc) (simp_all add: record_ok_def)
next
  case (push_recheck s r)
  then show ?case by (intro cq_inv_ppc) (simp_all add: cq_inv_def)
next
  case (push_claim s r position)
  then show ?case using ring_claim [of "qy_queue s" "qy_sent s" "qy_freed s"]
    by (intro cq_inv_ppc) (simp_all add: cq_inv_def)
next
  case (pop_begin s)
  then show ?case by (intro cq_inv_cpc) (simp_all add: owed_def)
next
  case (pop_claim s position)
  then show ?case using ring_pop_claim [of "qy_queue s" "qy_sent s" "qy_freed s"]
    by (intro cq_inv_cpc) (simp_all add: cq_inv_def owed_def)
next
  case (push_refuse s reason)
  then show ?case using cq_inv_stop [OF cq_inv_ppc [of s PIdle], of reason] by simp
next
  case (pop_free s e position)
  then show ?case using cq_inv_free by simp
next
  case (pop_broken s)
  then show ?case by (simp add: cq_inv_def)
next
  case (pop_stopped s e reason)
  then show ?case by (intro cq_inv_cpc) (simp_all add: owed_def)
qed (simp_all add: cq_inv_ppc cq_inv_write cq_inv_publish cq_inv_read cq_inv_deliver cq_inv_stop)

lemma cq_reachable_inv: "cq_reachable s \<Longrightarrow> cq_inv s"
  unfolding cq_reachable_def
  by (induction rule: rtranclp_induct) (auto simp: cq_inv_initial intro: cq_inv_step)

subsection \<open>The operations are runs of these steps\<close>

lemma cq_stepI: "cq_step s t \<Longrightarrow> t = t' \<Longrightarrow> cq_step s t'"
  by simp

lemma push_run_invalid:
  assumes "qy_ppc s = PIdle" "cq_stop (qy_queue s) = None"
    "\<not> (capture_event_is_valid (ce_event r) \<and> accepts_route r (qy_producer s))"
  shows "cq_step\<^sup>*\<^sup>* s (s\<lparr>qy_queue := snd (queue_fail InvalidInput (qy_queue s))\<rparr>)"
proof -
  have "cq_step s (s\<lparr>qy_ppc := PRefusing InvalidInput\<rparr>)" using assms by (rule cq_step.push_invalid)
  moreover have "cq_step (s\<lparr>qy_ppc := PRefusing InvalidInput\<rparr>)
      (s\<lparr>qy_queue := snd (queue_fail InvalidInput (qy_queue s))\<rparr>)"
    by (rule cq_stepI [OF cq_step.push_refuse]) (use assms(1) in \<open>auto intro!: queue_system.equality\<close>)
  ultimately show ?thesis by (simp add: converse_rtranclp_into_rtranclp)
qed

lemma push_run_admitted:
  assumes "qy_ppc s = PIdle" "cq_stop (qy_queue s) = None"
    "capture_event_is_valid (ce_event r)" "accepts_route r (qy_producer s)"
  shows "cq_step\<^sup>*\<^sup>* s (s\<lparr>qy_ppc := PRunning r\<rparr>)"
proof -
  have "cq_step s (s\<lparr>qy_ppc := PAdmitted r\<rparr>)" using assms by (rule cq_step.push_admit)
  moreover have "cq_step (s\<lparr>qy_ppc := PAdmitted r\<rparr>) (s\<lparr>qy_ppc := PRunning r\<rparr>)"
    by (rule cq_stepI [OF cq_step.push_recheck]) (auto simp: assms intro!: queue_system.equality)
  ultimately show ?thesis by (simp add: converse_rtranclp_into_rtranclp)
qed

lemma push_run_full:
  assumes "qy_ppc s = PIdle" "pos = cp_tail (qy_producer s)"
    "qs_publish (cq_slots (qy_queue s) ! slot_index pos) \<noteq> pos"
  shows "cq_step\<^sup>*\<^sup>* (s\<lparr>qy_ppc := PRunning r\<rparr>) (s\<lparr>qy_queue := snd (queue_fail QueueFull (qy_queue s))\<rparr>)"
proof -
  have "cq_step (s\<lparr>qy_ppc := PRunning r\<rparr>) (s\<lparr>qy_ppc := PRefusing QueueFull\<rparr>)"
    by (rule cq_stepI [OF cq_step.push_claim]) (use assms in \<open>auto intro!: queue_system.equality\<close>)
  moreover have "cq_step (s\<lparr>qy_ppc := PRefusing QueueFull\<rparr>)
      (s\<lparr>qy_queue := snd (queue_fail QueueFull (qy_queue s))\<rparr>)"
    by (rule cq_stepI [OF cq_step.push_refuse]) (use assms(1) in \<open>auto intro!: queue_system.equality\<close>)
  ultimately show ?thesis by (simp add: converse_rtranclp_into_rtranclp)
qed

lemma push_run_published:
  assumes "qy_ppc s = PIdle" "pos = cp_tail (qy_producer s)"
    "qs_publish (cq_slots (qy_queue s) ! slot_index pos) = pos"
  shows "cq_step\<^sup>*\<^sup>* (s\<lparr>qy_ppc := PRunning r\<rparr>)
    (s\<lparr>qy_queue := update_slot pos (\<lambda>slot. slot\<lparr>qs_publish := pos + 1\<rparr>) (update_slot pos (slot_store r) (qy_queue s)),
       qy_producer := producer_advance r (qy_producer s), qy_sent := qy_sent s @ [r]\<rparr>)"
    (is "cq_step\<^sup>*\<^sup>* _ ?t")
proof -
  let ?w = "s\<lparr>qy_ppc := PWritten r, qy_queue := update_slot pos (slot_store r) (qy_queue s)\<rparr>"
  have "cq_step (s\<lparr>qy_ppc := PRunning r\<rparr>) (s\<lparr>qy_ppc := PClaimed r\<rparr>)"
    by (rule cq_stepI [OF cq_step.push_claim]) (use assms in \<open>auto intro!: queue_system.equality\<close>)
  moreover have "cq_step (s\<lparr>qy_ppc := PClaimed r\<rparr>) ?w"
    by (rule cq_stepI [OF cq_step.push_write]) (use assms in \<open>auto intro!: queue_system.equality\<close>)
  moreover have "cq_step ?w (?t\<lparr>qy_ppc := PPublished\<rparr>)"
    by (rule cq_stepI [OF cq_step.push_publish]) (use assms in \<open>auto intro!: queue_system.equality\<close>)
  moreover have "cq_step (?t\<lparr>qy_ppc := PPublished\<rparr>) ?t"
    by (rule cq_stepI [OF cq_step.push_finish]) (use assms in \<open>auto intro!: queue_system.equality\<close>)
  ultimately show ?thesis by (meson converse_rtranclp_into_rtranclp rtranclp.rtrancl_refl)
qed

lemma push_run:
  assumes "qy_ppc s = PIdle" "try_push_tagged r (qy_producer s, qy_queue s) = (res, p, q)"
  shows "cq_step\<^sup>*\<^sup>* s (s\<lparr>qy_producer := p, qy_queue := q,
    qy_sent := qy_sent s @ (if res = Inr () then [r] else [])\<rparr>)"
proof (cases "cq_stop (qy_queue s)")
  case (Some reason)
  then show ?thesis using assms(2) by (auto simp: try_push_tagged_def)
next
  case run: None
  show ?thesis
  proof (cases "capture_event_is_valid (ce_event r) \<and> accepts_route r (qy_producer s)")
    case False
    then show ?thesis
      using push_run_invalid [OF assms(1) run False] assms(2) run
      by (auto simp: try_push_tagged_def split_beta)
  next
    case True
    then have start: "cq_step\<^sup>*\<^sup>* s (s\<lparr>qy_ppc := PRunning r\<rparr>)" using push_run_admitted assms(1) run by blast
    show ?thesis
    proof (cases "qs_publish (cq_slots (qy_queue s) ! slot_index (cp_tail (qy_producer s))) = cp_tail (qy_producer s)")
      case False
      then show ?thesis
        using rtranclp_trans [OF start push_run_full [OF assms(1) refl False]] assms(2) run True
        by (auto simp: try_push_tagged_def split_beta Let_def)
    next
      case free: True
      then show ?thesis
        using rtranclp_trans [OF start push_run_published [OF assms(1) refl free]] assms(2) run True
        by (auto simp: try_push_tagged_def Let_def update_slot_def elim!: back_subst [of "cq_step\<^sup>*\<^sup>* s"]
            intro!: queue_system.equality)
    qed
  qed
qed

lemma pop_run_taken:
  assumes "qy_cpc s = CIdle" "cq_stop (qy_queue s) = None" "pos = cc_head (qy_consumer s)"
    "qs_publish (cq_slots (qy_queue s) ! slot_index pos) = pos + 1"
  shows "cq_step\<^sup>*\<^sup>* s (s\<lparr>qy_cpc := CFreed (slot_load (cq_slots (qy_queue s) ! slot_index pos)),
    qy_queue := update_slot pos (\<lambda>slot. slot\<lparr>qs_publish := pos + of_nat CAPTURE_QUEUE_CAPACITY\<rparr>) (qy_queue s),
    qy_consumer := (qy_consumer s)\<lparr>cc_head := pos + 1\<rparr>, qy_freed := qy_freed s + 1\<rparr>)"
    (is "cq_step\<^sup>*\<^sup>* _ ?t")
proof -
  have "cq_step s (s\<lparr>qy_cpc := CRunning\<rparr>)"
    by (rule cq_stepI [OF cq_step.pop_begin]) (use assms in \<open>auto intro!: queue_system.equality\<close>)
  moreover have "cq_step (s\<lparr>qy_cpc := CRunning\<rparr>) (s\<lparr>qy_cpc := CClaimed\<rparr>)"
    by (rule cq_stepI [OF cq_step.pop_claim]) (use assms in \<open>auto intro!: queue_system.equality\<close>)
  moreover have "cq_step (s\<lparr>qy_cpc := CClaimed\<rparr>)
      (s\<lparr>qy_cpc := CRead (slot_load (cq_slots (qy_queue s) ! slot_index pos))\<rparr>)"
    by (rule cq_stepI [OF cq_step.pop_read]) (use assms in \<open>auto intro!: queue_system.equality\<close>)
  moreover have "cq_step (s\<lparr>qy_cpc := CRead (slot_load (cq_slots (qy_queue s) ! slot_index pos))\<rparr>) ?t"
    by (rule cq_stepI [OF cq_step.pop_free]) (use assms in \<open>auto intro!: queue_system.equality\<close>)
  ultimately show ?thesis by (meson converse_rtranclp_into_rtranclp rtranclp.rtrancl_refl)
qed

lemma pop_run:
  assumes "qy_cpc s = CIdle" "try_pop_tagged (qy_consumer s, qy_queue s) = (Inr (Some e), c, q)"
  shows "cq_step\<^sup>*\<^sup>* s (s\<lparr>qy_consumer := c, qy_queue := q, qy_freed := qy_freed s + 1,
    qy_delivered := qy_delivered s @ [e]\<rparr>)"
proof -
  let ?pos = "cc_head (qy_consumer s)"
  have pop: "cq_stop (qy_queue s) = None" "qs_publish (cq_slots (qy_queue s) ! slot_index ?pos) = ?pos + 1"
    "slot_load (cq_slots (qy_queue s) ! slot_index ?pos) = Some e"
    "q = update_slot ?pos (\<lambda>slot. slot\<lparr>qs_publish := ?pos + of_nat CAPTURE_QUEUE_CAPACITY\<rparr>) (qy_queue s)"
    "c = (qy_consumer s)\<lparr>cc_head := ?pos + 1\<rparr>"
    using assms(2) by (auto simp: try_pop_tagged_def Let_def split: option.splits if_splits prod.splits)
  note taken = pop_run_taken [OF assms(1) pop(1) refl pop(2)]
  show ?thesis
    by (rule rtranclp.rtrancl_into_rtrancl [OF taken], rule cq_stepI [OF cq_step.pop_deliver])
      (use assms(1) pop in \<open>auto simp: update_slot_def intro!: queue_system.equality\<close>)
qed

definition sample_record :: captured_event where
  "sample_record = \<lparr>ce_event = KeyEvent 4 True False 0, ce_routing_revision = 0, ce_remote = False,
     ce_floor_generation = 0\<rparr>"

lemma sample_push: "fst (try_push_tagged sample_record (qy_producer cq_initial, qy_queue cq_initial)) = Inr ()"
proof -
  have "0 < CAPTURE_QUEUE_CAPACITY" by (simp add: CAPTURE_QUEUE_CAPACITY_def)
  then show ?thesis
    by (simp add: try_push_tagged_def cq_initial_def capture_channel_def sample_record_def hid_is_valid_def
        accepts_route_def slot_index_def queue_slot_new_def Let_def update_slot_def)
qed

lemma sample_reachable: "\<exists>s. cq_reachable s \<and> qy_sent s = [sample_record]"
proof -
  obtain res p q where t: "try_push_tagged sample_record (qy_producer cq_initial, qy_queue cq_initial) = (res, p, q)"
    by (rule prod_cases3)
  have "cq_step\<^sup>*\<^sup>* cq_initial (cq_initial\<lparr>qy_producer := p, qy_queue := q, qy_sent := [sample_record]\<rparr>)"
    using push_run [OF _ t] sample_push t by (simp add: cq_initial_def capture_channel_def)
  then show ?thesis unfolding cq_reachable_def by (rule exI [of _ "cq_initial\<lparr>qy_producer := p, qy_queue := q, qy_sent := [sample_record]\<rparr>", OF conjI]) simp
qed

text \<open>
  C19: The capture queue is a lossless first-in first-out channel. Whatever the interleaving of the
  producer's and the consumer's accesses and of stops by any thread, what the consumer has been
  given is the beginning of what the producer published, record for record as the slot keeps it,
  and until a stop it is everything freed but the record being returned; at most 512 records are
  in flight; the producer's claim of a slot fails exactly when 512 are; the consumer finds nothing
  exactly when none is; and the two threads never own the same slot.
\<close>

theorem capture_queue_fifo:
  assumes "cq_reachable s"
  shows "qy_delivered s = map stored (take (length (qy_delivered s)) (qy_sent s)) \<and>
    qy_freed s \<le> length (qy_sent s) \<and> length (qy_sent s) \<le> qy_freed s + CAPTURE_QUEUE_CAPACITY \<and>
    (cq_stop (qy_queue s) = None \<longrightarrow> length (qy_delivered s) + owed (qy_cpc s) = qy_freed s) \<and>
    (qs_publish (cq_slots (qy_queue s) ! slot_index (cp_tail (qy_producer s))) = cp_tail (qy_producer s) \<longleftrightarrow>
       length (qy_sent s) < qy_freed s + CAPTURE_QUEUE_CAPACITY) \<and>
    (qs_publish (cq_slots (qy_queue s) ! slot_index (cc_head (qy_consumer s))) = cc_head (qy_consumer s) + 1 \<longleftrightarrow>
       qy_freed s < length (qy_sent s)) \<and>
    (\<forall>r e. qy_ppc s \<in> {PClaimed r, PWritten r} \<longrightarrow> qy_cpc s \<in> {CClaimed, CRead e} \<longrightarrow>
       slot_index (cp_tail (qy_producer s)) \<noteq> slot_index (cc_head (qy_consumer s)))"
proof -
  have inv: "cq_inv s" using assms by (rule cq_reachable_inv)
  have ring: "ring_inv (qy_queue s) (qy_sent s) (qy_freed s)"
    and pos: "cp_tail (qy_producer s) = of_nat (length (qy_sent s))" "cc_head (qy_consumer s) = of_nat (qy_freed s)"
    and pcs: "ppc_inv s (qy_ppc s)" "cpc_inv s (qy_cpc s)" and logs: "log_inv s"
    using inv by (simp_all add: cq_inv_def)
  have apart: "slot_index (cp_tail (qy_producer s)) \<noteq> slot_index (cc_head (qy_consumer s))"
    if "qy_ppc s \<in> {PClaimed r, PWritten r}" "qy_cpc s \<in> {CClaimed, CRead e}" for r e
  proof -
    have "length (qy_sent s) < qy_freed s + 512" "qy_freed s < length (qy_sent s)"
      using that pcs by auto
    then show ?thesis
      using mod_window [of "qy_freed s" "length (qy_sent s)" "qy_freed s"] by (simp add: pos slot_index_of_nat)
  qed
  show ?thesis
    using logs ring_invD(2,3) [OF ring] ring_claim [OF ring] ring_pop_claim [OF ring] apart
    unfolding pos by (auto simp: log_inv_def CAPTURE_QUEUE_CAPACITY_def)
qed

theorem capture_queue_fifo_witness:
  "\<exists>s. cq_reachable s \<and> qy_sent s = [sample_record] \<and>
     qy_delivered s = map stored (take (length (qy_delivered s)) [sample_record]) \<and> qy_freed s \<le> 1"
proof -
  obtain s where s: "cq_reachable s" "qy_sent s = [sample_record]" using sample_reachable by blast
  show ?thesis using capture_queue_fifo [OF s(1)] s by auto
qed

text \<open>
  C36: A route change is a barrier. In every reachable state each record published carries the
  route of the last barrier published before it, or of the local revision zero when there is none,
  and each barrier raises the revision; the records the consumer is given come in that order.
\<close>

theorem capture_route_barriers:
  assumes "cq_reachable s" "n < length (qy_sent s)"
  shows "tagged_ok (route_after (take n (qy_sent s))) (qy_sent s ! n)"
  using cq_reachable_inv [OF assms(1)] assms(2) by (simp add: cq_inv_def routes_ok_def)

theorem capture_route_barriers_witness:
  "\<exists>s. cq_reachable s \<and> qy_sent s = [sample_record] \<and> tagged_ok (0, False) (qy_sent s ! 0)"
proof -
  obtain s where s: "cq_reachable s" "qy_sent s = [sample_record]" using sample_reachable by blast
  show ?thesis using capture_route_barriers [OF s(1), of 0] s by (auto simp: route_after_def)
qed

end
