(* ===== verification/Physical_Capture.thy ===== *)
theory Physical_Capture
  imports Capture_Queue Take_Back Held_Input
begin

section \<open>The physical ledger of a capture: \<open>monhop-core/src/capture_physical.rs\<close>\<close>

text \<open>
  What the capture callback does with each native event: it keeps a record per key and button of
  what is physically down, what local apps were shown and what was queued, decides whether the
  event is withheld from local apps, and queues it. The stop is the one of the queue, as the native
  adapters pass it. The take-back gate is shared with other threads: a call takes what they do to
  the floor word before each attempt of its exchange, and between calls the gate may change in any
  way. A call whose take-back loop does not end, or panics on a foreign word, has no result.
\<close>

record press =
  pr_physical :: bool
  pr_local_down :: bool
  pr_suppressed_down :: bool
  pr_initially_held :: bool
  pr_queued_down :: bool
  pr_locally_injected :: bool
  pr_withheld :: bool

definition press_default :: press where
  "press_default = \<lparr>pr_physical = False, pr_local_down = False, pr_suppressed_down = False,
     pr_initially_held = False, pr_queued_down = False, pr_locally_injected = False, pr_withheld = False\<rparr>"

record motion_window =
  mw_generation :: u64
  mw_start :: duration
  mw_dx :: f64
  mw_dy :: f64

definition motion_window_default :: motion_window where
  "motion_window_default = \<lparr>mw_generation = 0, mw_start = 0, mw_dx = f64_zero, mw_dy = f64_zero\<rparr>"

abbreviation (input) TAKE_BACK_MOTION :: f64 where "TAKE_BACK_MOTION \<equiv> f64_of_int 6"

definition reaches_threshold ::
    "u64 \<Rightarrow> duration \<Rightarrow> f64 \<Rightarrow> f64 \<Rightarrow> motion_window \<Rightarrow> bool \<times> motion_window" where
  "reaches_threshold generation now dx dy w =
     (let w0 = (if mw_generation w \<noteq> generation \<or> now - mw_start w \<ge> TAKE_BACK_WINDOW
                then \<lparr>mw_generation = generation, mw_start = now, mw_dx = f64_zero, mw_dy = f64_zero\<rparr>
                else w);
          w1 = w0\<lparr>mw_dx := f64_add (mw_dx w0) dx, mw_dy := f64_add (mw_dy w0) dy\<rparr>
      in (f64_le (f64_mul TAKE_BACK_MOTION TAKE_BACK_MOTION)
            (f64_add (f64_mul (mw_dx w1) (mw_dx w1)) (f64_mul (mw_dy w1) (mw_dy w1))), w1))"

datatype local_transfer = TransferKey hid_usage bool | TransferButton mouse_button bool

abbreviation (input) ESCAPE :: hid_usage where "ESCAPE \<equiv> 0x29"
abbreviation (input) ESCAPE_CHORD :: "nat list" where "ESCAPE_CHORD \<equiv> [0xe0, 0xe4, 0x29]"

datatype held_since_start = HeldKey hid_usage | HeldButton mouse_button

type_synonym transfer_plan = "local_transfer list"

record 'k physical_capture =
  ph_keys :: "press list"
  ph_buttons :: "press list"
  ph_last_time :: duration
  ph_chord_since :: "duration option"
  ph_reserved_escape :: bool
  ph_intercepts_escape :: bool
  ph_routing_revision :: u64
  ph_take_back :: "'k take_back_gate option"
  ph_motion :: motion_window
  ph_travel :: motion_window
  ph_withholding_since :: "duration option"

definition physical_new :: "duration \<Rightarrow> 'k physical_capture" where
  "physical_new now = \<lparr>ph_keys = replicate 256 press_default, ph_buttons = replicate 5 press_default,
     ph_last_time = now, ph_chord_since = None, ph_reserved_escape = False, ph_intercepts_escape = True,
     ph_routing_revision = 0, ph_take_back = None, ph_motion = motion_window_default,
     ph_travel = motion_window_default, ph_withholding_since = None\<rparr>"

definition with_take_back :: "'k take_back_gate \<Rightarrow> 'k physical_capture \<Rightarrow> 'k physical_capture" where
  "with_take_back gate c = c\<lparr>ph_take_back := Some gate\<rparr>"

definition new_passive :: "duration \<Rightarrow> 'k physical_capture" where
  "new_passive now = (physical_new now)\<lparr>ph_intercepts_escape := False\<rparr>"

definition set_routing_revision :: "u64 \<Rightarrow> 'k physical_capture \<Rightarrow> 'k physical_capture" where
  "set_routing_revision revision c = c\<lparr>ph_routing_revision := revision\<rparr>"

definition initial_press :: press where
  "initial_press = press_default\<lparr>pr_physical := True, pr_local_down := True, pr_initially_held := True\<rparr>"

definition push_buttons ::
    "bool \<Rightarrow> (press \<Rightarrow> bool) \<Rightarrow> 'k physical_capture \<Rightarrow> transfer_plan \<Rightarrow> transfer_plan" where
  "push_buttons pressed select c plan = plan @
     map (\<lambda>b. TransferButton b pressed) (filter (\<lambda>b. select (ph_buttons c ! button_index b)) button_all)"

definition handoff_plan :: "bool \<Rightarrow> 'k physical_capture \<Rightarrow> transfer_plan" where
  "handoff_plan remote c =
     push_buttons (\<not> remote)
       (\<lambda>p. pr_physical p \<and> \<not> pr_initially_held p \<and> \<not> pr_withheld p \<and> pr_local_down p = remote) c
       (map (\<lambda>(i, p). TransferKey (of_nat i) (\<not> remote))
         (filter (\<lambda>(i, p). pr_physical p \<and> \<not> pr_initially_held p \<and> \<not> pr_withheld p \<and> hid_is_valid (of_nat i) \<and>
             (remote \<and> pr_local_down p \<or> \<not> remote \<and> hid_is_modifier (of_nat i) \<and> \<not> pr_local_down p))
           (enumerate 0 (ph_keys c))))"

definition release_injected_plan :: "'k physical_capture \<Rightarrow> transfer_plan" where
  "release_injected_plan c =
     push_buttons False (\<lambda>p. pr_locally_injected p \<and> pr_local_down p) c
       (map (\<lambda>(i, p). TransferKey (of_nat i) False)
         (filter (\<lambda>(i, p). pr_locally_injected p \<and> pr_local_down p) (enumerate 0 (ph_keys c))))"

definition transferred :: "bool \<Rightarrow> press \<Rightarrow> press" where
  "transferred pressed p =
     p\<lparr>pr_local_down := pressed, pr_locally_injected := pressed,
       pr_suppressed_down := pr_physical p \<and> \<not> pressed\<rparr>"

fun apply_transfer_success :: "local_transfer \<Rightarrow> 'k physical_capture \<Rightarrow> 'k physical_capture" where
  "apply_transfer_success (TransferKey u pressed) c =
     (if hid_is_valid u
      then c\<lparr>ph_keys := (ph_keys c)[unat u := transferred pressed (ph_keys c ! unat u)]\<rparr>
      else c)"
| "apply_transfer_success (TransferButton b pressed) c =
     c\<lparr>ph_buttons := (ph_buttons c)[button_index b := transferred pressed (ph_buttons c ! button_index b)]\<rparr>"

definition seed_locally_held_key :: "hid_usage \<Rightarrow> 'k physical_capture \<Rightarrow> 'k physical_capture" where
  "seed_locally_held_key u c =
     (if hid_is_valid u then c\<lparr>ph_keys := (ph_keys c)[unat u := initial_press]\<rparr> else c)"

definition seed_locally_held_button :: "mouse_button \<Rightarrow> 'k physical_capture \<Rightarrow> 'k physical_capture" where
  "seed_locally_held_button b c = c\<lparr>ph_buttons := (ph_buttons c)[button_index b := initial_press]\<rparr>"

definition any_press :: "(press \<Rightarrow> bool) \<Rightarrow> 'k physical_capture \<Rightarrow> bool" where
  "any_press P c = list_ex P (ph_keys c @ ph_buttons c)"

definition is_ready_for_suppression :: "'k physical_capture \<Rightarrow> bool" where
  "is_ready_for_suppression c = (\<not> any_press pr_initially_held c)"

definition initially_held :: "'k physical_capture \<Rightarrow> held_since_start list" where
  "initially_held c =
     map (\<lambda>(i, p). HeldKey (of_nat i)) (filter (\<lambda>(i, p). pr_initially_held p) (enumerate 0 (ph_keys c))) @
     map HeldButton (filter (\<lambda>b. pr_initially_held (ph_buttons c ! button_index b)) button_all)"

definition chord_held :: "'k physical_capture \<Rightarrow> bool" where
  "chord_held c = list_all (\<lambda>i. pr_physical (ph_keys c ! i)) ESCAPE_CHORD"

definition forget_initially_held :: "held_since_start \<Rightarrow> 'k physical_capture \<Rightarrow> bool \<times> 'k physical_capture" where
  "forget_initially_held held c =
     (let settle = (\<lambda>c. let c1 = (if chord_held c then c else c\<lparr>ph_chord_since := None\<rparr>)
                        in if held = HeldKey ESCAPE then c1\<lparr>ph_reserved_escape := False\<rparr> else c1)
      in case held of
           HeldKey u \<Rightarrow>
             if \<not> hid_is_valid u \<or> \<not> pr_initially_held (ph_keys c ! unat u) then (False, c)
             else (True, settle (c\<lparr>ph_keys := (ph_keys c)[unat u := press_default]\<rparr>))
         | HeldButton b \<Rightarrow>
             if \<not> pr_initially_held (ph_buttons c ! button_index b) then (False, c)
             else (True, settle (c\<lparr>ph_buttons := (ph_buttons c)[button_index b := press_default]\<rparr>)))"

definition has_suppressed_presses :: "'k physical_capture \<Rightarrow> bool" where
  "has_suppressed_presses c = any_press (\<lambda>p. pr_suppressed_down p \<or> pr_withheld p) c"

definition phys_tick :: "duration \<Rightarrow> 'k physical_capture \<Rightarrow> capture_stop \<Rightarrow> 'k physical_capture \<times> capture_stop" where
  "phys_tick now c s =
     (if now < ph_last_time c then (c, capture_stop_stop ClockRegression s)
      else (c\<lparr>ph_last_time := now\<rparr>,
            case ph_chord_since c of
              None \<Rightarrow> s
            | Some start \<Rightarrow> if HOLD_DURATION \<le> now - start then capture_stop_stop EmergencyEscape s else s))"

definition phys_modifiers :: "'k physical_capture \<Rightarrow> modifier_state" where
  "phys_modifiers c =
     foldl (\<lambda>value index. let key = ph_keys c ! (0xe0 + index) in
       if pr_physical key \<and> \<not> pr_withheld key \<and> \<not> pr_initially_held key then value OR push_bit index 1 else value)
       0 [0..<8]"

definition withhold_press :: "press \<Rightarrow> press \<Rightarrow> bool \<Rightarrow> bool \<Rightarrow> (bool \<times> press) option" where
  "withhold_press state previous pressed withholding =
     (if pr_withheld previous
      then (if \<not> pressed then Some (\<not> pr_local_down previous, press_default) else Some (True, state))
      else if withholding \<and> pressed \<and> \<not> pr_physical previous
      then Some (True, state\<lparr>pr_physical := True, pr_withheld := True\<rparr>)
      else None)"

definition update_press :: "press \<Rightarrow> press \<Rightarrow> bool \<Rightarrow> bool \<Rightarrow> bool \<times> press" where
  "update_press state previous pressed suppress =
     (if \<not> pressed then (pr_suppressed_down previous \<and> \<not> pr_local_down previous, press_default)
      else let state1 = state\<lparr>pr_physical := True\<rparr> in
        if pr_suppressed_down previous then (True, state1)
        else if suppress \<and> \<not> pr_initially_held previous
        then (True, if \<not> pr_local_down previous then state1\<lparr>pr_suppressed_down := True\<rparr> else state1)
        else (False, state1\<lparr>pr_local_down := True\<rparr>))"

text \<open>Whether an event is deliberate while Receiving; motion is summed in the two windows.\<close>

definition deliberate ::
    "capture_event \<Rightarrow> (f64 \<times> f64) option \<Rightarrow> u64 \<Rightarrow> duration \<Rightarrow> 'k physical_capture \<Rightarrow> bool \<times> 'k physical_capture" where
  "deliberate e travel generation now c =
     (let moved = (\<lambda>dx dy. let (r, w) = reaches_threshold generation now dx dy (ph_motion c)
                           in (r, c\<lparr>ph_motion := w\<rparr>));
          travelled = (case travel of
              None \<Rightarrow> (False, c)
            | Some (dx, dy) \<Rightarrow>
                if f64_is_finite dx \<and> f64_is_finite dy
                then (let (r, w) = reaches_threshold generation now dx dy (ph_travel c) in (r, c\<lparr>ph_travel := w\<rparr>))
                else (False, c))
      in if \<not> capture_event_is_valid e then (False, c)
         else case e of
             KeyEvent _ _ _ _ \<Rightarrow> (True, c)
           | ButtonEvent _ _ _ \<Rightarrow> (True, c)
           | Scroll _ _ \<Rightarrow> (True, c)
           | LogicalScroll _ _ \<Rightarrow> (True, c)
           | SystemGesture _ \<Rightarrow> (True, c)
           | Gesture kind _ value \<Rightarrow> (gesture_kind_is_discrete kind \<or> \<not> f64_eq value f64_zero, c)
           | RelativeMotion dx dy _ \<Rightarrow> moved (f64_of_int (sint dx)) (f64_of_int (sint dy))
           | LogicalRelativeMotion dx dy \<Rightarrow> moved dx dy
           | AbsoluteMotion _ _ \<Rightarrow> travelled
           | LogicalAbsoluteMotion _ _ \<Rightarrow> travelled
           | RouteChanged _ _ \<Rightarrow> (False, c))"

definition clear_windows :: "'k physical_capture \<Rightarrow> 'k physical_capture" where
  "clear_windows c = c\<lparr>ph_motion := motion_window_default, ph_travel := motion_window_default\<rparr>"

definition observe_take_back ::
    "(u64 \<Rightarrow> u64) list \<Rightarrow> capture_event \<Rightarrow> (f64 \<times> f64) option \<Rightarrow> duration \<Rightarrow> capture_stop
     \<Rightarrow> 'k physical_capture \<Rightarrow> (u64 \<times> 'k physical_capture) option" where
  "observe_take_back others e travel now s c =
     (case ph_take_back c of
        None \<Rightarrow> Some (0, c)
      | Some gate \<Rightarrow>
          (case floor_unpack (tb_floor gate) of
             None \<Rightarrow> None
           | Some fl \<Rightarrow>
               if fl_state fl \<noteq> Receiving then Some (fl_generation fl, clear_windows c)
               else case deliberate e travel (fl_generation fl) now c of
                   (False, c1) \<Rightarrow> Some (fl_generation fl, c1)
                 | (True, c1) \<Rightarrow>
                     (case trigger others gate of
                        (None, _) \<Rightarrow> None
                      | (Some (outcome, _), gate') \<Rightarrow>
                          let c2 = (clear_windows c1)\<lparr>ph_take_back := Some gate'\<rparr> in
                          Some (fl_generation fl,
                            if outcome = Triggered True \<and> \<not> is_stopped s
                            then c2\<lparr>ph_withholding_since := Some now\<rparr> else c2))))"

definition phys_withholding :: "duration \<Rightarrow> capture_stop \<Rightarrow> 'k physical_capture \<Rightarrow> bool \<times> 'k physical_capture" where
  "phys_withholding now s c =
     (case ph_withholding_since c of
        None \<Rightarrow> (False, c)
      | Some since \<Rightarrow>
          let held = (case ph_take_back c of None \<Rightarrow> False | Some gate \<Rightarrow> injected_held gate) in
          if held \<and> \<not> is_stopped s \<and> now - since < MAX_SUPPRESSION_TTL then (True, c)
          else (False, c\<lparr>ph_withholding_since := None\<rparr>))"

type_synonym 'k phys_state = "'k physical_capture \<times> capture_producer \<times> capture_queue"

text \<open>\<open>wanted && !stop.is_stopped() && producer.try_push_tagged(record).is_ok()\<close>.\<close>

definition offer ::
    "bool \<Rightarrow> captured_event \<Rightarrow> capture_producer \<times> capture_queue \<Rightarrow> bool \<times> capture_producer \<times> capture_queue" where
  "offer wanted r = (\<lambda>(p, q).
     if wanted \<and> \<not> is_stopped (cq_stop q)
     then (let (res, p', q') = try_push_tagged r (p, q) in (is_ok res, p', q'))
     else (False, p, q))"

definition tag :: "capture_event \<Rightarrow> bool \<Rightarrow> u64 \<Rightarrow> 'k physical_capture \<Rightarrow> captured_event" where
  "tag e remote generation c = \<lparr>ce_event = e, ce_routing_revision = ph_routing_revision c,
     ce_remote = remote, ce_floor_generation = generation\<rparr>"

text \<open>
  The emergency chord's part of a key event: the physical state of the key, whether the chord is
  complete, and whether this key or this repeat is reserved for it.
\<close>

definition key_chord ::
    "hid_usage \<Rightarrow> bool \<Rightarrow> duration \<Rightarrow> 'k physical_capture \<Rightarrow> bool \<times> bool \<times> 'k physical_capture" where
  "key_chord u pressed now c =
     (let c1 = c\<lparr>ph_keys := (ph_keys c)[unat u := (ph_keys c ! unat u)\<lparr>pr_physical := pressed\<rparr>]\<rparr>;
          complete_chord = chord_held c1;
          c2 = (if complete_chord
                then c1\<lparr>ph_chord_since := (case ph_chord_since c1 of None \<Rightarrow> Some now | Some t \<Rightarrow> Some t),
                        ph_reserved_escape := True\<rparr>
                else c1\<lparr>ph_chord_since := None\<rparr>);
          reserved = (ph_intercepts_escape c2 \<and> u = ESCAPE \<and> ph_reserved_escape c2);
          chord_repeat = (ph_intercepts_escape c2 \<and> complete_chord \<and> pressed);
          c3 = (if u = ESCAPE \<and> \<not> pressed then c2\<lparr>ph_reserved_escape := False\<rparr> else c2)
      in (reserved, chord_repeat, c3))"

definition process_key ::
    "hid_usage \<Rightarrow> bool \<Rightarrow> bool \<Rightarrow> u64 \<Rightarrow> bool \<Rightarrow> duration \<Rightarrow> 'k phys_state \<Rightarrow> bool \<times> 'k phys_state" where
  "process_key u pressed remote generation withholding now = (\<lambda>(c, p, q).
     if \<not> hid_is_valid u then (False, (c, p, q\<lparr>cq_stop := capture_stop_stop InvalidInput (cq_stop q)\<rparr>))
     else
       let index = unat u;
           previous = ph_keys c ! index;
           (reserved, chord_repeat, c1) = key_chord u pressed now c
       in case withhold_press (ph_keys c1 ! index) previous pressed withholding of
            Some (suppress, state) \<Rightarrow> (suppress, (c1\<lparr>ph_keys := (ph_keys c1)[index := state]\<rparr>, p, q))
          | None \<Rightarrow>
              let should_queue = (\<not> pr_initially_held previous \<and>
                    (if pressed then \<not> reserved \<and> \<not> chord_repeat else pr_queued_down previous));
                  canonical = KeyEvent u pressed (pressed \<and> pr_physical previous) (phys_modifiers c1);
                  (queued, p1, q1) = offer should_queue (tag canonical remote generation c1) (p, q);
                  (suppress, state) = update_press (ph_keys c1 ! index) previous pressed
                    (remote \<and> queued \<or> reserved \<and> \<not> is_stopped (cq_stop q1));
                  state1 = (if pressed \<and> queued then state\<lparr>pr_queued_down := True\<rparr> else state)
              in (suppress \<or> withholding \<and> pressed, (c1\<lparr>ph_keys := (ph_keys c1)[index := state1]\<rparr>, p1, q1)))"

definition process_button ::
    "capture_event \<Rightarrow> mouse_button \<Rightarrow> bool \<Rightarrow> bool \<Rightarrow> u64 \<Rightarrow> bool \<Rightarrow> 'k phys_state \<Rightarrow> bool \<times> 'k phys_state" where
  "process_button e b pressed remote generation withholding = (\<lambda>(c, p, q).
     let index = button_index b;
         previous = ph_buttons c ! index
     in case withhold_press previous previous pressed withholding of
          Some (suppress, state) \<Rightarrow> (suppress, (c\<lparr>ph_buttons := (ph_buttons c)[index := state]\<rparr>, p, q))
        | None \<Rightarrow>
            let (queued, p1, q1) = offer (\<not> pr_initially_held previous \<and> (pressed \<or> pr_queued_down previous))
                  (tag e remote generation c) (p, q);
                (suppress, state) = update_press previous previous pressed (remote \<and> queued);
                state1 = (if pressed \<and> queued then state\<lparr>pr_queued_down := True\<rparr> else state)
            in (suppress \<or> withholding \<and> pressed, (c\<lparr>ph_buttons := (ph_buttons c)[index := state1]\<rparr>, p1, q1)))"

definition process_other ::
    "capture_event \<Rightarrow> bool \<Rightarrow> u64 \<Rightarrow> bool \<Rightarrow> 'k phys_state \<Rightarrow> bool \<times> 'k phys_state" where
  "process_other e remote generation withholding = (\<lambda>(c, p, q).
     let (queued, p1, q1) = offer True (tag e remote generation c) (p, q)
     in (remote \<and> queued \<and> \<not> is_stopped (cq_stop q1) \<or> withholding, (c, p1, q1)))"

definition process_with_travel ::
    "(u64 \<Rightarrow> u64) list \<Rightarrow> capture_event \<Rightarrow> (f64 \<times> f64) option \<Rightarrow> bool \<Rightarrow> duration
     \<Rightarrow> 'k phys_state \<Rightarrow> (bool \<times> 'k phys_state) option" where
  "process_with_travel others e travel remote_route now = (\<lambda>(c, p, q).
     let (c1, s) = phys_tick now c (cq_stop q);
         q1 = q\<lparr>cq_stop := s\<rparr>;
         remote = (remote_route \<and> is_ready_for_suppression c1 \<and> \<not> is_stopped s)
     in case observe_take_back others e travel now s c1 of
          None \<Rightarrow> None
        | Some (generation, c2) \<Rightarrow>
            let (withholding, c3) = phys_withholding now s c2
            in Some (case e of
                 KeyEvent u pressed _ _ \<Rightarrow> process_key u pressed remote generation withholding now (c3, p, q1)
               | ButtonEvent b pressed _ \<Rightarrow> process_button e b pressed remote generation withholding (c3, p, q1)
               | _ \<Rightarrow> process_other e remote generation withholding (c3, p, q1)))"

definition process ::
    "(u64 \<Rightarrow> u64) list \<Rightarrow> capture_event \<Rightarrow> bool \<Rightarrow> duration \<Rightarrow> 'k phys_state \<Rightarrow> (bool \<times> 'k phys_state) option" where
  "process others e remote now = process_with_travel others e None remote now"

end
