(* ===== verification/Physical_Views.thy ===== *)
theory Physical_Views
  imports Physical_Capture
begin

section \<open>What local apps and the reader of the queue see\<close>

text \<open>
  A key or button as the two sides see it: local apps, and whoever reads the queue. A record is
  published when the producer's tail moves; what was published is what the slot then holds.
\<close>

datatype input_id = IKey hid_usage | IButton mouse_button

fun id_valid :: "input_id \<Rightarrow> bool" where
  "id_valid (IKey u) = hid_is_valid u"
| "id_valid (IButton b) = True"

fun press_of :: "'k physical_capture \<Rightarrow> input_id \<Rightarrow> press" where
  "press_of c (IKey u) = ph_keys c ! unat u"
| "press_of c (IButton b) = ph_buttons c ! button_index b"

definition local_down_set :: "'k physical_capture \<Rightarrow> input_id set" where
  "local_down_set c = {x. id_valid x \<and> pr_local_down (press_of c x)}"

definition queued_down_set :: "'k physical_capture \<Rightarrow> input_id set" where
  "queued_down_set c = {x. id_valid x \<and> pr_queued_down (press_of c x)}"

definition see :: "input_id \<Rightarrow> bool \<Rightarrow> input_id set \<Rightarrow> input_id set" where
  "see x pressed V = (if \<not> id_valid x then V else if pressed then insert x V else V - {x})"

fun event_seen :: "capture_event \<Rightarrow> input_id set \<Rightarrow> input_id set" where
  "event_seen (KeyEvent u pressed _ _) V = see (IKey u) pressed V"
| "event_seen (ButtonEvent b pressed _) V = see (IButton b) pressed V"
| "event_seen _ V = V"

definition published :: "capture_producer \<Rightarrow> capture_producer \<Rightarrow> capture_queue \<Rightarrow> captured_event list" where
  "published p p' q' =
     (if cp_tail p' = cp_tail p then []
      else case slot_load (cq_slots q' ! slot_index (cp_tail p)) of None \<Rightarrow> [] | Some r \<Rightarrow> [r])"

definition queue_seen :: "captured_event list \<Rightarrow> input_id set \<Rightarrow> input_id set" where
  "queue_seen rs V = fold (\<lambda>r. event_seen (ce_event r)) rs V"

text \<open>What every record of the ledger satisfies.\<close>

definition press_ok :: "press \<Rightarrow> bool" where
  "press_ok p =
     ((pr_physical p \<and> \<not> pr_withheld p \<longrightarrow> pr_local_down p \<or> pr_suppressed_down p) \<and>
      (pr_queued_down p \<longrightarrow> pr_physical p \<and> \<not> pr_withheld p \<and> \<not> pr_initially_held p))"

definition phys_inv :: "'k physical_capture \<Rightarrow> bool" where
  "phys_inv c = (length (ph_keys c) = 256 \<and> length (ph_buttons c) = 5 \<and> (\<forall>x. id_valid x \<longrightarrow> press_ok (press_of c x)))"

lemma press_ok_default [simp]: "press_ok press_default" "press_ok initial_press"
  "\<not> pr_local_down press_default" "\<not> pr_queued_down press_default" "\<not> pr_queued_down initial_press"
  "pr_local_down initial_press"
  by (simp_all add: press_ok_def press_default_def initial_press_def)

lemma press_ok_transferred [simp]: "press_ok p \<Longrightarrow> press_ok (transferred b p)"
  "pr_local_down (transferred b p) = b" "pr_queued_down (transferred b p) = pr_queued_down p"
  by (simp_all add: press_ok_def transferred_def)

lemma withhold_press_step:
  assumes "press_ok prev" "state = prev \<or> state = prev\<lparr>pr_physical := pressed\<rparr>"
    "withhold_press state prev pressed withholding = Some (R, st)"
  shows "press_ok st" "pr_local_down st \<longleftrightarrow> (if R then pr_local_down prev else pressed)"
    "\<not> pr_queued_down st" "\<not> pr_queued_down prev"
  using assms by (auto simp: withhold_press_def press_ok_def press_default_def split: if_splits)

lemma update_press_step:
  assumes "press_ok prev" "state = prev \<or> state = prev\<lparr>pr_physical := pressed\<rparr>"
    "withhold_press state prev pressed withholding = None"
    "update_press state prev pressed suppress = (S, st)" "queued \<Longrightarrow> \<not> pr_initially_held prev"
    "st' = (if pressed \<and> queued then st\<lparr>pr_queued_down := True\<rparr> else st)"
  shows "press_ok st'"
    "pr_local_down st' \<longleftrightarrow> (if S \<or> withholding \<and> pressed then pr_local_down prev else pressed)"
    "pr_queued_down st' \<longleftrightarrow> pressed \<and> (queued \<or> pr_queued_down prev)"
proof -
  have prev: "\<not> pr_withheld prev" "withholding \<Longrightarrow> pressed \<Longrightarrow> pr_physical prev"
    using assms(3) by (auto simp: withhold_press_def split: if_splits)
  have "press_ok st' \<and>
    (pr_local_down st' \<longleftrightarrow> (if S \<or> withholding \<and> pressed then pr_local_down prev else pressed)) \<and>
    (pr_queued_down st' \<longleftrightarrow> pressed \<and> (queued \<or> pr_queued_down prev))"
  proof (cases pressed)
    case False
    then show ?thesis using assms(4,6) by (auto simp: update_press_def press_ok_def press_default_def)
  next
    case True
    have st: "S = (pr_suppressed_down prev \<or> suppress \<and> \<not> pr_initially_held prev)"
      "pr_local_down st = (pr_local_down prev \<or> \<not> S)" "pr_suppressed_down st = (pr_suppressed_down prev \<or> S \<and> \<not> pr_local_down prev)"
      "pr_physical st" "pr_withheld st = pr_withheld prev" "pr_queued_down st = pr_queued_down prev"
      "pr_initially_held st = pr_initially_held prev"
      using assms(2,4) True by (auto simp: update_press_def Let_def split: if_splits)
    then show ?thesis
      using assms(1,5,6) prev True by (cases queued) (simp_all add: press_ok_def, (blast | argo)+)
  qed
  then show "press_ok st'"
    "pr_local_down st' \<longleftrightarrow> (if S \<or> withholding \<and> pressed then pr_local_down prev else pressed)"
    "pr_queued_down st' \<longleftrightarrow> pressed \<and> (queued \<or> pr_queued_down prev)"
    by blast+
qed

lemma valid_key_small: "hid_is_valid u \<Longrightarrow> unat u < 256"
  by (auto simp: hid_is_valid_def word_le_nat_alt)

lemma valid_keys_distinct: "hid_is_valid u \<Longrightarrow> hid_is_valid v \<Longrightarrow> unat u = unat v \<longleftrightarrow> u = v"
  by (simp add: word_unat_eq_iff)

lemma button_index_eq [simp]: "button_index a = button_index b \<longleftrightarrow> a = b"
  by (rule button_index.to_wire_inject)

text \<open>Replacing the record of one input.\<close>

fun with_press :: "input_id \<Rightarrow> press \<Rightarrow> 'k physical_capture \<Rightarrow> 'k physical_capture" where
  "with_press (IKey u) p c = c\<lparr>ph_keys := (ph_keys c)[unat u := p]\<rparr>"
| "with_press (IButton b) p c = c\<lparr>ph_buttons := (ph_buttons c)[button_index b := p]\<rparr>"

lemma press_of_with_press:
  assumes "length (ph_keys c) = 256" "length (ph_buttons c) = 5" "id_valid x" "id_valid y"
  shows "press_of (with_press x p c) y = (if y = x then p else press_of c y)"
  using assms valid_key_small button_index_less
  by (cases x; cases y) (auto simp: nth_list_update valid_keys_distinct)

lemma with_press_inv:
  assumes "phys_inv c" "id_valid x" "press_ok p"
  shows "phys_inv (with_press x p c)"
    "local_down_set (with_press x p c) = (if pr_local_down p then insert x (local_down_set c) else local_down_set c - {x})"
    "queued_down_set (with_press x p c) = (if pr_queued_down p then insert x (queued_down_set c) else queued_down_set c - {x})"
proof -
  have len: "length (ph_keys c) = 256" "length (ph_buttons c) = 5" using assms(1) by (simp_all add: phys_inv_def)
  note pw = press_of_with_press [OF len assms(2)]
  have "length (ph_keys (with_press x p c)) = 256" "length (ph_buttons (with_press x p c)) = 5"
    using len by (cases x; simp)+
  then show "phys_inv (with_press x p c)"
    using assms pw unfolding phys_inv_def by simp
  show "local_down_set (with_press x p c) = (if pr_local_down p then insert x (local_down_set c) else local_down_set c - {x})"
    "queued_down_set (with_press x p c) = (if pr_queued_down p then insert x (queued_down_set c) else queued_down_set c - {x})"
    using pw assms(2) by (auto simp: local_down_set_def queued_down_set_def split: if_splits)
qed

subsection \<open>One event\<close>

lemma slot_index_less: "slot_index x < 512"
  by (simp add: slot_index_def CAPTURE_QUEUE_CAPACITY_def)

lemma published_same [simp]: "published p p q = []"
  by (simp add: published_def)

lemma offer_published:
  assumes "offer wanted r (p, q) = (queued, p', q')" "length (cq_slots q) = 512"
  shows "length (cq_slots q') = 512" "is_stopped (cq_stop q) \<Longrightarrow> is_stopped (cq_stop q')"
    "queued \<Longrightarrow> wanted \<and> published p p' q' = [stored r]"
    "\<not> queued \<Longrightarrow> published p p' q' = [] \<and> (wanted \<longrightarrow> is_stopped (cq_stop q'))"
proof -
  have "length (cq_slots q') = 512 \<and> (is_stopped (cq_stop q) \<longrightarrow> is_stopped (cq_stop q')) \<and>
    (queued \<longrightarrow> wanted \<and> published p p' q' = [stored r]) \<and>
    (\<not> queued \<longrightarrow> published p p' q' = [] \<and> (wanted \<longrightarrow> is_stopped (cq_stop q')))"
  proof (cases "wanted \<and> \<not> is_stopped (cq_stop q)")
    case False
    then show ?thesis using assms by (auto simp: offer_def)
  next
    case True
    then have go: "cq_stop q = None" by (cases "cq_stop q") auto
    let ?ok = "record_ok r p" and ?free = "qs_publish (cq_slots q ! slot_index (cp_tail p)) = cp_tail p"
    show ?thesis
    proof (cases "?ok \<and> ?free")
      case ok: True
      have "slot_load (cq_slots q' ! slot_index (cp_tail p)) = Some (stored r)" "queued" "cp_tail p' = cp_tail p + 1"
        "length (cq_slots q') = 512" "cq_stop q' = None"
        using ok True go assms slot_index_less [of "cp_tail p"] slot_load_store [of r p]
        by (auto simp: offer_def try_push_tagged_def record_ok_def Let_def update_slot_def)
      then show ?thesis using True by (simp add: published_def)
    next
      case False
      then show ?thesis
        using True go assms
        by (cases "record_ok r p") (auto simp: offer_def try_push_tagged_def record_ok_def Let_def queue_fail_def stopped_or_def)
    qed
  qed
  then show "length (cq_slots q') = 512" "is_stopped (cq_stop q) \<Longrightarrow> is_stopped (cq_stop q')"
    "queued \<Longrightarrow> wanted \<and> published p p' q' = [stored r]"
    "\<not> queued \<Longrightarrow> published p p' q' = [] \<and> (wanted \<longrightarrow> is_stopped (cq_stop q'))"
    by blast+
qed

lemma event_seen_stored [simp]: "event_seen (stored_event e) V = event_seen e V"
  by (cases e) simp_all

lemma queue_seen_simps [simp]:
  "queue_seen [] V = V" "queue_seen [stored r] V = event_seen (ce_event r) V"
  by (simp_all add: queue_seen_def stored_def)

text \<open>What one call must do: \<open>e\<close> is the native event, \<open>R\<close> whether it was withheld from local apps.\<close>

definition faithful_step :: "capture_event \<Rightarrow> bool \<Rightarrow> 'k phys_state \<Rightarrow> 'k phys_state \<Rightarrow> bool" where
  "faithful_step e R = (\<lambda>(c, p, q) (c', p', q').
     phys_inv c' \<and> length (cq_slots q') = 512 \<and> (is_stopped (cq_stop q) \<longrightarrow> is_stopped (cq_stop q')) \<and>
     local_down_set c' = (if R then local_down_set c else event_seen e (local_down_set c)) \<and>
     (\<not> is_stopped (cq_stop q') \<longrightarrow>
        queued_down_set c' = queue_seen (published p p' q') (queued_down_set c)))"

lemma id_in_sets:
  "id_valid x \<Longrightarrow> x \<in> local_down_set c \<longleftrightarrow> pr_local_down (press_of c x)"
  "id_valid x \<Longrightarrow> x \<in> queued_down_set c \<longleftrightarrow> pr_queued_down (press_of c x)"
  by (simp_all add: local_down_set_def queued_down_set_def)

lemma withheld_faithful:
  assumes "phys_inv c" "length (cq_slots q) = 512" "id_valid x" "event_seen e = see x pressed"
    "state = press_of c x \<or> state = (press_of c x)\<lparr>pr_physical := pressed\<rparr>"
    "withhold_press state (press_of c x) pressed withholding = Some (R, st)"
  shows "faithful_step e R (c, p, q) (with_press x st c, p, q)"
proof -
  have "press_ok (press_of c x)" using assms(1,3) by (simp add: phys_inv_def)
  note st = withhold_press_step [OF this assms(5,6)]
  show ?thesis
    using with_press_inv [OF assms(1,3) st(1)] st(2-4) id_in_sets [OF assms(3), of c] assms(2,3)
    by (auto simp: faithful_step_def assms(4) see_def split: if_splits)
qed

lemma updated_faithful:
  assumes "phys_inv c" "length (cq_slots q) = 512" "id_valid x" "event_seen e = see x pressed"
    "state = press_of c x \<or> state = (press_of c x)\<lparr>pr_physical := pressed\<rparr>"
    "withhold_press state (press_of c x) pressed withholding = None"
    "offer wanted r (p, q) = (queued, p', q')" "event_seen (ce_event r) = see x pressed"
    "wanted \<Longrightarrow> \<not> pr_initially_held (press_of c x)"
    "\<not> pressed \<Longrightarrow> wanted \<longleftrightarrow> \<not> pr_initially_held (press_of c x) \<and> pr_queued_down (press_of c x)"
    "update_press state (press_of c x) pressed suppress = (S, st)"
    "st' = (if pressed \<and> queued then st\<lparr>pr_queued_down := True\<rparr> else st)"
  shows "faithful_step e (S \<or> withholding \<and> pressed) (c, p, q) (with_press x st' c, p', q')"
proof -
  have ok: "press_ok (press_of c x)" using assms(1,3) by (simp add: phys_inv_def)
  note off = offer_published [OF assms(7,2)]
  have "queued \<Longrightarrow> \<not> pr_initially_held (press_of c x)" using off(3) assms(9) by blast
  note st = update_press_step [OF ok assms(5,6,11) this assms(12)]
  note w = with_press_inv [OF assms(1,3) st(1)]
  have local: "local_down_set (with_press x st' c) =
      (if S \<or> withholding \<and> pressed then local_down_set c else event_seen e (local_down_set c))"
    using w(2) st(2) id_in_sets(1) [OF assms(3), of c] assms(3)
    by (auto simp: assms(4) see_def split: if_splits)
  have queue: "queued_down_set (with_press x st' c) = queue_seen (published p p' q') (queued_down_set c)"
    if "\<not> is_stopped (cq_stop q')"
  proof (cases queued)
    case True
    then show ?thesis
      using off(3) w(3) st(3) assms(3) by (simp add: assms(8) see_def)
  next
    case False
    then have "\<not> wanted" "published p p' q' = []" using off(4) that by blast+
    moreover have "pressed \<or> \<not> pr_queued_down (press_of c x)"
      using \<open>\<not> wanted\<close> assms(10) ok by (auto simp: press_ok_def)
    ultimately show ?thesis
      using w(3) st(3) False id_in_sets(2) [OF assms(3), of c] by (auto split: if_splits)
  qed
  show ?thesis using w(1) off(1,2) local queue by (simp add: faithful_step_def)
qed

lemma other_fields [simp]:
  "press_of (c\<lparr>ph_chord_since := a\<rparr>) x = press_of c x" "press_of (c\<lparr>ph_reserved_escape := b\<rparr>) x = press_of c x"
  "press_of (c\<lparr>ph_last_time := t\<rparr>) x = press_of c x" "press_of (c\<lparr>ph_motion := w\<rparr>) x = press_of c x"
  "press_of (c\<lparr>ph_travel := w\<rparr>) x = press_of c x" "press_of (c\<lparr>ph_take_back := g\<rparr>) x = press_of c x"
  "press_of (c\<lparr>ph_withholding_since := a\<rparr>) x = press_of c x" "press_of (c\<lparr>ph_routing_revision := r\<rparr>) x = press_of c x"
  by (cases x; simp)+

text \<open>Two captures with the same records, whatever else differs.\<close>

definition same_ledger :: "'k physical_capture \<Rightarrow> 'k physical_capture \<Rightarrow> bool" where
  "same_ledger c d = (ph_keys c = ph_keys d \<and> ph_buttons c = ph_buttons d)"

lemma same_ledger_press_of: "same_ledger c d \<Longrightarrow> press_of c x = press_of d x"
  by (cases x) (simp_all add: same_ledger_def)

lemma same_ledger_sets:
  assumes "same_ledger c d"
  shows "phys_inv c = phys_inv d" "local_down_set c = local_down_set d" "queued_down_set c = queued_down_set d"
  using assms same_ledger_press_of [OF assms]
  by (simp_all add: phys_inv_def local_down_set_def queued_down_set_def same_ledger_def)

lemma faithful_same:
  assumes "faithful_step e R (c, p, q) (c', p', q')" "same_ledger d c" "same_ledger d' c'"
  shows "faithful_step e R (d, p, q) (d', p', q')"
  using assms same_ledger_sets by (metis (no_types, lifting) case_prod_conv faithful_step_def)

lemma tick_same: "phys_tick now c s = (c1, s1) \<Longrightarrow> same_ledger c1 c \<and> (is_stopped s \<longrightarrow> is_stopped s1)"
  by (auto simp: phys_tick_def same_ledger_def stop_permanent split: if_splits option.splits)

lemma deliberate_same: "deliberate e travel g now c = (b, c1) \<Longrightarrow> same_ledger c1 c"
  by (auto simp: deliberate_def same_ledger_def Let_def split: if_splits option.splits capture_event.splits prod.splits)

lemma observe_same: "observe_take_back others e travel now s c = Some (g, c1) \<Longrightarrow> same_ledger c1 c"
  by (auto simp: observe_take_back_def same_ledger_def clear_windows_def Let_def
      split: option.splits if_splits prod.splits bool.splits dest!: deliberate_same)

lemma withholding_same: "phys_withholding now s c = (b, c1) \<Longrightarrow> same_ledger c1 c"
  by (auto simp: phys_withholding_def same_ledger_def Let_def split: option.splits if_splits)

lemma key_chord_ledger:
  assumes "key_chord u pressed now c = (reserved, chord_repeat, c1)" "unat u < length (ph_keys c)"
  shows "ph_keys c1 ! unat u = (ph_keys c ! unat u)\<lparr>pr_physical := pressed\<rparr>"
    "same_ledger (c1\<lparr>ph_keys := (ph_keys c1)[unat u := st]\<rparr>) (with_press (IKey u) st c)"
proof -
  have c1: "c1 = snd (snd (key_chord u pressed now c))" using assms(1) by simp
  have "ph_keys c1 = (ph_keys c)[unat u := (ph_keys c ! unat u)\<lparr>pr_physical := pressed\<rparr>]"
    "ph_buttons c1 = ph_buttons c"
    unfolding c1 by (simp_all add: key_chord_def Let_def)
  then show "ph_keys c1 ! unat u = (ph_keys c ! unat u)\<lparr>pr_physical := pressed\<rparr>"
    "same_ledger (c1\<lparr>ph_keys := (ph_keys c1)[unat u := st]\<rparr>) (with_press (IKey u) st c)"
    using assms(2) by (simp_all add: same_ledger_def)
qed

lemma same_ledger_refl [simp]: "same_ledger c c"
  by (simp add: same_ledger_def)

lemma process_key_faithful:
  assumes "phys_inv c" "length (cq_slots q) = 512"
    "process_key u pressed remote generation withholding now (c, p, q) = (R, (c', p', q'))"
  shows "faithful_step (KeyEvent u pressed rep mods) R (c, p, q) (c', p', q')"
proof (cases "hid_is_valid u")
  case False
  then show ?thesis
    using assms by (auto simp: process_key_def faithful_step_def see_def)
next
  case True
  have small: "unat u < length (ph_keys c)" using valid_key_small [OF True] assms(1) by (simp add: phys_inv_def)
  obtain reserved chord_repeat c1 where k: "key_chord u pressed now c = (reserved, chord_repeat, c1)"
    by (rule prod_cases3)
  note led = key_chord_ledger [OF k small]
  have x: "id_valid (IKey u)" and seen: "event_seen (KeyEvent u pressed rep mods) = see (IKey u) pressed"
    using True by (simp_all add: fun_eq_iff)
  let ?prev = "ph_keys c ! unat u"
  have state: "ph_keys c1 ! unat u = press_of c (IKey u) \<or>
      ph_keys c1 ! unat u = (press_of c (IKey u))\<lparr>pr_physical := pressed\<rparr>"
    using led(1) by simp
  show ?thesis
  proof (cases "withhold_press (ph_keys c1 ! unat u) ?prev pressed withholding")
    case (Some r)
    obtain S st where r: "r = (S, st)" by (cases r)
    have "faithful_step (KeyEvent u pressed rep mods) S (c, p, q) (with_press (IKey u) st c, p, q)"
      using withheld_faithful [OF assms(1,2) x seen state] Some r by simp
    from faithful_same [OF this same_ledger_refl led(2)] show ?thesis
      using assms(3) Some r k True by (auto simp: process_key_def)
  next
    case None
    let ?wanted = "\<not> pr_initially_held ?prev \<and> (if pressed then \<not> reserved \<and> \<not> chord_repeat else pr_queued_down ?prev)"
    let ?r = "tag (KeyEvent u pressed (pressed \<and> pr_physical ?prev) (phys_modifiers c1)) remote generation c1"
    obtain queued p1 q1 where o: "offer ?wanted ?r (p, q) = (queued, p1, q1)" by (rule prod_cases3)
    obtain S st where up: "update_press (ph_keys c1 ! unat u) ?prev pressed
        (remote \<and> queued \<or> reserved \<and> \<not> is_stopped (cq_stop q1)) = (S, st)"
      by (rule prod.exhaust)
    have rs: "event_seen (ce_event ?r) = see (IKey u) pressed" by (simp add: tag_def fun_eq_iff)
    have "faithful_step (KeyEvent u pressed rep mods) (S \<or> withholding \<and> pressed) (c, p, q)
        (with_press (IKey u) (if pressed \<and> queued then st\<lparr>pr_queued_down := True\<rparr> else st) c, p1, q1)"
      by (rule updated_faithful [OF assms(1,2) x seen state _ o rs _ _ _ refl])
        (use None up in auto)
    from faithful_same [OF this same_ledger_refl led(2)] show ?thesis
      using assms(3) None o up k True by (auto simp: process_key_def)
  qed
qed

lemma process_button_faithful:
  assumes "phys_inv c" "length (cq_slots q) = 512" "e = ButtonEvent b pressed t"
    "process_button e b pressed remote generation withholding (c, p, q) = (R, (c', p', q'))"
  shows "faithful_step e R (c, p, q) (c', p', q')"
proof -
  have x: "id_valid (IButton b)" and seen: "event_seen e = see (IButton b) pressed"
    using assms(3) by (simp_all add: fun_eq_iff)
  let ?prev = "ph_buttons c ! button_index b"
  show ?thesis
  proof (cases "withhold_press ?prev ?prev pressed withholding")
    case (Some r)
    then show ?thesis
      using withheld_faithful [OF assms(1,2) x seen, of ?prev withholding] assms(4)
      by (cases r) (auto simp: process_button_def)
  next
    case None
    let ?wanted = "\<not> pr_initially_held ?prev \<and> (pressed \<or> pr_queued_down ?prev)"
    obtain queued p1 q1 where o: "offer ?wanted (tag e remote generation c) (p, q) = (queued, p1, q1)"
      by (rule prod_cases3)
    obtain S st where up: "update_press ?prev ?prev pressed (remote \<and> queued) = (S, st)"
      by (rule prod.exhaust)
    have rs: "event_seen (ce_event (tag e remote generation c)) = see (IButton b) pressed"
      using seen by (simp add: tag_def)
    have "faithful_step e (S \<or> withholding \<and> pressed) (c, p, q)
        (with_press (IButton b) (if pressed \<and> queued then st\<lparr>pr_queued_down := True\<rparr> else st) c, p1, q1)"
      by (rule updated_faithful [OF assms(1,2) x seen _ _ o rs _ _ _ refl, where state = ?prev])
        (use None up in auto)
    then show ?thesis using assms(4) None o up by (auto simp: process_button_def)
  qed
qed

lemma process_other_faithful:
  assumes "phys_inv c" "length (cq_slots q) = 512" "event_seen e = (\<lambda>V. V)"
    "process_other e remote generation withholding (c, p, q) = (R, (c', p', q'))"
  shows "faithful_step e R (c, p, q) (c', p', q')"
proof -
  obtain queued p1 q1 where o: "offer True (tag e remote generation c) (p, q) = (queued, p1, q1)"
    by (rule prod_cases3)
  note off = offer_published [OF o assms(2)]
  show ?thesis
    using assms off o by (cases queued) (auto simp: process_other_def faithful_step_def tag_def)
qed

lemma faithful_earlier_stop:
  assumes "faithful_step e R (c, p, q1) (c', p', q')" "is_stopped (cq_stop q) \<longrightarrow> is_stopped (cq_stop q1)"
  shows "faithful_step e R (c, p, q) (c', p', q')"
  using assms by (auto simp: faithful_step_def)

lemma process_faithful:
  assumes "phys_inv c" "length (cq_slots q) = 512"
    "process_with_travel others e travel remote now (c, p, q) = Some (R, (c', p', q'))"
  shows "faithful_step e R (c, p, q) (c', p', q')"
proof -
  obtain c1 s where t: "phys_tick now c (cq_stop q) = (c1, s)" by (rule prod.exhaust)
  obtain g c2 where o: "observe_take_back others e travel now s c1 = Some (g, c2)"
    using assms(3) t by (auto simp: process_with_travel_def Let_def split: option.splits)
  obtain w c3 where h: "phys_withholding now s c2 = (w, c3)" by (rule prod.exhaust)
  let ?q1 = "q\<lparr>cq_stop := s\<rparr>" and ?remote = "remote \<and> is_ready_for_suppression c1 \<and> \<not> is_stopped s"
  have same: "same_ledger c c3"
    using tick_same [OF t] observe_same [OF o] withholding_same [OF h] by (simp add: same_ledger_def)
  have inv: "phys_inv c3" "length (cq_slots ?q1) = 512"
    using assms(1,2) same_ledger_sets(1) [OF same] by simp_all
  have run: "(case e of
        KeyEvent u pressed _ _ \<Rightarrow> process_key u pressed ?remote g w now (c3, p, ?q1)
      | ButtonEvent b pressed _ \<Rightarrow> process_button e b pressed ?remote g w (c3, p, ?q1)
      | _ \<Rightarrow> process_other e ?remote g w (c3, p, ?q1)) = (R, (c', p', q'))"
    using assms(3) t o h by (simp add: process_with_travel_def Let_def)
  have other: "faithful_step e R (c3, p, ?q1) (c', p', q')"
    if "process_other e ?remote g w (c3, p, ?q1) = (R, (c', p', q'))" "event_seen e = (\<lambda>V. V)"
    using process_other_faithful [OF inv that(2,1)] .
  have "faithful_step e R (c3, p, ?q1) (c', p', q')"
  proof (cases e)
    case (KeyEvent u pressed rep mods)
    then show ?thesis using process_key_faithful [OF inv] run by simp
  next
    case (ButtonEvent b pressed t)
    then show ?thesis using process_button_faithful [OF inv ButtonEvent] run by simp
  qed (use run other in \<open>simp_all add: fun_eq_iff\<close>)
  then have "faithful_step e R (c, p, ?q1) (c', p', q')"
    using faithful_same same same_ledger_refl by blast
  then show ?thesis by (rule faithful_earlier_stop) (use tick_same [OF t] in simp)
qed

subsection \<open>A run of a capture\<close>

text \<open>
  Everything that happens to the ledger of a running capture: native events, the transfers and
  forgotten presses the native owner reports, ticks, new routes with their barriers, stops, pops by
  the consumer, and any change of the shared gate by other threads.
\<close>

datatype 'k phys_event =
    PEvent "(u64 \<Rightarrow> u64) list" capture_event "(f64 \<times> f64) option" bool duration
  | PTransfer local_transfer
  | PForget held_since_start
  | PTick duration
  | PRoute u64
  | PBarrier bool u64 u64
  | PStop stop_reason
  | PPop capture_consumer
  | PGate "'k take_back_gate option"

fun transfer_seen :: "local_transfer \<Rightarrow> input_id set \<Rightarrow> input_id set" where
  "transfer_seen (TransferKey u pressed) V = see (IKey u) pressed V"
| "transfer_seen (TransferButton b pressed) V = see (IButton b) pressed V"

fun held_id :: "held_since_start \<Rightarrow> input_id" where
  "held_id (HeldKey u) = IKey u"
| "held_id (HeldButton b) = IButton b"

text \<open>The state, what local apps see down, and what the reader of the queue sees down.\<close>

type_synonym 'k phys_views = "'k phys_state \<times> input_id set \<times> input_id set"

fun phys_step :: "'k phys_event \<Rightarrow> 'k phys_views \<Rightarrow> 'k phys_views option" where
  "phys_step (PEvent others e travel remote now) ((c, p, q), L, Q) =
     (case process_with_travel others e travel remote now (c, p, q) of
        None \<Rightarrow> None
      | Some (R, (c', p', q')) \<Rightarrow>
          Some ((c', p', q'), if R then L else event_seen e L, queue_seen (published p p' q') Q))"
| "phys_step (PTransfer t) ((c, p, q), L, Q) = Some ((apply_transfer_success t c, p, q), transfer_seen t L, Q)"
| "phys_step (PForget held) ((c, p, q), L, Q) =
     (let (forgot, c') = forget_initially_held held c
      in Some ((c', p, q), if forgot then L - {held_id held} else L, Q))"
| "phys_step (PTick now) ((c, p, q), L, Q) =
     (let (c', s) = phys_tick now c (cq_stop q) in Some ((c', p, q\<lparr>cq_stop := s\<rparr>), L, Q))"
| "phys_step (PRoute revision) ((c, p, q), L, Q) = Some ((set_routing_revision revision c, p, q), L, Q)"
| "phys_step (PBarrier remote revision generation) ((c, p, q), L, Q) =
     (let (res, p', q') = try_push_tagged \<lparr>ce_event = RouteChanged remote revision,
            ce_routing_revision = revision, ce_remote = remote, ce_floor_generation = generation\<rparr> (p, q)
      in Some ((c, p', q'), L, queue_seen (published p p' q') Q))"
| "phys_step (PStop r) ((c, p, q), L, Q) = Some ((c, p, q\<lparr>cq_stop := capture_stop_stop r (cq_stop q)\<rparr>), L, Q)"
| "phys_step (PPop k) ((c, p, q), L, Q) =
     (let (res, k', q') = try_pop_tagged (k, q) in Some ((c, p, q'), L, Q))"
| "phys_step (PGate g) ((c, p, q), L, Q) = Some ((c\<lparr>ph_take_back := g\<rparr>, p, q), L, Q)"

fun phys_run :: "'k phys_event list \<Rightarrow> 'k phys_views \<Rightarrow> 'k phys_views option" where
  "phys_run [] v = Some v"
| "phys_run (e # es) v = (case phys_step e v of None \<Rightarrow> None | Some v' \<Rightarrow> phys_run es v')"

definition phys_start ::
    "bool \<Rightarrow> duration \<Rightarrow> 'k take_back_gate option \<Rightarrow> hid_usage list \<Rightarrow> mouse_button list \<Rightarrow> 'k physical_capture" where
  "phys_start passive now gate ks bs =
     fold seed_locally_held_button bs (fold seed_locally_held_key ks
       ((if passive then new_passive now else physical_new now)\<lparr>ph_take_back := gate\<rparr>))"

definition phys_begin ::
    "bool \<Rightarrow> duration \<Rightarrow> 'k take_back_gate option \<Rightarrow> hid_usage list \<Rightarrow> mouse_button list \<Rightarrow> 'k phys_views" where
  "phys_begin passive now gate ks bs =
     (let (q, p, k) = capture_channel None;
          c = phys_start passive now gate ks bs
      in ((c, p, q), {x. id_valid x \<and> x \<in> IKey ` set ks \<union> IButton ` set bs}, {}))"

definition views_inv :: "'k phys_views \<Rightarrow> bool" where
  "views_inv = (\<lambda>((c, p, q), L, Q). phys_inv c \<and> length (cq_slots q) = 512 \<and> L = local_down_set c \<and>
     (\<not> is_stopped (cq_stop q) \<longrightarrow> Q = queued_down_set c))"

lemma views_inv_press:
  assumes "views_inv ((c, p, q), L, Q)" "id_valid x" "press_ok st" "same_ledger d (with_press x st c)"
    "pr_queued_down st = pr_queued_down (press_of c x)"
  shows "views_inv ((d, p, q), see x (pr_local_down st) L, Q)"
proof -
  have c: "phys_inv c" "L = local_down_set c" using assms(1) by (simp_all add: views_inv_def)
  note w = with_press_inv [OF c(1) assms(2,3)] and d = same_ledger_sets [OF assms(4)]
  have "queued_down_set d = queued_down_set c"
    using d(3) w(3) assms(5) id_in_sets(2) [OF assms(2), of c] by (simp add: insert_absorb)
  moreover have "local_down_set d = see x (pr_local_down st) L"
    using d(2) w(2) assms(2) c(2) by (simp add: see_def)
  ultimately show ?thesis using assms(1) d(1) w(1) by (simp add: views_inv_def)
qed

lemma press_of_ok: "phys_inv c \<Longrightarrow> id_valid x \<Longrightarrow> press_ok (press_of c x)"
  by (simp add: phys_inv_def)

lemma views_inv_transfer:
  assumes "views_inv ((c, p, q), L, Q)"
  shows "views_inv ((apply_transfer_success t c, p, q), transfer_seen t L, Q)"
proof -
  have inv: "phys_inv c" using assms by (simp add: views_inv_def)
  show ?thesis
  proof (cases t)
    case (TransferKey u pressed)
    show ?thesis
    proof (cases "hid_is_valid u")
      case True
      then show ?thesis
        using views_inv_press [OF assms, of "IKey u" "transferred pressed (press_of c (IKey u))"]
          press_of_ok [OF inv, of "IKey u"] TransferKey by simp
    next
      case False
      then show ?thesis using assms TransferKey by (simp add: see_def)
    qed
  next
    case (TransferButton b pressed)
    then show ?thesis
      using views_inv_press [OF assms, of "IButton b" "transferred pressed (press_of c (IButton b))"]
        press_of_ok [OF inv, of "IButton b"] by simp
  qed
qed

lemma views_inv_forget:
  assumes "views_inv ((c, p, q), L, Q)" "forget_initially_held held c = (forgot, c')"
  shows "views_inv ((c', p, q), if forgot then L - {held_id held} else L, Q)"
proof (cases forgot)
  case False
  then show ?thesis
    using assms by (auto simp: forget_initially_held_def Let_def split: held_since_start.splits if_splits)
next
  case True
  let ?x = "held_id held"
  have f: "id_valid ?x" "pr_initially_held (press_of c ?x)" "same_ledger c' (with_press ?x press_default c)"
    using assms(2) True
    by (auto simp: forget_initially_held_def Let_def same_ledger_def split: held_since_start.splits if_splits)
  have "\<not> pr_queued_down (press_of c ?x)"
    using press_of_ok [of c, OF _ f(1)] f(2) assms(1) by (auto simp: views_inv_def press_ok_def)
  then show ?thesis
    using views_inv_press [OF assms(1) f(1) press_ok_default(1) f(3)] True f(1) by (simp add: see_def)
qed

lemma push_seen:
  assumes "try_push_tagged r (p, q) = (res, p', q')" "length (cq_slots q) = 512" "event_seen (ce_event r) = (\<lambda>V. V)"
  shows "length (cq_slots q') = 512" "is_stopped (cq_stop q) \<Longrightarrow> is_stopped (cq_stop q')"
    "queue_seen (published p p' q') V = V"
proof -
  have "length (cq_slots q') = 512 \<and> (is_stopped (cq_stop q) \<longrightarrow> is_stopped (cq_stop q')) \<and>
      queue_seen (published p p' q') V = V"
  proof (cases "is_stopped (cq_stop q)")
    case True
    then show ?thesis using assms by (cases "cq_stop q") (auto simp: try_push_tagged_def)
  next
    case False
    then have "offer True r (p, q) = (is_ok res, p', q')" using assms(1) by (simp add: offer_def)
    note off = offer_published [OF this assms(2)]
    show ?thesis using off assms(3) False by (cases "is_ok res") auto
  qed
  then show "length (cq_slots q') = 512" "is_stopped (cq_stop q) \<Longrightarrow> is_stopped (cq_stop q')"
    "queue_seen (published p p' q') V = V"
    by blast+
qed

lemma pop_keeps:
  assumes "try_pop_tagged (k, q) = (res, k', q')"
  shows "length (cq_slots q') = length (cq_slots q)" "is_stopped (cq_stop q) \<Longrightarrow> is_stopped (cq_stop q')"
  using assms
  by (auto simp: try_pop_tagged_def update_slot_def queue_fail_def stopped_or_def Let_def
      split: option.splits if_splits prod.splits)

lemma views_inv_step:
  assumes "views_inv v" "phys_step e v = Some v'"
  shows "views_inv v'"
proof -
  obtain c p q L Q where v: "v = ((c, p, q), L, Q)" by (metis surj_pair)
  note inv = assms(1) [unfolded v]
  have i: "phys_inv c" "length (cq_slots q) = 512" "L = local_down_set c"
    "\<not> is_stopped (cq_stop q) \<Longrightarrow> Q = queued_down_set c"
    using inv by (simp_all add: views_inv_def)
  show ?thesis
  proof (cases e)
    case (PEvent others ev travel remote now)
    then obtain R c' p' q' where
      r: "process_with_travel others ev travel remote now (c, p, q) = Some (R, (c', p', q'))"
      using assms(2) v by (auto split: option.splits)
    show ?thesis
      using process_faithful [OF i(1,2) r] assms(2) v PEvent r i(3,4)
      by (auto simp: views_inv_def faithful_step_def)
  next
    case (PTransfer t)
    then show ?thesis using views_inv_transfer [OF inv, of t] assms(2) v by simp
  next
    case (PForget held)
    obtain forgot c' where f: "forget_initially_held held c = (forgot, c')" by (rule prod.exhaust)
    then show ?thesis using views_inv_forget [OF inv f] PForget assms(2) v by simp
  next
    case (PTick now)
    obtain c' s where t: "phys_tick now c (cq_stop q) = (c', s)" by (rule prod.exhaust)
    then show ?thesis
      using tick_same [OF t] same_ledger_sets [of c' c] PTick assms(2) v i by (auto simp: views_inv_def)
  next
    case (PRoute revision)
    then show ?thesis
      using same_ledger_sets [of "set_routing_revision revision c" c] assms(2) v i
      by (auto simp: views_inv_def set_routing_revision_def same_ledger_def)
  next
    case (PBarrier remote revision generation)
    let ?r = "\<lparr>ce_event = RouteChanged remote revision, ce_routing_revision = revision, ce_remote = remote,
        ce_floor_generation = generation\<rparr>"
    obtain res p' q' where t: "try_push_tagged ?r (p, q) = (res, p', q')" by (rule prod_cases3)
    have "event_seen (ce_event ?r) = (\<lambda>V. V)" by (simp add: fun_eq_iff)
    from push_seen [OF t i(2) this] show ?thesis
      using t PBarrier assms(2) v i by (auto simp: views_inv_def)
  next
    case (PStop r)
    then show ?thesis using assms(2) v i by (cases "cq_stop q") (auto simp: views_inv_def)
  next
    case (PPop k)
    obtain res k' q' where t: "try_pop_tagged (k, q) = (res, k', q')" by (rule prod_cases3)
    then show ?thesis using pop_keeps [OF t] PPop assms(2) v i by (auto simp: views_inv_def)
  next
    case (PGate g)
    then show ?thesis
      using same_ledger_sets [of "c\<lparr>ph_take_back := g\<rparr>" c] assms(2) v i by (auto simp: views_inv_def same_ledger_def)
  qed
qed

lemma views_inv_run: "views_inv v \<Longrightarrow> phys_run evs v = Some v' \<Longrightarrow> views_inv v'"
proof (induction evs arbitrary: v)
  case (Cons e evs)
  then obtain u where u: "phys_step e v = Some u" "phys_run evs u = Some v'"
    by (auto split: option.splits)
  show ?case by (rule Cons.IH [OF views_inv_step [OF Cons.prems(1) u(1)] u(2)])
qed simp

lemma seeded_inv:
  assumes "phys_inv c" "queued_down_set c = {}" "id_valid x"
  shows "phys_inv (with_press x initial_press c)" "queued_down_set (with_press x initial_press c) = {}"
    "local_down_set (with_press x initial_press c) = insert x (local_down_set c)"
  using with_press_inv [OF assms(1,3) press_ok_default(2)] assms(2) by simp_all

lemma seed_keys:
  assumes "phys_inv c" "queued_down_set c = {}"
  shows "phys_inv (fold seed_locally_held_key ks c) \<and> queued_down_set (fold seed_locally_held_key ks c) = {} \<and>
    local_down_set (fold seed_locally_held_key ks c) = local_down_set c \<union> {x. id_valid x \<and> x \<in> IKey ` set ks}"
  using assms
proof (induction ks arbitrary: c)
  case (Cons u ks)
  have "seed_locally_held_key u c = (if id_valid (IKey u) then with_press (IKey u) initial_press c else c)"
    by (simp add: seed_locally_held_key_def)
  then show ?case using Cons seeded_inv [OF Cons.prems, of "IKey u"] by auto
qed auto

lemma seed_buttons:
  assumes "phys_inv c" "queued_down_set c = {}"
  shows "phys_inv (fold seed_locally_held_button bs c) \<and> queued_down_set (fold seed_locally_held_button bs c) = {} \<and>
    local_down_set (fold seed_locally_held_button bs c) = local_down_set c \<union> IButton ` set bs"
  using assms
proof (induction bs arbitrary: c)
  case (Cons b bs)
  have "seed_locally_held_button b c = with_press (IButton b) initial_press c"
    by (simp add: seed_locally_held_button_def)
  then show ?case using Cons seeded_inv [OF Cons.prems, of "IButton b"] by auto
qed auto

lemma press_of_fresh:
  assumes "ph_keys c = replicate 256 press_default" "ph_buttons c = replicate 5 press_default" "id_valid x"
  shows "press_of c x = press_default"
  using assms valid_key_small button_index_less by (cases x) auto

lemma views_inv_begin: "views_inv (phys_begin passive now gate ks bs)"
proof -
  let ?c = "(if passive then new_passive now else physical_new now)\<lparr>ph_take_back := gate\<rparr>"
  have f: "ph_keys ?c = replicate 256 press_default" "ph_buttons ?c = replicate 5 press_default"
    by (simp_all add: new_passive_def physical_new_def)
  have "phys_inv ?c" "queued_down_set ?c = {}" "local_down_set ?c = {}"
    using press_of_fresh [OF f] f by (auto simp: phys_inv_def queued_down_set_def local_down_set_def)
  then show ?thesis
    using seed_keys [of ?c ks] seed_buttons [of "fold seed_locally_held_key ks ?c" bs]
    by (auto simp: views_inv_def phys_begin_def phys_start_def capture_channel_def CAPTURE_QUEUE_CAPACITY_def)
qed

text \<open>
  C18: The physical ledger keeps both sides consistent. Over any run of a capture - native events on
  any route, take-backs that withhold or not, transfers, forgotten presses, route barriers, pops,
  ticks, stops, and any change of the shared gate - local apps have down exactly the keys and
  buttons whose record says so, so every press they were shown is released to them; and until the
  capture stops, the reader of the queue has down exactly those recorded as queued, each of which is
  physically held, so once everything is physically up nothing is down for the reader either.
\<close>

theorem physical_capture_faithful:
  assumes "phys_run evs (phys_begin passive now gate ks bs) = Some ((c, p, q), L, Q)"
  shows "L = {x. id_valid x \<and> pr_local_down (press_of c x)} \<and>
    (\<not> is_stopped (cq_stop q) \<longrightarrow>
       Q = {x. id_valid x \<and> pr_queued_down (press_of c x)} \<and>
       (\<forall>x\<in>Q. pr_physical (press_of c x)))"
proof -
  have "views_inv ((c, p, q), L, Q)" by (rule views_inv_run [OF views_inv_begin assms])
  then show ?thesis
    by (auto simp: views_inv_def local_down_set_def queued_down_set_def phys_inv_def press_ok_def)
qed

lemma no_gate_runs:
  assumes "ph_take_back c = None"
  shows "\<exists>v. phys_step (PEvent others (KeyEvent u pressed rep mods) travel remote now) ((c, p, q), L, Q) = Some v"
proof -
  obtain c1 s where t: "phys_tick now c (cq_stop q) = (c1, s)" by (rule prod.exhaust)
  then have "ph_take_back c1 = None" using assms by (auto simp: phys_tick_def split: if_splits)
  then show ?thesis
    using t by (auto simp: process_with_travel_def observe_take_back_def Let_def split: prod.splits)
qed

theorem physical_capture_faithful_witness:
  "\<exists>c p q L Q. phys_run [PEvent [] (KeyEvent 4 True False 0) None False 0 :: unit phys_event]
       (phys_begin False 0 None [] []) = Some ((c, p, q), L, Q) \<and>
     L = {x. id_valid x \<and> pr_local_down (press_of c x)}"
proof -
  obtain c0 :: "unit physical_capture" and p0 q0 L0 Q0
    where b: "phys_begin False 0 None [] [] = ((c0, p0, q0), L0, Q0)" by (metis surj_pair)
  have "ph_take_back c0 = None"
    using b by (auto simp: phys_begin_def phys_start_def physical_new_def capture_channel_def)
  then obtain v where "phys_step (PEvent [] (KeyEvent 4 True False 0) None False 0) ((c0, p0, q0), L0, Q0) = Some v"
    using no_gate_runs by blast
  then have r: "phys_run [PEvent [] (KeyEvent 4 True False 0) None False 0] (phys_begin False 0 None [] []) = Some v"
    using b by simp
  obtain c p q L Q where v: "v = ((c, p, q), L, Q)" by (metis surj_pair)
  show ?thesis using physical_capture_faithful [OF r [unfolded v]] r v by auto
qed

lemma handoff_plan_fits: "phys_inv c \<Longrightarrow> length (handoff_plan remote c) \<le> 261"
proof -
  assume "phys_inv c"
  then have "length (enumerate 0 (ph_keys c)) = 256" "length button_all = 5"
    by (simp_all add: phys_inv_def button_all_def)
  then show ?thesis
    unfolding handoff_plan_def push_buttons_def length_append length_map
    by (intro order_trans [OF add_mono [OF length_filter_le length_filter_le]]) simp
qed

end
