(* ===== verification/Latches.thy ===== *)
theory Latches
  imports Prelude
begin

section \<open>Decisions that hold over time: \<open>gesture_latch.rs\<close>, \<open>display_settle.rs\<close>\<close>

text \<open>
  The latch that keeps a touch session on the route it started on, and the judge of whether a
  display change is real. Both are told the time, as nanoseconds on one clock; differences saturate.
\<close>

subsection \<open>The gesture latch\<close>

abbreviation (input) TOUCH_STREAM_IDLE :: duration where "TOUCH_STREAM_IDLE \<equiv> from_millis 500"

datatype touch_record = Opens | Continues | Closes | Standalone

record latch_decision =
  deliver_locally :: bool
  publish_record :: bool

definition routed :: "bool \<Rightarrow> bool \<Rightarrow> latch_decision" where
  "routed latched_remote remote = \<lparr>deliver_locally = \<not> latched_remote, publish_record = (latched_remote = remote)\<rparr>"

record open_session =
  os_remote :: bool
  os_last :: duration

type_synonym gesture_latch = "open_session option"

definition latched :: "duration \<Rightarrow> gesture_latch \<Rightarrow> bool option" where
  "latched now l =
     (case l of
        None \<Rightarrow> None
      | Some session \<Rightarrow> if now - os_last session < TOUCH_STREAM_IDLE then Some (os_remote session) else None)"

definition latch_expire :: "duration \<Rightarrow> gesture_latch \<Rightarrow> gesture_latch" where
  "latch_expire now l = (if latched now l = None then None else l)"

definition latch_decide :: "touch_record \<Rightarrow> bool \<Rightarrow> duration \<Rightarrow> gesture_latch \<Rightarrow> latch_decision \<times> gesture_latch" where
  "latch_decide r remote now l0 =
     (let l = latch_expire now l0 in
      case r of
        Opens \<Rightarrow> (routed remote remote, Some \<lparr>os_remote = remote, os_last = now\<rparr>)
      | Standalone \<Rightarrow> (routed remote remote, l)
      | _ \<Rightarrow>
          (case l of
             None \<Rightarrow> (routed remote remote, l)
           | Some session \<Rightarrow>
               (routed (os_remote session) remote,
                if r = Closes then None else Some (session\<lparr>os_last := now\<rparr>))))"

fun latch_run :: "(touch_record \<times> bool \<times> duration) list \<Rightarrow> gesture_latch \<Rightarrow> latch_decision list \<times> gesture_latch" where
  "latch_run [] l = ([], l)"
| "latch_run ((r, remote, now) # rs) l =
     (let (d, l1) = latch_decide r remote now l; (ds, l2) = latch_run rs l1 in (d # ds, l2))"

text \<open>Each record comes less than the idle time after the one before it.\<close>

fun unbroken :: "duration \<Rightarrow> duration list \<Rightarrow> bool" where
  "unbroken t [] = True"
| "unbroken t (u # us) = (u - t < TOUCH_STREAM_IDLE \<and> unbroken u us)"

lemma latch_alive:
  assumes "now - t < TOUCH_STREAM_IDLE"
  shows "latch_decide Continues remote now (Some \<lparr>os_remote = r, os_last = t\<rparr>) =
      (routed r remote, Some \<lparr>os_remote = r, os_last = now\<rparr>)"
    "latch_decide Closes remote now (Some \<lparr>os_remote = r, os_last = t\<rparr>) = (routed r remote, None)"
  using assms by (simp_all add: latch_decide_def latch_expire_def latched_def)

lemma latch_continues:
  "unbroken t (map snd moves @ [tc]) \<Longrightarrow>
   latch_run (map (\<lambda>(remote, now). (Continues, remote, now)) moves @ [(Closes, rc, tc)])
       (Some \<lparr>os_remote = r, os_last = t\<rparr>) =
     (map (\<lambda>(remote, now). routed r remote) moves @ [routed r rc], None)"
  by (induction moves arbitrary: t) (auto simp: latch_alive)

text \<open>
  C38: A touch session stays whole on the route it opened on. Whatever was latched before, a session
  opened on route \<open>r\<close>, continued by any records on any routes and closed, with no gap of half a
  second, has every record delivered locally exactly when \<open>r\<close> is local, published exactly when the
  route of the moment is \<open>r\<close> - so none is ever published on the other route - and leaves no session
  open; a record that comes half a second or more after the last one finds the session gone, is
  delivered locally exactly when the route of the moment is local, and is published.
\<close>

theorem touch_session_keeps_route:
  assumes "unbroken t (map snd moves @ [tc])"
  shows "latch_run ((Opens, r, t) # map (\<lambda>(remote, now). (Continues, remote, now)) moves @ [(Closes, rc, tc)]) l =
      (map (\<lambda>remote. \<lparr>deliver_locally = \<not> r, publish_record = (remote = r)\<rparr>) (r # map fst moves @ [rc]), None) \<and>
    (\<forall>k remote now. TOUCH_STREAM_IDLE \<le> now - t \<longrightarrow>
       fst (latch_decide k remote now (Some \<lparr>os_remote = r, os_last = t\<rparr>))
         = \<lparr>deliver_locally = \<not> remote, publish_record = True\<rparr>)"
proof -
  have "latch_decide Opens r t l = (routed r r, Some \<lparr>os_remote = r, os_last = t\<rparr>)"
    by (simp add: latch_decide_def)
  then have "latch_run ((Opens, r, t) # map (\<lambda>(remote, now). (Continues, remote, now)) moves @ [(Closes, rc, tc)]) l =
      (map (\<lambda>remote. \<lparr>deliver_locally = \<not> r, publish_record = (remote = r)\<rparr>) (r # map fst moves @ [rc]), None)"
    using latch_continues [OF assms, of rc r] by (auto simp: routed_def)
  moreover have "fst (latch_decide k remote now (Some \<lparr>os_remote = r, os_last = t\<rparr>))
      = \<lparr>deliver_locally = \<not> remote, publish_record = True\<rparr>"
    if "TOUCH_STREAM_IDLE \<le> now - t" for k remote now
    using that by (cases k) (simp_all add: latch_decide_def latch_expire_def latched_def routed_def)
  ultimately show ?thesis by blast
qed

theorem touch_session_keeps_route_witness:
  "latch_run [(Opens, True, 0), (Continues, False, from_millis 100), (Continues, True, from_millis 200),
       (Closes, False, from_millis 300)] None =
     ([\<lparr>deliver_locally = False, publish_record = True\<rparr>, \<lparr>deliver_locally = False, publish_record = False\<rparr>,
       \<lparr>deliver_locally = False, publish_record = True\<rparr>, \<lparr>deliver_locally = False, publish_record = False\<rparr>], None)"
  using touch_session_keeps_route [of 0 "[(False, from_millis 100), (True, from_millis 200)]" "from_millis 300" True False None]
  by simp

subsection \<open>Display settling\<close>

abbreviation (input) DISPLAY_SETTLE_LIMIT :: duration where "DISPLAY_SETTLE_LIMIT \<equiv> from_secs 3"
abbreviation (input) DISPLAY_STEADY_FOR :: duration where "DISPLAY_STEADY_FOR \<equiv> from_millis 250"

datatype display_read = ReadSame | ReadDifferent | ReadUnreadable

datatype display_verdict = Steady | Unsettled | Recovered duration | DisplayChanged

record display_settle =
  ds_limit :: duration
  ds_steady_for :: duration
  ds_since :: "duration option"
  ds_matching_since :: "duration option"
  ds_decided :: bool

definition settle_with_timing :: "duration \<Rightarrow> duration \<Rightarrow> display_settle" where
  "settle_with_timing limit steady_for = \<lparr>ds_limit = limit, ds_steady_for = steady_for, ds_since = None,
     ds_matching_since = None, ds_decided = False\<rparr>"

abbreviation (input) settle_default :: display_settle where "settle_default \<equiv> settle_with_timing DISPLAY_SETTLE_LIMIT DISPLAY_STEADY_FOR"

definition settle_suspect :: "duration \<Rightarrow> display_settle \<Rightarrow> display_settle" where
  "settle_suspect now s =
     s\<lparr>ds_since := (case ds_since s of None \<Rightarrow> Some now | Some t \<Rightarrow> Some t), ds_matching_since := None\<rparr>"

definition settle_expire :: "duration \<Rightarrow> duration \<Rightarrow> display_settle \<Rightarrow> display_verdict \<times> display_settle" where
  "settle_expire since now s =
     (if ds_limit s \<le> now - since then (DisplayChanged, s\<lparr>ds_decided := True\<rparr>) else (Unsettled, s))"

definition settle_observe :: "display_read \<Rightarrow> duration \<Rightarrow> display_settle \<Rightarrow> display_verdict \<times> display_settle" where
  "settle_observe read now s =
     (if ds_decided s then (DisplayChanged, s)
      else case ds_since s of
          None \<Rightarrow>
            if read = ReadSame then (Steady, s)
            else settle_expire now now (s\<lparr>ds_since := Some now\<rparr>)
        | Some since \<Rightarrow>
            if read \<noteq> ReadSame then settle_expire since now (s\<lparr>ds_matching_since := None\<rparr>)
            else
              let matching = (case ds_matching_since s of None \<Rightarrow> now | Some t \<Rightarrow> t);
                  s1 = s\<lparr>ds_matching_since := Some matching\<rparr>
              in if ds_steady_for s1 \<le> now - matching
                 then (Recovered (matching - since), s1\<lparr>ds_since := None, ds_matching_since := None\<rparr>)
                 else (Unsettled, s1))"

fun settle_run :: "(display_read \<times> duration) list \<Rightarrow> display_settle \<Rightarrow> display_verdict list \<times> display_settle" where
  "settle_run [] s = ([], s)"
| "settle_run ((read, now) # rs) s =
     (let (v, s1) = settle_observe read now s; (vs, s2) = settle_run rs s1 in (v # vs, s2))"

definition suspecting :: "duration \<Rightarrow> duration \<Rightarrow> duration \<Rightarrow> duration option \<Rightarrow> display_settle" where
  "suspecting limit steady since matching = \<lparr>ds_limit = limit, ds_steady_for = steady, ds_since = Some since,
     ds_matching_since = matching, ds_decided = False\<rparr>"

lemma settle_append:
  "settle_run (xs @ ys) s =
     (let (vs, s1) = settle_run xs s; (ws, s2) = settle_run ys s1 in (vs @ ws, s2))"
  by (induction xs arbitrary: s) (auto simp: Let_def split_beta)

lemma settle_away:
  "list_all (\<lambda>(read, now). read \<noteq> ReadSame \<and> now - since < limit) rs \<Longrightarrow>
   settle_run rs (suspecting limit steady since None) = (map (\<lambda>_. Unsettled) rs, suspecting limit steady since None)"
  by (induction rs) (auto simp: settle_observe_def settle_expire_def suspecting_def)

lemma settle_matching:
  "list_all (\<lambda>now. now - matching < steady) ts \<Longrightarrow>
   settle_run (map (\<lambda>now. (ReadSame, now)) ts) (suspecting limit steady since (Some matching)) =
     (map (\<lambda>_. Unsettled) ts, suspecting limit steady since (Some matching))"
  by (induction ts) (auto simp: settle_observe_def suspecting_def)

lemma settle_decided:
  "ds_decided s \<Longrightarrow> settle_run rs s = (map (\<lambda>_. DisplayChanged) rs, s)"
  by (induction rs) (auto simp: settle_observe_def)

text \<open>
  C39: A display flap is survived and a display change is not. From a steady start: if the displays go
  away at time \<open>t\<close>, every reread within the limit finds them away, and from time \<open>m\<close> on they read the
  same again until they have done so for the steady time, the last verdict is a recovery with the
  exact time they were away, all verdicts before it are undecided, and the judge is steady again;
  if instead they are still away at or after \<open>t\<close> plus the limit, that verdict is a change and so is
  every later one, whatever is read.
\<close>

theorem display_settle_exact:
  assumes "0 < limit" "0 < steady" "bad \<noteq> ReadSame"
    and "list_all (\<lambda>(read, now). read \<noteq> ReadSame \<and> now - t < limit) away"
    and "list_all (\<lambda>now. now - m < steady) same"
  shows "(m + steady \<le> e \<longrightarrow>
      settle_run ((bad, t) # away @ (ReadSame, m) # map (\<lambda>now. (ReadSame, now)) same @ [(ReadSame, e)])
          (settle_with_timing limit steady) =
        (Unsettled # map (\<lambda>_. Unsettled) away @ Unsettled # map (\<lambda>_. Unsettled) same @ [Recovered (m - t)],
         settle_with_timing limit steady)) \<and>
    (bad' \<noteq> ReadSame \<and> t + limit \<le> e \<longrightarrow>
      fst (settle_run ((bad, t) # away @ (bad', e) # later) (settle_with_timing limit steady)) =
        Unsettled # map (\<lambda>_. Unsettled) away @ DisplayChanged # map (\<lambda>_. DisplayChanged) later)"
proof -
  have start: "settle_observe bad t (settle_with_timing limit steady) = (Unsettled, suspecting limit steady t None)"
    using assms(1,3) by (simp add: settle_observe_def settle_expire_def settle_with_timing_def suspecting_def)
  have first: "settle_observe ReadSame m (suspecting limit steady t None) =
      (Unsettled, suspecting limit steady t (Some m))"
    using assms(2) by (simp add: settle_observe_def suspecting_def)
  have "settle_observe ReadSame e (suspecting limit steady t (Some m)) =
      (Recovered (m - t), settle_with_timing limit steady)" if "m + steady \<le> e"
    using that by (simp add: settle_observe_def suspecting_def settle_with_timing_def Let_def le_diff_conv2)
  moreover have "settle_observe bad' e (suspecting limit steady t None) =
      (DisplayChanged, (suspecting limit steady t None)\<lparr>ds_decided := True\<rparr>)" if "bad' \<noteq> ReadSame" "t + limit \<le> e"
    using that by (simp add: settle_observe_def settle_expire_def suspecting_def)
  ultimately show ?thesis
    using start first settle_away [OF assms(4), of steady] settle_matching [OF assms(5), of limit t]
      settle_decided [of "(suspecting limit steady t None)\<lparr>ds_decided := True\<rparr>" later]
    by (simp add: settle_append)
qed

theorem display_settle_exact_witness:
  "settle_run [(ReadUnreadable, from_secs 1), (ReadSame, from_secs 3), (ReadSame, from_secs 4)] settle_default =
     ([Unsettled, Unsettled, Recovered (from_secs 2)], settle_default)"
  using display_settle_exact [of "from_secs 3" "from_millis 250" ReadUnreadable "from_secs 1" "[]" "from_secs 3" "[]"
      "from_secs 4" ReadSame "[]"]
  by simp

end
