(* ===== verification/Clicks.thy ===== *)
theory Clicks
  imports Topology
begin

section \<open>Multi-clicks: \<open>monhop-core/src/clicks.rs\<close>\<close>

text \<open>
  The source numbers each press of a multi-click; the receiver lands its later presses on the first
  and shifts the moves of a double-click-drag by the same offset. An operation of the landing that
  could panic (an index, or a clamp against an unordered range) has no result when it does.
\<close>

abbreviation (input) FALLBACK_DOUBLE_CLICK_INTERVAL :: duration where "FALLBACK_DOUBLE_CLICK_INTERVAL \<equiv> from_millis 500"

definition DOUBLE_CLICK_SLOP :: f64 where "DOUBLE_CLICK_SLOP = f64_of_int 8"

definition within_slop :: "point \<Rightarrow> point \<Rightarrow> bool" where
  "within_slop from to =
     (f64_le (f64_abs (f64_sub (pt_x from) (pt_x to))) DOUBLE_CLICK_SLOP \<and>
      f64_le (f64_abs (f64_sub (pt_y from) (pt_y to))) DOUBLE_CLICK_SLOP)"

record click_sequence =
  seq_button :: mouse_button
  seq_anchor :: point
  seq_at :: duration
  seq_count :: u8

record click_counter =
  cc_interval :: duration
  cc_last :: "click_sequence option"

definition counter_press :: "mouse_button \<Rightarrow> point \<Rightarrow> duration \<Rightarrow> click_counter \<Rightarrow> u8 \<times> click_counter" where
  "counter_press button position now c =
     (let fresh = \<lparr>seq_button = button, seq_anchor = position, seq_at = now, seq_count = 1\<rparr>;
          next_seq = (case cc_last c of
              None \<Rightarrow> fresh
            | Some prev \<Rightarrow>
                if seq_button prev = button \<and>
                   (case duration_checked_sub now (seq_at prev) of None \<Rightarrow> False | Some gap \<Rightarrow> gap \<le> cc_interval c) \<and>
                   within_slop position (seq_anchor prev)
                then prev\<lparr>seq_at := now, seq_count := saturating_add (seq_count prev) 1\<rparr>
                else fresh)
      in (seq_count next_seq, c\<lparr>cc_last := Some next_seq\<rparr>))"

definition counter_reset :: "click_counter \<Rightarrow> click_counter" where
  "counter_reset c = c\<lparr>cc_last := None\<rparr>"

record click_shift =
  sh_button :: mouse_button
  sh_display :: nat
  sh_by :: point

record click_landing =
  cl_displays :: "logical_rect list"
  cl_source :: "point option"
  cl_first :: "point option list"
  cl_shift :: "click_shift option"

definition landing_new :: "logical_rect list \<Rightarrow> click_landing" where
  "landing_new displays = \<lparr>cl_displays = displays, cl_source = None, cl_first = replicate 5 None, cl_shift = None\<rparr>"

definition move_target :: "point \<Rightarrow> click_landing \<Rightarrow> point option" where
  "move_target source l =
     (case cl_shift l of
        None \<Rightarrow> Some source
      | Some sh \<Rightarrow>
          (case slice_index (cl_displays l) (sh_display sh) of
             None \<Rightarrow> None
           | Some display \<Rightarrow>
               if rect_contains_half_open display source
               then rect_clamp_half_open display
                 (point_new (f64_add (pt_x source) (pt_x (sh_by sh))) (f64_add (pt_y source) (pt_y (sh_by sh))))
               else Some source))"

definition landing_moved :: "point \<Rightarrow> click_landing \<Rightarrow> click_landing option" where
  "landing_moved source l =
     (let l1 = l\<lparr>cl_source := Some source\<rparr> in
      case cl_shift l1 of
        None \<Rightarrow> Some l1
      | Some sh \<Rightarrow>
          (case slice_index (cl_displays l1) (sh_display sh) of
             None \<Rightarrow> None
           | Some display \<Rightarrow>
               if \<not> rect_contains_half_open display source
               then Some (l1\<lparr>cl_shift := Some (sh\<lparr>sh_by := point_new f64_zero f64_zero\<rparr>)\<rparr>)
               else Some l1))"

definition continued :: "mouse_button \<Rightarrow> u8 \<Rightarrow> click_landing \<Rightarrow> point option" where
  "continued button click_count l =
     (case cl_first l ! button_index button of
        None \<Rightarrow> None
      | Some first \<Rightarrow>
          if 1 < click_count \<and> (case cl_source l of None \<Rightarrow> False | Some source \<Rightarrow> within_slop source first)
          then Some first else None)"

fun display_position :: "point \<Rightarrow> nat \<Rightarrow> logical_rect list \<Rightarrow> nat option" where
  "display_position p i [] = None"
| "display_position p i (r # rs) = (if rect_contains_half_open r p then Some i else display_position p (i + 1) rs)"

definition snap :: "mouse_button \<Rightarrow> u8 \<Rightarrow> click_landing \<Rightarrow> (point \<times> click_shift) option option" where
  "snap button click_count l =
     (if cl_shift l \<noteq> None then Some None
      else case (cl_source l, continued button click_count l) of
          (Some source, Some first) \<Rightarrow>
            (case display_position source 0 (cl_displays l) of
               None \<Rightarrow> Some None
             | Some display \<Rightarrow>
                 (case Option.bind (slice_index (cl_displays l) display) (\<lambda>r. rect_clamp_half_open r first) of
                    None \<Rightarrow> None
                  | Some target \<Rightarrow>
                      if point_eq target source then Some None
                      else Some (Some (target, \<lparr>sh_button = button, sh_display = display,
                        sh_by = point_new (f64_sub (pt_x target) (pt_x source))
                          (f64_sub (pt_y target) (pt_y source))\<rparr>))))
        | _ \<Rightarrow> Some None)"

definition press_target :: "mouse_button \<Rightarrow> u8 \<Rightarrow> click_landing \<Rightarrow> point option option" where
  "press_target button click_count l = map_option (map_option fst) (snap button click_count l)"

definition landing_pressed :: "mouse_button \<Rightarrow> u8 \<Rightarrow> click_landing \<Rightarrow> click_landing option" where
  "landing_pressed button click_count l =
     (case snap button click_count l of
        None \<Rightarrow> None
      | Some (Some (_, sh)) \<Rightarrow> Some (l\<lparr>cl_shift := Some sh\<rparr>)
      | Some None \<Rightarrow>
          if continued button click_count l \<noteq> None then Some l
          else case cl_source l of
              None \<Rightarrow> Some (l\<lparr>cl_first := (cl_first l)[button_index button := None]\<rparr>)
            | Some source \<Rightarrow>
                map_option (\<lambda>t. l\<lparr>cl_first := (cl_first l)[button_index button := Some t]\<rparr>) (move_target source l))"

definition release_target :: "mouse_button \<Rightarrow> click_landing \<Rightarrow> point option option" where
  "release_target button l =
     (case (cl_shift l, cl_source l) of
        (Some sh, Some source) \<Rightarrow>
          if sh_button sh \<noteq> button then Some None
          else map_option (\<lambda>t. if \<not> point_eq t source then Some source else None) (move_target source l)
      | _ \<Rightarrow> Some None)"

definition landing_released :: "mouse_button \<Rightarrow> click_landing \<Rightarrow> click_landing" where
  "landing_released button l =
     (case cl_shift l of
        None \<Rightarrow> l
      | Some sh \<Rightarrow> if sh_button sh = button then l\<lparr>cl_shift := None\<rparr> else l)"

definition landing_clear :: "click_landing \<Rightarrow> click_landing" where
  "landing_clear l = l\<lparr>cl_source := None, cl_first := replicate 5 None, cl_shift := None\<rparr>"

subsection \<open>The source's numbering\<close>

fun counter_run :: "(mouse_button \<times> point \<times> duration) list \<Rightarrow> click_counter \<Rightarrow> u8 list \<times> click_counter" where
  "counter_run [] c = ([], c)"
| "counter_run ((b, p, t) # ps) c =
     (let (n, c1) = counter_press b p t c; (ns, c2) = counter_run ps c1 in (n # ns, c2))"

text \<open>Each press comes no earlier and at most the interval after the one before it.\<close>

fun paced :: "duration \<Rightarrow> duration \<Rightarrow> duration list \<Rightarrow> bool" where
  "paced interval t [] = True"
| "paced interval t (u # us) = (t \<le> u \<and> u - t \<le> interval \<and> paced interval u us)"

definition click_number :: "nat \<Rightarrow> u8" where
  "click_number k = word_of_nat (min 255 k)"

definition counting :: "mouse_button \<Rightarrow> point \<Rightarrow> duration \<Rightarrow> nat \<Rightarrow> duration \<Rightarrow> click_counter" where
  "counting b a t k interval = \<lparr>cc_interval = interval,
     cc_last = Some \<lparr>seq_button = b, seq_anchor = a, seq_at = t, seq_count = click_number k\<rparr>\<rparr>"

lemma click_number_Suc: "saturating_add (click_number k) 1 = click_number (Suc k)"
  by (cases "k < 254"; cases "k = 254") (simp_all add: saturating_add_def click_number_def unat_of_nat min_def)

lemma counter_press_continues:
  assumes "t \<le> u" "u - t \<le> interval" "within_slop p a"
  shows "counter_press b p u (counting b a t k interval) = (click_number (Suc k), counting b a u (Suc k) interval)"
  using assms by (simp add: counter_press_def counting_def duration_checked_sub_def click_number_Suc)

lemma counter_run_continues:
  "list_all (\<lambda>(p, u). within_slop p a) ps \<Longrightarrow> paced interval t (map snd ps) \<Longrightarrow>
   counter_run (map (\<lambda>(p, u). (b, p, u)) ps) (counting b a t k interval) =
     (map (\<lambda>i. click_number (Suc (k + i))) [0..<length ps],
      counting b a (last (t # map snd ps)) (k + length ps) interval)"
proof (induction ps arbitrary: t k)
  case (Cons x ps)
  obtain p u where x: "x = (p, u)" by (cases x)
  with Cons.prems have "counter_press b p u (counting b a t k interval) =
      (click_number (Suc k), counting b a u (Suc k) interval)"
    by (intro counter_press_continues) simp_all
  moreover have "[0..<Suc (length ps)] = 0 # map Suc [0..<length ps]"
    by (simp only: map_Suc_upt upt_conv_Cons zero_less_Suc)
  ultimately show ?case
    using Cons x by (simp del: upt_Suc add: comp_def)
qed simp

text \<open>
  The source numbers a multi-click exactly. After a reset, a press at \<open>a\<close> and any further presses
  of the same button, each within the slop of \<open>a\<close> and at most the interval after the one before, are
  numbered 1, 2, 3 and so on, stopping at 255; the press after them gets the next number if it is
  another such press, and 1 if its button differs, it strays from \<open>a\<close>, it comes later than the
  interval or its time is before the last press.
\<close>

theorem clicks_numbered:
  assumes "list_all (\<lambda>(p, u). within_slop p a) ps" "paced (cc_interval c0) t (map snd ps)"
  shows "\<exists>c. counter_run ((b, a, t) # map (\<lambda>(p, u). (b, p, u)) ps) (counter_reset c0) =
      (map (\<lambda>i. word_of_nat (min 255 (i + 1))) [0..<length ps + 1], c) \<and>
    (\<forall>b' p u. fst (counter_press b' p u c) =
       (if b' = b \<and> within_slop p a \<and> last (t # map snd ps) \<le> u \<and> u \<le> last (t # map snd ps) + cc_interval c0
        then word_of_nat (min 255 (length ps + 2)) else 1))"
proof -
  let ?fin = "counting b a (last (t # map snd ps)) (Suc (length ps)) (cc_interval c0)"
  have "counter_press b a t (counter_reset c0) = (1, counting b a t 1 (cc_interval c0))"
    by (simp add: counter_press_def counter_reset_def counting_def click_number_def)
  moreover have "map (\<lambda>i. click_number (i + 1)) [0..<length ps + 1] =
      1 # map (\<lambda>i. click_number (Suc (Suc i))) [0..<length ps]"
    by (simp only: upt_conv_Cons Suc_eq_plus1 [symmetric] zero_less_Suc map_Suc_upt [symmetric] list.map list.map_comp
        comp_def) (simp add: click_number_def)
  ultimately have "counter_run ((b, a, t) # map (\<lambda>(p, u). (b, p, u)) ps) (counter_reset c0) =
      (map (\<lambda>i. click_number (i + 1)) [0..<length ps + 1], ?fin)"
    using counter_run_continues [OF assms, of b 1] by simp
  moreover have "fst (counter_press b' p u ?fin) =
       (if b' = b \<and> within_slop p a \<and> last (t # map snd ps) \<le> u \<and> u \<le> last (t # map snd ps) + cc_interval c0
        then click_number (length ps + 2) else 1)" for b' p u
    by (auto simp: counter_press_def counting_def duration_checked_sub_def click_number_Suc Let_def le_diff_conv)
  ultimately show ?thesis unfolding click_number_def by blast
qed

subsection \<open>A receiver's run\<close>

datatype landing_event = LandMoved point | LandPressed mouse_button u8 | LandReleased mouse_button | LandCleared

fun landing_step :: "landing_event \<Rightarrow> click_landing \<Rightarrow> click_landing option" where
  "landing_step (LandMoved p) l = landing_moved p l"
| "landing_step (LandPressed b n) l = landing_pressed b n l"
| "landing_step (LandReleased b) l = Some (landing_released b l)"
| "landing_step LandCleared l = Some (landing_clear l)"

fun landing_run :: "landing_event list \<Rightarrow> click_landing \<Rightarrow> click_landing option" where
  "landing_run [] l = Some l"
| "landing_run (e # es) l = (case landing_step e l of None \<Rightarrow> None | Some l1 \<Rightarrow> landing_run es l1)"

text \<open>Moves come off the wire, where only finite points pass.\<close>

fun landing_event_ok :: "landing_event \<Rightarrow> bool" where
  "landing_event_ok (LandMoved p) = point_is_finite p"
| "landing_event_ok _ = True"

abbreviation point_not_nan :: "point \<Rightarrow> bool" where
  "point_not_nan p \<equiv> \<not> f64_is_nan (pt_x p) \<and> \<not> f64_is_nan (pt_y p)"

fun finite_option :: "point option \<Rightarrow> bool" where
  "finite_option None = True"
| "finite_option (Some p) = point_is_finite p"

definition landing_ok :: "logical_rect list \<Rightarrow> click_landing \<Rightarrow> bool" where
  "landing_ok displays l =
     (cl_displays l = displays \<and> list_all rect_ok displays \<and> length (cl_first l) = 5 \<and>
      list_all finite_option (cl_first l) \<and> finite_option (cl_source l) \<and>
      (case cl_shift l of
         None \<Rightarrow> True
       | Some sh \<Rightarrow> sh_display sh < length displays \<and> point_not_nan (sh_by sh)))"

lemma finite_not_nan: "f64_is_finite x \<Longrightarrow> \<not> f64_is_nan x"
  by (simp add: f64_is_finite_def f64_is_nan_def)

lemma f64_sub_not_nan: "f64_is_finite x \<Longrightarrow> f64_is_finite y \<Longrightarrow> \<not> f64_is_nan (f64_sub x y)"
  using f64_key_sub f64_not_nan_of_key by blast

lemma display_position_Some:
  "display_position p i rs = Some j \<Longrightarrow> i \<le> j \<and> j - i < length rs \<and> rect_contains_half_open (rs ! (j - i)) p"
proof (induction rs arbitrary: i)
  case (Cons r rs)
  show ?case
  proof (cases "rect_contains_half_open r p")
    case False
    with Cons.prems have "display_position p (i + 1) rs = Some j" by simp
    from Cons.IH [OF this] show ?thesis
      by (auto simp: nth_Cons' Suc_diff_le less_diff_conv2)
  qed (use Cons.prems in auto)
qed simp

lemma contains_finite: "rect_contains_half_open r p \<Longrightarrow> point_is_finite p"
  by (simp add: rect_contains_half_open_def)

lemma continued_finite:
  assumes "landing_ok ds l" "continued b n l = Some first"
  shows "point_is_finite first"
proof -
  have "cl_first l ! button_index b = Some first"
    using assms(2) by (auto simp: continued_def split: option.splits if_splits)
  moreover have "finite_option (cl_first l ! button_index b)"
    using assms(1) button_index_less [of b] by (simp add: landing_ok_def list_all_length)
  ultimately show ?thesis by simp
qed

text \<open>Where a move lands.\<close>

lemma move_target_total:
  assumes ok: "landing_ok ds l" and p: "point_is_finite p"
  shows "\<exists>t. move_target p l = Some t \<and> point_is_finite t \<and>
    (case cl_shift l of
       None \<Rightarrow> t = p
     | Some sh \<Rightarrow> if rect_contains_half_open (ds ! sh_display sh) p
                  then rect_contains_half_open (ds ! sh_display sh) t else t = p)"
proof (cases "cl_shift l")
  case None
  then show ?thesis using p by (simp add: move_target_def)
next
  case (Some sh)
  let ?q = "point_new (f64_add (pt_x p) (pt_x (sh_by sh))) (f64_add (pt_y p) (pt_y (sh_by sh)))"
  have "rect_ok (ds ! sh_display sh)" "point_not_nan (sh_by sh)" "cl_displays l = ds" "sh_display sh < length ds"
    using ok Some by (auto simp: landing_ok_def list_all_length)
  moreover have "point_not_nan ?q"
    using p calculation(2) by (simp add: point_new_def point_is_finite_def f64_add_not_nan)
  ultimately show ?thesis
    using rect_clamp_contained [of "ds ! sh_display sh" ?q] p Some
    by (auto simp: move_target_def intro: contains_finite)
qed

text \<open>Where a snapped press lands.\<close>

lemma snap_total:
  assumes ok: "landing_ok ds l"
  shows "snap b n l = Some None \<or>
    (\<exists>t sh source first. snap b n l = Some (Some (t, sh)) \<and> cl_shift l = None \<and> cl_source l = Some source \<and>
       continued b n l = Some first \<and> sh_button sh = b \<and> sh_display sh < length ds \<and> point_not_nan (sh_by sh) \<and>
       rect_contains_half_open (ds ! sh_display sh) source \<and> rect_contains_half_open (ds ! sh_display sh) t \<and>
       (rect_contains_half_open (ds ! sh_display sh) first \<longrightarrow> t = first))"
proof (cases "\<exists>source first d. cl_shift l = None \<and> cl_source l = Some source \<and> continued b n l = Some first \<and>
    display_position source 0 ds = Some d")
  case True
  then obtain source first d where *: "cl_shift l = None" "cl_source l = Some source"
    "continued b n l = Some first" "display_position source 0 ds = Some d" by blast
  have d: "d < length ds" "rect_contains_half_open (ds ! d) source"
    using display_position_Some [OF *(4)] by auto
  have ds: "cl_displays l = ds" "rect_ok (ds ! d)"
    using ok d(1) by (auto simp: landing_ok_def list_all_length)
  have "point_is_finite first" by (rule continued_finite [OF ok *(3)])
  then obtain t where t: "rect_clamp_half_open (ds ! d) first = Some t" "rect_contains_half_open (ds ! d) t"
    "rect_contains_half_open (ds ! d) first \<longrightarrow> t = first"
    using rect_clamp_contained [OF ds(2), of first] by (auto simp: point_is_finite_def finite_not_nan)
  have "point_not_nan (point_new (f64_sub (pt_x t) (pt_x source)) (f64_sub (pt_y t) (pt_y source)))"
    using contains_finite [OF t(2)] contains_finite [OF d(2)]
    by (simp add: point_new_def point_is_finite_def f64_sub_not_nan)
  then show ?thesis
    using * d ds t by (simp add: snap_def)
next
  case False
  then show ?thesis
    using ok by (auto simp: snap_def landing_ok_def split: option.splits)
qed

lemma landing_new_ok: "list_all rect_ok ds \<Longrightarrow> landing_ok ds (landing_new ds)"
  by (simp add: landing_ok_def landing_new_def list_all_length)

lemma landing_pressed_ok:
  assumes ok: "landing_ok ds l"
  shows "\<exists>l1. landing_pressed b n l = Some l1 \<and> landing_ok ds l1"
proof (cases "snap b n l = Some None")
  case False
  then show ?thesis
    using snap_total [OF ok, of b n] ok by (auto simp: landing_pressed_def landing_ok_def)
next
  case True
  have upd: "landing_ok ds (l\<lparr>cl_first := (cl_first l)[button_index b := x]\<rparr>)" if "finite_option x" for x
    using ok that button_index_less [of b]
    by (auto simp: landing_ok_def list_all_iff dest!: set_update_subset_insert [THEN subsetD])
  show ?thesis
  proof (cases "cl_source l")
    case None
    then show ?thesis using True ok upd [of None] by (simp add: landing_pressed_def)
  next
    case (Some p)
    then have "point_is_finite p" using ok by (simp add: landing_ok_def)
    then obtain t where "move_target p l = Some t" "point_is_finite t"
      using move_target_total [OF ok] by blast
    then show ?thesis using True ok Some upd [of "Some t"] by (simp add: landing_pressed_def)
  qed
qed

lemma landing_step_ok:
  assumes "landing_ok ds l" "landing_event_ok e"
  shows "\<exists>l1. landing_step e l = Some l1 \<and> landing_ok ds l1"
proof (cases e)
  case (LandPressed b n)
  then show ?thesis using landing_pressed_ok [OF assms(1)] by simp
next
  case (LandMoved p)
  have "\<not> f64_is_nan f64_zero" by (simp add: f64_is_nan_def f64_mag_def f64_inf_mag_def)
  then show ?thesis
    using LandMoved assms
    by (cases "cl_shift l") (auto simp: landing_ok_def landing_moved_def point_new_def Let_def)
qed (use assms in \<open>auto simp: landing_ok_def landing_released_def landing_clear_def list_all_length split: option.splits\<close>)

lemma landing_run_ok:
  "landing_ok ds l \<Longrightarrow> list_all landing_event_ok es \<Longrightarrow> \<exists>l1. landing_run es l = Some l1 \<and> landing_ok ds l1"
proof (induction es arbitrary: l)
  case (Cons e es)
  then obtain l1 where "landing_step e l = Some l1" "landing_ok ds l1"
    using landing_step_ok by fastforce
  then show ?case using Cons by auto
qed simp

text \<open>
  C40: A receiver lands every forwarded click without a panic and never off the display it belongs to.
  After any run of finite moves, presses, releases and clears over valid displays: a move is posted
  where the source points while no snapped button is down; while one is, it is posted on the snap's
  display whenever the source is on that display and where the source points otherwise; a snapped
  press lands on the display the source is on, and exactly on its first landing when that display
  has it; and releasing the snapped button posts moves where the source points again.
\<close>

theorem clicks_land_on_display:
  assumes "list_all rect_ok ds" "list_all landing_event_ok es"
  shows "\<exists>l. landing_run es (landing_new ds) = Some l \<and>
    (\<forall>p. point_is_finite p \<longrightarrow> (\<exists>t. move_target p l = Some t \<and> point_is_finite t \<and>
       (case cl_shift l of
          None \<Rightarrow> t = p
        | Some sh \<Rightarrow> if rect_contains_half_open (ds ! sh_display sh) p
                     then rect_contains_half_open (ds ! sh_display sh) t else t = p))) \<and>
    (\<forall>b n. \<exists>r. press_target b n l = Some r \<and>
       (\<forall>t. r = Some t \<longrightarrow> (\<exists>d source first. d < length ds \<and> cl_source l = Some source \<and>
          continued b n l = Some first \<and> rect_contains_half_open (ds ! d) source \<and>
          rect_contains_half_open (ds ! d) t \<and> (rect_contains_half_open (ds ! d) first \<longrightarrow> t = first)))) \<and>
    (\<forall>b. release_target b l \<noteq> None) \<and>
    (\<forall>sh p. cl_shift l = Some sh \<longrightarrow> move_target p (landing_released (sh_button sh) l) = Some p)"
proof -
  obtain l where l: "landing_run es (landing_new ds) = Some l" "landing_ok ds l"
    using landing_run_ok [OF landing_new_ok [OF assms(1)] assms(2)] by blast
  have "release_target b l \<noteq> None" for b
  proof (cases "cl_source l")
    case (Some p)
    then have "point_is_finite p" using l(2) by (simp add: landing_ok_def)
    then show ?thesis
      using Some move_target_total [OF l(2)] by (fastforce simp: release_target_def split: option.splits)
  qed (simp add: release_target_def split: option.splits)
  moreover have "\<exists>r. press_target b n l = Some r \<and>
       (\<forall>t. r = Some t \<longrightarrow> (\<exists>d source first. d < length ds \<and> cl_source l = Some source \<and>
          continued b n l = Some first \<and> rect_contains_half_open (ds ! d) source \<and>
          rect_contains_half_open (ds ! d) t \<and> (rect_contains_half_open (ds ! d) first \<longrightarrow> t = first)))" for b n
    using snap_total [OF l(2), of b n] by (fastforce simp: press_target_def)
  moreover have "move_target p (landing_released (sh_button sh) l) = Some p" if "cl_shift l = Some sh" for sh p
    using that by (simp add: landing_released_def move_target_def)
  ultimately show ?thesis
    using l move_target_total [OF l(2)] by blast
qed

text \<open>A double click on a display of 8 by 8 points, the second press 1 point off the first.\<close>

definition demo_clicks :: "landing_event list" where
  "demo_clicks = [LandMoved (point_new f64_one f64_one), LandPressed LeftButton 1, LandReleased LeftButton,
     LandMoved (point_new 0x4000000000000000 f64_one), LandPressed LeftButton 2]"

lemma demo_slop: "DOUBLE_CLICK_SLOP = 0x4020000000000000"
  by (simp add: DOUBLE_CLICK_SLOP_def f64_of_int_def f64_compute)

lemma demo_sub: "f64_sub f64_one 0x4000000000000000 = 0xBFF0000000000000" "f64_sub f64_one f64_one = 0"
   "f64_sub 0x4000000000000000 f64_one = f64_one"
  by (simp_all add: f64_compute)

lemma demo_add: "f64_add 0x4010000000000000 0xBFF0000000000000 = 0x4008000000000000"
    "f64_add 0x4010000000000000 0 = 0x4010000000000000"
  by (simp_all add: f64_compute)

abbreviation (input) demo_rect :: logical_rect where "demo_rect \<equiv> bounds (sample_display 1 [1])"

lemma demo_contains:
  "rect_contains_half_open demo_rect (point_new f64_one f64_one)"
  "rect_contains_half_open demo_rect (point_new 0x4000000000000000 f64_one)"
  "rect_contains_half_open demo_rect (point_new 0x4010000000000000 0x4010000000000000)"
  "rect_contains_half_open demo_rect (point_new 0x4008000000000000 0x4010000000000000)"
  by (simp_all add: rect_contains_half_open_def bounds_def sample_display_def display_new_def max_x_def max_y_def
      point_new_def point_is_finite_def sample_eight) (simp_all add: f64_compute)

lemma demo_clamp:
  "rect_clamp_half_open demo_rect (point_new f64_one f64_one) = Some (point_new f64_one f64_one)"
  "rect_clamp_half_open demo_rect (point_new 0x4008000000000000 0x4010000000000000) =
     Some (point_new 0x4008000000000000 0x4010000000000000)"
proof -
  have "rect_clamp_half_open demo_rect p = Some p" if "rect_contains_half_open demo_rect p" for p
    using rect_clamp_contained [OF display_ok_rect [OF sample_display_ok], of p 1 "[1]"] that contains_finite [OF that]
    by (auto simp: point_is_finite_def finite_not_nan)
  then show "rect_clamp_half_open demo_rect (point_new f64_one f64_one) = Some (point_new f64_one f64_one)"
    "rect_clamp_half_open demo_rect (point_new 0x4008000000000000 0x4010000000000000) =
     Some (point_new 0x4008000000000000 0x4010000000000000)"
    using demo_contains by blast+
qed

lemma demo_within: "within_slop (point_new 0x4000000000000000 f64_one) (point_new f64_one f64_one)"
  by (simp add: within_slop_def demo_slop point_new_def demo_sub) (simp add: f64_compute)

lemma demo_off: "\<not> point_eq (point_new f64_one f64_one) (point_new 0x4000000000000000 f64_one)"
  by (simp add: point_eq_def point_new_def f64_compute)

lemma demo_run:
  "landing_run demo_clicks (landing_new [demo_rect]) =
     Some \<lparr>cl_displays = [demo_rect], cl_source = Some (point_new 0x4000000000000000 f64_one),
       cl_first = [Some (point_new f64_one f64_one), None, None, None, None],
       cl_shift = Some \<lparr>sh_button = LeftButton, sh_display = 0, sh_by = point_new 0xBFF0000000000000 0\<rparr>\<rparr>"
  by (simp add: demo_clicks_def landing_new_def landing_moved_def landing_pressed_def landing_released_def snap_def
      continued_def move_target_def demo_contains demo_clamp demo_within demo_off numeral_eq_Suc)
    (simp add: point_new_def demo_sub)

theorem clicks_land_on_display_witness:
  "\<exists>l. landing_run demo_clicks (landing_new [demo_rect]) = Some l \<and> release_target LeftButton l \<noteq> None \<and>
     (\<exists>t. move_target (point_new 0x4000000000000000 f64_one) l = Some t \<and> rect_contains_half_open demo_rect t) \<and>
     move_target (point_new 0x4010000000000000 0x4010000000000000) l =
       Some (point_new 0x4008000000000000 0x4010000000000000)"
proof -
  let ?p = "point_new 0x4000000000000000 f64_one"
  have "list_all rect_ok [demo_rect]"
    using display_ok_rect [OF sample_display_ok] by simp
  moreover have "list_all landing_event_ok demo_clicks" "point_is_finite ?p"
    using demo_contains by (auto simp: demo_clicks_def dest: contains_finite)
  ultimately obtain l t where l: "landing_run demo_clicks (landing_new [demo_rect]) = Some l"
    "release_target LeftButton l \<noteq> None" "move_target ?p l = Some t"
    "case cl_shift l of None \<Rightarrow> t = ?p
     | Some sh \<Rightarrow> if rect_contains_half_open ([demo_rect] ! sh_display sh) ?p
                  then rect_contains_half_open ([demo_rect] ! sh_display sh) t else t = ?p"
    using clicks_land_on_display [of "[demo_rect]" demo_clicks] by blast
  then have "rect_contains_half_open demo_rect t" using demo_contains by (auto simp: demo_run split: if_splits)
  moreover have "move_target (point_new 0x4010000000000000 0x4010000000000000) l =
       Some (point_new 0x4008000000000000 0x4010000000000000)"
    using l(1) demo_contains(3) demo_clamp(2)
    by (simp add: demo_run) (auto simp: move_target_def point_new_def demo_add)
  ultimately show ?thesis using l by blast
qed

theorem clicks_numbered_witness:
  "\<exists>c. counter_run [(LeftButton, point_new f64_one f64_one, 0), (LeftButton, point_new 0x4000000000000000 f64_one, from_millis 200)]
       (counter_reset \<lparr>cc_interval = FALLBACK_DOUBLE_CLICK_INTERVAL, cc_last = None\<rparr>) = ([1, 2], c) \<and>
     fst (counter_press RightButton (point_new f64_one f64_one) (from_millis 300) c) = 1"
  using clicks_numbered [of "point_new f64_one f64_one" "[(point_new 0x4000000000000000 f64_one, from_millis 200)]"
      "\<lparr>cc_interval = FALLBACK_DOUBLE_CLICK_INTERVAL, cc_last = None\<rparr>" 0 LeftButton] demo_within
  by auto

end
