(* ===== verification/Capture_Control.thy ===== *)
theory Capture_Control
  imports Core_Types Wire_Enum
begin

section \<open>The capture control mailbox: \<open>monhop-core/src/capture_control.rs\<close>\<close>

text \<open>
  The controller's one-place mailbox to the capture thread. The operations are functions on the
  mailbox; then the writer's and the reader's stores are interleaved one by one. The reader's loads
  of a pending command are one step: only the reader can end the pending phase and the writer stores
  nothing during it.
\<close>

datatype capture_command = ActivateRemote duration | RemoteUntil duration | LocalAt point | LocalRestore

datatype control_error = CtlPending | CtlFailed | CtlExhausted | CtlInvalidDeadline | CtlInvalidPoint

datatype control_completion = CompletionApplied | CompletionFailed

fun completion_encoded :: "control_completion \<Rightarrow> u8" where
  "completion_encoded CompletionApplied = 1"
| "completion_encoded CompletionFailed = 2"

definition completion_from_encoded :: "u8 \<Rightarrow> control_completion option" where
  "completion_from_encoded v = (if v = 1 then Some CompletionApplied else if v = 2 then Some CompletionFailed else None)"

record control_mailbox =
  mb_requested :: u64
  mb_completed :: u64
  mb_completion :: u8
  mb_kind :: u8
  mb_deadline_ns :: u64
  mb_position_x_bits :: u64
  mb_position_y_bits :: u64

definition control_channel :: control_mailbox where
  "control_channel = \<lparr>mb_requested = 0, mb_completed = 0, mb_completion = completion_encoded CompletionApplied,
     mb_kind = 0, mb_deadline_ns = 0, mb_position_x_bits = 0, mb_position_y_bits = 0\<rparr>"

definition deadline_nanos :: "duration \<Rightarrow> control_error + u64" where
  "deadline_nanos d = (if d < 2 ^ 64 then Inr (word_of_nat d) else Inl CtlInvalidDeadline)"

fun control_payload :: "capture_command \<Rightarrow> control_error + u8 \<times> u64 \<times> u64 \<times> u64" where
  "control_payload (ActivateRemote d) = rbind (deadline_nanos d) (\<lambda>ns. Inr (1, ns, 0, 0))"
| "control_payload (RemoteUntil d) = rbind (deadline_nanos d) (\<lambda>ns. Inr (2, ns, 0, 0))"
| "control_payload (LocalAt p) = (if \<not> point_is_finite p then Inl CtlInvalidPoint else Inr (3, 0, pt_x p, pt_y p))"
| "control_payload LocalRestore = Inr (4, 0, 0, 0)"

text \<open>The stores of one call, in program order, and the call that makes them.\<close>

datatype control_store =
    StoreKind u8
  | StoreDeadline u64
  | StoreX u64
  | StoreY u64
  | StoreRequested u64
  | StoreCompletion u8
  | StoreCompleted u64

fun apply_store :: "control_store \<Rightarrow> control_mailbox \<Rightarrow> control_mailbox" where
  "apply_store (StoreKind v) m = m\<lparr>mb_kind := v\<rparr>"
| "apply_store (StoreDeadline v) m = m\<lparr>mb_deadline_ns := v\<rparr>"
| "apply_store (StoreX v) m = m\<lparr>mb_position_x_bits := v\<rparr>"
| "apply_store (StoreY v) m = m\<lparr>mb_position_y_bits := v\<rparr>"
| "apply_store (StoreRequested v) m = m\<lparr>mb_requested := v\<rparr>"
| "apply_store (StoreCompletion v) m = m\<lparr>mb_completion := v\<rparr>"
| "apply_store (StoreCompleted v) m = m\<lparr>mb_completed := v\<rparr>"

definition submit_stores :: "capture_command \<Rightarrow> control_mailbox \<Rightarrow> control_error + u64 \<times> control_store list" where
  "submit_stores command m =
     (if mb_completed m \<noteq> mb_requested m then Inl CtlPending
      else if completion_from_encoded (mb_completion m) = Some CompletionFailed then Inl CtlFailed
      else rbind (ok_or CtlExhausted (checked_add (mb_requested m) 1)) (\<lambda>revision.
        rbind (control_payload command) (\<lambda>(kind, deadline, x, y).
        Inr (revision, [StoreKind kind, StoreDeadline deadline, StoreX x, StoreY y, StoreRequested revision]))))"

definition submit :: "capture_command \<Rightarrow> control_mailbox \<Rightarrow> (control_error + u64) \<times> control_mailbox" where
  "submit command m =
     (case submit_stores command m of
        Inl e \<Rightarrow> (Inl e, m)
      | Inr (revision, stores) \<Rightarrow> (Inr revision, fold apply_store stores m))"

text \<open>\<open>None\<close> is the unreachable branch.\<close>

definition completed_revision :: "control_mailbox \<Rightarrow> (control_error + u64) option" where
  "completed_revision m =
     (case completion_from_encoded (mb_completion m) of
        Some CompletionApplied \<Rightarrow> Some (Inr (mb_completed m))
      | Some CompletionFailed \<Rightarrow> Some (Inl CtlFailed)
      | None \<Rightarrow> None)"

definition pending :: "control_mailbox \<Rightarrow> (u64 \<times> capture_command) option option" where
  "pending m =
     (if mb_requested m = mb_completed m then Some None
      else map_option (\<lambda>command. Some (mb_requested m, command))
        (if mb_kind m = 1 then Some (ActivateRemote (unat (mb_deadline_ns m)))
         else if mb_kind m = 2 then Some (RemoteUntil (unat (mb_deadline_ns m)))
         else if mb_kind m = 3 then Some (LocalAt (point_new (mb_position_x_bits m) (mb_position_y_bits m)))
         else if mb_kind m = 4 then Some LocalRestore
         else None))"

definition complete_stores :: "u64 \<Rightarrow> control_completion \<Rightarrow> control_store list" where
  "complete_stores revision completion = [StoreCompletion (completion_encoded completion), StoreCompleted revision]"

definition complete :: "u64 \<Rightarrow> control_completion \<Rightarrow> control_mailbox \<Rightarrow> control_mailbox" where
  "complete revision completion = fold apply_store (complete_stores revision completion)"

interpretation completion: wire_enum completion_encoded completion_from_encoded
proof
  show "completion_from_encoded (completion_encoded x) = Some x" for x
    by (cases x) (simp_all add: completion_from_encoded_def)
  show "completion_from_encoded w = Some x \<Longrightarrow> completion_encoded x = w" for w x
    by (auto simp: completion_from_encoded_def split: if_splits)
qed

subsection \<open>Writer and reader interleaved\<close>

text \<open>
  The stores each thread still has to make, the commands accepted by the writer, and those the reader
  has carried out with their outcome.
\<close>

record mail_system =
  ms_box :: control_mailbox
  ms_writer :: "control_store list"
  ms_reader :: "control_store list"
  ms_sent :: "(u64 \<times> capture_command) list"
  ms_done :: "((u64 \<times> capture_command) \<times> control_completion) list"

inductive mail_step :: "mail_system \<Rightarrow> mail_system \<Rightarrow> bool" where
  submit_begin: "ms_writer s = [] \<Longrightarrow> submit_stores c (ms_box s) = Inr (revision, stores) \<Longrightarrow>
    mail_step s (s\<lparr>ms_writer := stores, ms_sent := ms_sent s @ [(revision, c)]\<rparr>)"
| writer_store: "ms_writer s = x # xs \<Longrightarrow>
    mail_step s (s\<lparr>ms_box := apply_store x (ms_box s), ms_writer := xs\<rparr>)"
| complete_begin: "ms_reader s = [] \<Longrightarrow> pending (ms_box s) = Some (Some (revision, c)) \<Longrightarrow>
    mail_step s (s\<lparr>ms_reader := complete_stores revision k, ms_done := ms_done s @ [((revision, c), k)]\<rparr>)"
| reader_store: "ms_reader s = x # xs \<Longrightarrow>
    mail_step s (s\<lparr>ms_box := apply_store x (ms_box s), ms_reader := xs\<rparr>)"

definition mail_start :: mail_system where
  "mail_start = \<lparr>ms_box = control_channel, ms_writer = [], ms_reader = [], ms_sent = [], ms_done = []\<rparr>"

definition carries :: "capture_command \<Rightarrow> control_mailbox \<Rightarrow> bool" where
  "carries c m = (control_payload c = Inr (mb_kind m, mb_deadline_ns m, mb_position_x_bits m, mb_position_y_bits m))"

fun payload_store :: "control_store \<Rightarrow> bool" where
  "payload_store (StoreKind v) = True"
| "payload_store (StoreDeadline v) = True"
| "payload_store (StoreX v) = True"
| "payload_store (StoreY v) = True"
| "payload_store _ = False"

abbreviation all_applied :: "((u64 \<times> capture_command) \<times> control_completion) list \<Rightarrow> bool" where
  "all_applied \<equiv> list_all (\<lambda>(_, k). k = CompletionApplied)"

definition last_outcome :: "((u64 \<times> capture_command) \<times> control_completion) list \<Rightarrow> control_completion" where
  "last_outcome d = (if d = [] then CompletionApplied else snd (last d))"

definition revision_at :: "nat \<Rightarrow> u64" where "revision_at n = word_of_nat n"

text \<open>The four phases the mailbox goes through, and what every phase keeps.\<close>

definition idle :: "mail_system \<Rightarrow> bool" where
  "idle s = (ms_writer s = [] \<and> ms_reader s = [] \<and> map fst (ms_done s) = ms_sent s \<and>
     mb_requested (ms_box s) = revision_at (length (ms_sent s)) \<and> mb_completed (ms_box s) = mb_requested (ms_box s) \<and>
     mb_completion (ms_box s) = completion_encoded (last_outcome (ms_done s)))"

definition waiting :: "mail_system \<Rightarrow> bool" where
  "waiting s = (\<exists>c. ms_sent s = map fst (ms_done s) @ [(revision_at (length (ms_sent s)), c)] \<and> all_applied (ms_done s) \<and>
     ms_reader s = [] \<and> carries c (fold apply_store (ms_writer s) (ms_box s)) \<and>
     mb_completed (ms_box s) = revision_at (length (ms_done s)) \<and>
     mb_completion (ms_box s) = completion_encoded CompletionApplied \<and>
     (if ms_writer s = [] then mb_requested (ms_box s) = revision_at (length (ms_sent s))
      else mb_requested (ms_box s) = revision_at (length (ms_done s)) \<and>
        (\<exists>ps. ms_writer s = ps @ [StoreRequested (revision_at (length (ms_sent s)))] \<and> list_all payload_store ps)))"

definition completing :: "mail_system \<Rightarrow> bool" where
  "completing s = (\<exists>d x k. ms_done s = d @ [(x, k)] \<and> map fst (ms_done s) = ms_sent s \<and> ms_writer s = [] \<and>
     mb_requested (ms_box s) = revision_at (length (ms_sent s)) \<and> mb_completed (ms_box s) = revision_at (length d) \<and>
     (ms_reader s = complete_stores (revision_at (length (ms_sent s))) k \<and>
        mb_completion (ms_box s) = completion_encoded CompletionApplied \<or>
      ms_reader s = [StoreCompleted (revision_at (length (ms_sent s)))] \<and> mb_completion (ms_box s) = completion_encoded k))"

definition mail_inv :: "mail_system \<Rightarrow> bool" where
  "mail_inv s = (map fst (ms_sent s) = map (\<lambda>i. revision_at (Suc i)) [0..<length (ms_sent s)] \<and>
     length (ms_sent s) < 2 ^ 64 \<and> all_applied (butlast (ms_done s)) \<and> (idle s \<or> waiting s \<or> completing s))"

lemma unat_revision_at: "n < 2 ^ 64 \<Longrightarrow> unat (revision_at n) = n"
  by (simp add: revision_at_def unat_of_nat)

lemma revision_at_less: "a < b \<Longrightarrow> b < 2 ^ 64 \<Longrightarrow> revision_at a \<noteq> revision_at b"
  using unat_revision_at by (metis less_trans nat_neq_iff)

lemma revision_at_next: "n < 2 ^ 64 \<Longrightarrow> checked_add (revision_at n) 1 = Some r \<longleftrightarrow> Suc n < 2 ^ 64 \<and> r = revision_at (Suc n)"
  using unat_revision_at [of n] by (auto simp: checked_add_def revision_at_def)

lemma deadline_nanos_unat: "deadline_nanos d = Inr ns \<Longrightarrow> unat ns = d"
  by (auto simp: deadline_nanos_def unat_of_nat split: if_splits)

lemma carries_pending:
  assumes "carries c m" "mb_requested m \<noteq> mb_completed m"
  shows "pending m = Some (Some (mb_requested m, c))"
  using assms
  by (cases c)
    (auto simp: carries_def pending_def point_new_def rbind_eq_Inr_iff dest: deadline_nanos_unat split: if_splits)

lemma submit_stores_Inr:
  assumes "submit_stores c m = Inr (revision, stores)"
  shows "mb_completed m = mb_requested m" "completion_from_encoded (mb_completion m) \<noteq> Some CompletionFailed"
    "checked_add (mb_requested m) 1 = Some revision" "carries c (fold apply_store stores m)"
    "\<exists>ps. stores = ps @ [StoreRequested revision] \<and> list_all payload_store ps"
  using assms
  by (auto simp: submit_stores_def carries_def rbind_eq_Inr_iff split: if_splits)

lemma payload_store_keeps:
  "payload_store x \<Longrightarrow> mb_requested (apply_store x m) = mb_requested m \<and>
     mb_completed (apply_store x m) = mb_completed m \<and> mb_completion (apply_store x m) = mb_completion m"
  by (cases x) simp_all

lemma all_applied_last: "all_applied (butlast d) \<Longrightarrow> last_outcome d = CompletionApplied \<Longrightarrow> all_applied d"
  by (cases d rule: rev_cases) (auto simp: last_outcome_def)

lemma completing_cases:
  assumes "completing s"
  obtains d x k where "ms_done s = d @ [(x, k)]" "ms_sent s = map fst d @ [x]" "length (ms_sent s) = Suc (length d)"
    "ms_writer s = []" "mb_requested (ms_box s) = revision_at (Suc (length d))"
    "mb_completed (ms_box s) = revision_at (length d)"
    "ms_reader s = complete_stores (revision_at (Suc (length d))) k \<and>
        mb_completion (ms_box s) = completion_encoded CompletionApplied \<or>
      ms_reader s = [StoreCompleted (revision_at (Suc (length d)))] \<and> mb_completion (ms_box s) = completion_encoded k"
proof -
  from assms obtain d x k where *: "ms_done s = d @ [(x, k)]" "map fst (ms_done s) = ms_sent s" "ms_writer s = []"
    "mb_requested (ms_box s) = revision_at (length (ms_sent s))" "mb_completed (ms_box s) = revision_at (length d)"
    "ms_reader s = complete_stores (revision_at (length (ms_sent s))) k \<and>
        mb_completion (ms_box s) = completion_encoded CompletionApplied \<or>
      ms_reader s = [StoreCompleted (revision_at (length (ms_sent s)))] \<and> mb_completion (ms_box s) = completion_encoded k"
    unfolding completing_def by blast
  then have "ms_sent s = map fst d @ [x]" "length (ms_sent s) = Suc (length d)"
    by (simp_all flip: *(2))
  with * show ?thesis by (intro that) simp_all
qed

lemma waiting_length: "waiting s \<Longrightarrow> length (ms_sent s) = Suc (length (ms_done s))"
  by (auto simp: waiting_def dest!: arg_cong [where f = length])

lemma mail_inv_cases:
  assumes "mail_inv s"
  obtains "map fst (ms_done s) = ms_sent s" | "\<exists>x. map fst (ms_done s) @ [x] = ms_sent s"
proof (cases "waiting s")
  case True
  then show ?thesis using that(2) unfolding waiting_def by metis
qed (use assms that(1) in \<open>auto simp: mail_inv_def idle_def completing_def\<close>)

lemma mail_only_idle_accepts:
  assumes inv: "mail_inv s" and "mb_completed (ms_box s) = mb_requested (ms_box s)" "ms_writer s = []"
  shows "idle s"
proof -
  have n: "length (ms_sent s) < 2 ^ 64" using inv by (simp add: mail_inv_def)
  have "\<not> waiting s"
  proof
    assume w: "waiting s"
    then have "revision_at (length (ms_done s)) = revision_at (length (ms_sent s))"
      using assms(2,3) by (auto simp: waiting_def)
    then show False
      using revision_at_less [of "length (ms_done s)" "length (ms_sent s)"] waiting_length [OF w] n by simp
  qed
  moreover have "\<not> completing s"
    using assms(2) n by (auto elim!: completing_cases dest!: sym [of "revision_at _"] simp: revision_at_less)
  ultimately show ?thesis using inv by (simp add: mail_inv_def)
qed

lemma submit_begin_inv:
  assumes inv: "mail_inv s" and "ms_writer s = []" and st: "submit_stores c (ms_box s) = Inr (revision, stores)"
  shows "mail_inv (s\<lparr>ms_writer := stores, ms_sent := ms_sent s @ [(revision, c)]\<rparr>)"
proof -
  note st = submit_stores_Inr [OF st]
  have idle: "idle s" using mail_only_idle_accepts [OF inv st(1) assms(2)] .
  then have r: "revision = revision_at (Suc (length (ms_sent s)))" "Suc (length (ms_sent s)) < 2 ^ 64"
    using st(3) inv by (auto simp: idle_def mail_inv_def revision_at_next)
  have last_ok: "last_outcome (ms_done s) = CompletionApplied"
    using idle st(2) by (cases "last_outcome (ms_done s)") (auto simp: idle_def completion.from_to completion_from_encoded_def)
  then have done_ok: "all_applied (ms_done s)"
    using inv by (auto simp: mail_inv_def intro: all_applied_last)
  have len: "length (ms_done s) = length (ms_sent s)"
    using idle by (auto simp: idle_def dest!: arg_cong [where f = length])
  have "waiting (s\<lparr>ms_writer := stores, ms_sent := ms_sent s @ [(revision, c)]\<rparr>)"
    using idle r(1) done_ok last_ok len st(4,5) by (auto simp: waiting_def idle_def)
  then show ?thesis
    using inv r by (simp add: mail_inv_def)
qed

lemma writer_store_inv:
  assumes inv: "mail_inv s" and wr: "ms_writer s = x # xs"
  shows "mail_inv (s\<lparr>ms_box := apply_store x (ms_box s), ms_writer := xs\<rparr>)"
proof -
  have "waiting s"
    using inv wr by (auto simp: mail_inv_def idle_def completing_def)
  moreover from this obtain ps where ps: "x # xs = ps @ [StoreRequested (revision_at (length (ms_sent s)))]"
    "list_all payload_store ps"
    using wr by (auto simp: waiting_def)
  ultimately have "waiting (s\<lparr>ms_box := apply_store x (ms_box s), ms_writer := xs\<rparr>)"
    using wr payload_store_keeps [of x "ms_box s"] by (cases ps) (auto simp: waiting_def)
  then show ?thesis using inv by (simp add: mail_inv_def)
qed

lemma pending_waiting:
  assumes inv: "mail_inv s" and rd: "ms_reader s = []" and "pending (ms_box s) = Some (Some x)"
  shows "ms_sent s = map fst (ms_done s) @ [x]" "all_applied (ms_done s)" "ms_writer s = []"
    "mb_requested (ms_box s) = revision_at (length (ms_sent s))" "fst x = revision_at (length (ms_sent s))"
    "mb_completed (ms_box s) = revision_at (length (ms_done s))"
    "mb_completion (ms_box s) = completion_encoded CompletionApplied"
proof -
  have ne: "mb_requested (ms_box s) \<noteq> mb_completed (ms_box s)"
    using assms(3) by (auto simp: pending_def)
  then have w: "waiting s"
    using inv rd by (auto simp: mail_inv_def idle_def completing_def complete_stores_def)
  with ne show wr: "ms_writer s = []" by (auto simp: waiting_def split: if_splits)
  with w obtain c where "ms_sent s = map fst (ms_done s) @ [(revision_at (length (ms_sent s)), c)]"
    "carries c (ms_box s)" by (auto simp: waiting_def)
  then show "ms_sent s = map fst (ms_done s) @ [x]" "fst x = revision_at (length (ms_sent s))"
    using carries_pending [OF _ ne] w wr assms(3) by (auto simp: waiting_def)
  show "all_applied (ms_done s)" "mb_requested (ms_box s) = revision_at (length (ms_sent s))"
    "mb_completed (ms_box s) = revision_at (length (ms_done s))"
    "mb_completion (ms_box s) = completion_encoded CompletionApplied"
    using w wr by (auto simp: waiting_def)
qed

lemma complete_begin_inv:
  assumes inv: "mail_inv s" and rd: "ms_reader s = []" and pe: "pending (ms_box s) = Some (Some (revision, c))"
  shows "mail_inv (s\<lparr>ms_reader := complete_stores revision k, ms_done := ms_done s @ [((revision, c), k)]\<rparr>)"
proof -
  note p = pending_waiting [OF inv rd pe]
  have "completing (s\<lparr>ms_reader := complete_stores revision k, ms_done := ms_done s @ [((revision, c), k)]\<rparr>)"
    using p by (simp add: completing_def)
  then show ?thesis using inv p(2) by (simp add: mail_inv_def)
qed

lemma reader_store_inv:
  assumes inv: "mail_inv s" and rd: "ms_reader s = x # xs"
  shows "mail_inv (s\<lparr>ms_box := apply_store x (ms_box s), ms_reader := xs\<rparr>)"
proof -
  let ?t = "s\<lparr>ms_box := apply_store x (ms_box s), ms_reader := xs\<rparr>"
  have "completing s"
    using inv rd by (auto simp: mail_inv_def idle_def waiting_def)
  then have "idle ?t \<or> completing ?t"
  proof (cases s rule: completing_cases)
    case (1 d y k)
    then show ?thesis
      using rd by (auto simp: idle_def completing_def complete_stores_def last_outcome_def)
  qed
  then show ?thesis using inv by (auto simp: mail_inv_def)
qed

lemma mail_reachable_inv: "mail_step\<^sup>*\<^sup>* mail_start s \<Longrightarrow> mail_inv s"
proof (induction rule: rtranclp_induct)
  case base
  show ?case
    by (simp add: mail_inv_def idle_def mail_start_def control_channel_def last_outcome_def revision_at_def)
next
  case (step s t)
  from step.hyps(2) step.IH show ?case
    by cases (simp_all add: submit_begin_inv writer_store_inv complete_begin_inv reader_store_inv)
qed

lemma pending_exact:
  assumes inv: "mail_inv s" and rd: "ms_reader s = []"
  shows "pending (ms_box s) =
    Some (if ms_writer s \<noteq> [] \<or> map fst (ms_done s) = ms_sent s then None else Some (last (ms_sent s)))"
proof (cases "idle s")
  case True
  then show ?thesis by (simp add: idle_def pending_def)
next
  case False
  then have w: "waiting s"
    using inv rd by (auto simp: mail_inv_def completing_def complete_stores_def)
  have n: "length (ms_sent s) < 2 ^ 64" using inv by (simp add: mail_inv_def)
  from w obtain c where c: "ms_sent s = map fst (ms_done s) @ [(revision_at (length (ms_sent s)), c)]"
    "carries c (fold apply_store (ms_writer s) (ms_box s))" by (auto simp: waiting_def)
  show ?thesis
  proof (cases "ms_writer s")
    case Nil
    then have "mb_requested (ms_box s) \<noteq> mb_completed (ms_box s)"
      using w waiting_length [OF w] revision_at_less [of "length (ms_done s)" "length (ms_sent s)"] n
      by (auto simp: waiting_def)
    then have "pending (ms_box s) = Some (Some (revision_at (length (ms_sent s)), c))"
      using carries_pending [of c "ms_box s"] c(2) Nil w by (auto simp: waiting_def)
    moreover have "last (ms_sent s) = (revision_at (length (ms_sent s)), c)"
      by (subst c(1)) simp
    moreover have "map fst (ms_done s) \<noteq> ms_sent s"
      using waiting_length [OF w] by (metis length_map n_not_Suc_n)
    ultimately show ?thesis using Nil by simp
  qed (use w in \<open>auto simp: waiting_def pending_def\<close>)
qed

lemma failed_is_last:
  assumes inv: "mail_inv s" and "(x, CompletionFailed) \<in> set (ms_done s)"
  shows "last (ms_done s) = (x, CompletionFailed)" "map fst (ms_done s) = ms_sent s"
proof -
  have "\<not> waiting s"
    using assms(2) by (auto simp: waiting_def list_all_iff)
  then show "map fst (ms_done s) = ms_sent s"
    using inv by (auto simp: mail_inv_def idle_def completing_def)
  show "last (ms_done s) = (x, CompletionFailed)"
    using assms by (cases "ms_done s" rule: rev_cases) (auto simp: mail_inv_def list_all_iff)
qed

lemma submit_exact:
  assumes inv: "mail_inv s" and wr: "ms_writer s = []"
  shows "is_ok (fst (submit c (ms_box s))) \<longleftrightarrow> ms_reader s = [] \<and> map fst (ms_done s) = ms_sent s \<and>
    all_applied (ms_done s) \<and> Suc (length (ms_sent s)) < 2 ^ 64 \<and> is_ok (control_payload c)" (is "?ok = ?may")
proof
  assume ?ok
  then obtain r st where st: "submit_stores c (ms_box s) = Inr (r, st)"
    by (auto simp: submit_def split: sum.splits)
  note facts = submit_stores_Inr [OF st] mail_only_idle_accepts [OF inv submit_stores_Inr(1) [OF st] wr]
  have "is_ok (control_payload c)" using facts(4) by (simp add: carries_def)
  moreover have "last_outcome (ms_done s) = CompletionApplied"
    using facts(2,6) by (cases "last_outcome (ms_done s)") (auto simp: idle_def completion_from_encoded_def)
  then have "all_applied (ms_done s)"
    using inv by (auto simp: mail_inv_def intro: all_applied_last)
  ultimately show ?may
    using facts(3,6) inv by (auto simp: idle_def mail_inv_def revision_at_next)
next
  assume m: ?may
  then have "idle s"
    using inv waiting_length [of s] by (auto simp: mail_inv_def completing_def complete_stores_def)
      (metis length_map n_not_Suc_n)
  moreover from this have "last_outcome (ms_done s) = CompletionApplied"
    using m by (cases "ms_done s" rule: rev_cases) (auto simp: last_outcome_def)
  moreover have "checked_add (revision_at (length (ms_sent s))) 1 = Some (revision_at (Suc (length (ms_sent s))))"
    using m inv by (simp add: revision_at_next)
  ultimately show ?ok
    using m by (auto simp: submit_def submit_stores_def idle_def completion_from_encoded_def is_ok_iff split: prod.splits)
qed

lemma completed_revision_total: "mail_inv s \<Longrightarrow> completed_revision (ms_box s) \<noteq> None"
proof -
  have *: "completed_revision m \<noteq> None" if "mb_completion m = completion_encoded k" for m k
    using that by (cases k) (simp_all add: completed_revision_def completion_from_encoded_def)
  assume "mail_inv s"
  then have "\<exists>k. mb_completion (ms_box s) = completion_encoded k"
    unfolding mail_inv_def idle_def waiting_def completing_def by blast
  with * show ?thesis by blast
qed

text \<open>
  C20: Controller and capture thread go in lockstep. Whatever way the single stores of the two threads
  interleave: accepted commands carry the revisions 1, 2, 3 and so on; the commands carried out are
  the accepted ones in their order, all of them or all but the last; the reader, when it is not
  completing one, finds nothing while the writer is still storing or all is done and otherwise
  exactly the last accepted command, never a torn one, and never reaches the unreachable branch; a
  failed command is the last one ever accepted; and between calls the writer's next command is
  accepted exactly when every earlier one was applied, the revision has a successor and the command
  is valid.
\<close>

theorem mailbox_lockstep:
  assumes "mail_step\<^sup>*\<^sup>* mail_start s"
  shows "map fst (ms_sent s) = map (\<lambda>i. word_of_nat (Suc i)) [0..<length (ms_sent s)] \<and>
    (map fst (ms_done s) = ms_sent s \<or> (\<exists>x. map fst (ms_done s) @ [x] = ms_sent s)) \<and>
    (ms_reader s = [] \<longrightarrow> pending (ms_box s) =
       Some (if ms_writer s \<noteq> [] \<or> map fst (ms_done s) = ms_sent s then None else Some (last (ms_sent s)))) \<and>
    (\<forall>x. (x, CompletionFailed) \<in> set (ms_done s) \<longrightarrow>
       last (ms_done s) = (x, CompletionFailed) \<and> map fst (ms_done s) = ms_sent s) \<and>
    completed_revision (ms_box s) \<noteq> None \<and>
    (ms_writer s = [] \<longrightarrow> (\<forall>c. is_ok (fst (submit c (ms_box s))) \<longleftrightarrow>
       ms_reader s = [] \<and> map fst (ms_done s) = ms_sent s \<and> list_all (\<lambda>(_, k). k = CompletionApplied) (ms_done s) \<and>
       Suc (length (ms_sent s)) < 2 ^ 64 \<and> is_ok (control_payload c)))"
proof -
  have inv: "mail_inv s" by (rule mail_reachable_inv [OF assms])
  then have "map fst (ms_sent s) = map (\<lambda>i. word_of_nat (Suc i)) [0..<length (ms_sent s)]"
    by (simp add: mail_inv_def revision_at_def)
  moreover have "map fst (ms_done s) = ms_sent s \<or> (\<exists>x. map fst (ms_done s) @ [x] = ms_sent s)"
    by (rule mail_inv_cases [OF inv]) simp_all
  ultimately show ?thesis
    using pending_exact [OF inv] failed_is_last [OF inv] completed_revision_total [OF inv] submit_exact [OF inv]
    by blast
qed

definition demo_mail :: mail_system where
  "demo_mail = mail_start\<lparr>ms_writer := [StoreDeadline 0, StoreX 0, StoreY 0, StoreRequested 1],
     ms_box := control_channel\<lparr>mb_kind := 4\<rparr>, ms_sent := [(1, LocalRestore)]\<rparr>"

theorem mailbox_lockstep_witness:
  "mail_step\<^sup>*\<^sup>* mail_start demo_mail \<and> pending (ms_box demo_mail) = Some None"
proof -
  have st: "submit_stores LocalRestore (ms_box mail_start) =
      Inr (1, [StoreKind 4, StoreDeadline 0, StoreX 0, StoreY 0, StoreRequested 1])"
    by (simp add: submit_stores_def mail_start_def control_channel_def completion_from_encoded_def checked_add_def)
  have "mail_step mail_start (mail_start\<lparr>ms_writer := [StoreKind 4, StoreDeadline 0, StoreX 0, StoreY 0, StoreRequested 1],
      ms_sent := ms_sent mail_start @ [(1, LocalRestore)]\<rparr>)" (is "mail_step _ ?t")
    using st by (intro submit_begin) (simp_all add: mail_start_def)
  moreover have "mail_step ?t demo_mail"
    using writer_store [of ?t "StoreKind 4"] by (simp add: demo_mail_def mail_start_def)
  ultimately have run: "mail_step\<^sup>*\<^sup>* mail_start demo_mail" by auto
  then show ?thesis
    using mailbox_lockstep [OF run] by (simp add: demo_mail_def mail_start_def)
qed

end
