(* ===== verification/Outbox.thy ===== *)
theory Outbox
  imports Session_Gates "HOL-Library.Sublist"
begin

section \<open>The send queue: \<open>monhop-transport/src/session_outbox.rs\<close>\<close>

text \<open>
  The queue of frames waiting for the ordered stream, which merges unsent positions and heartbeats,
  and its equivalence, for whoever applies the frames, to a queue that merges nothing. Instants are
  nanoseconds on the monotonic clock. The lock and the wake-up of the writer around it are not
  modelled: every operation of the shared queue is one operation of this one.
\<close>

datatype refusal = RefusedFull | RefusedClosed

record send_queue =
  sq_frames :: "(frame \<times> duration) list"
  sq_capacity :: nat
  sq_in_flight :: "duration option"
  sq_refused :: "refusal option"

definition send_queue_new :: "nat \<Rightarrow> send_queue" where
  "send_queue_new capacity = \<lparr>sq_frames = [], sq_capacity = capacity, sq_in_flight = None, sq_refused = None\<rparr>"

definition same_lane :: "frame \<Rightarrow> frame \<Rightarrow> bool" where
  "same_lane queued next =
     (fr_epoch queued = fr_epoch next \<and> fr_scope queued = fr_scope next \<and> fr_sequence queued < fr_sequence next)"

fun is_absolute :: "message \<Rightarrow> bool" where
  "is_absolute (MsgMotion (Absolute _)) = True"
| "is_absolute _ = False"

definition newer_position :: "frame \<Rightarrow> frame \<Rightarrow> bool" where
  "newer_position queued next =
     (same_lane queued next \<and> is_absolute (fr_message queued) \<and> is_absolute (fr_message next))"

fun same_heartbeat :: "message \<Rightarrow> message \<Rightarrow> bool" where
  "same_heartbeat (MsgPing _) (MsgPing _) = True"
| "same_heartbeat (MsgPong _) (MsgPong _) = True"
| "same_heartbeat _ _ = False"

definition superseded :: "frame \<Rightarrow> frame \<Rightarrow> bool" where
  "superseded queued next = (same_lane queued next \<and> same_heartbeat (fr_message queued) (fr_message next))"

text \<open>The first entry the frame supersedes, taken out, with the time it has waited since.\<close>

fun remove_stale :: "frame \<Rightarrow> (frame \<times> duration) list \<Rightarrow> (duration \<times> (frame \<times> duration) list) option" where
  "remove_stale f [] = None"
| "remove_stale f ((queued, since) # rest) =
     (if superseded queued f then Some (since, rest)
      else map_option (\<lambda>(t, rest'). (t, (queued, since) # rest')) (remove_stale f rest))"

definition send_queue_push :: "frame \<Rightarrow> duration \<Rightarrow> send_queue \<Rightarrow> (refusal + unit) \<times> send_queue" where
  "send_queue_push f now q =
     (case sq_refused q of
        Some refusal \<Rightarrow> (Inl refusal, q)
      | None \<Rightarrow>
          if sq_frames q \<noteq> [] \<and> newer_position (fst (last (sq_frames q))) f
          then (Inr (), q\<lparr>sq_frames := butlast (sq_frames q) @ [(f, snd (last (sq_frames q)))]\<rparr>)
          else
            let (waiting, frames) = (case remove_stale f (sq_frames q) of None \<Rightarrow> (now, sq_frames q) | Some r \<Rightarrow> r)
            in if sq_capacity q \<le> length frames
               then (Inl RefusedFull, q\<lparr>sq_frames := frames, sq_refused := Some RefusedFull\<rparr>)
               else (Inr (), q\<lparr>sq_frames := frames @ [(f, waiting)]\<rparr>))"

definition send_queue_pop :: "send_queue \<Rightarrow> frame option \<times> send_queue" where
  "send_queue_pop q =
     (case sq_frames q of
        [] \<Rightarrow> (None, q)
      | (f, waiting) # rest \<Rightarrow> (Some f, q\<lparr>sq_frames := rest, sq_in_flight := Some waiting\<rparr>))"

definition send_queue_written :: "send_queue \<Rightarrow> send_queue" where
  "send_queue_written q = q\<lparr>sq_in_flight := None\<rparr>"

definition send_queue_close :: "send_queue \<Rightarrow> send_queue" where
  "send_queue_close q = q\<lparr>sq_refused := Some (case sq_refused q of None \<Rightarrow> RefusedClosed | Some r \<Rightarrow> r)\<rparr>"

fun least :: "duration list \<Rightarrow> duration option" where
  "least [] = None"
| "least (t # ts) = (case least ts of None \<Rightarrow> Some t | Some u \<Rightarrow> Some (min t u))"

definition waiting_since :: "send_queue \<Rightarrow> duration option" where
  "waiting_since q = least ((case sq_in_flight q of None \<Rightarrow> [] | Some t \<Rightarrow> [t]) @ map snd (sq_frames q))"

subsection \<open>Runs\<close>

datatype queue_op = OpPush frame duration | OpPop | OpWritten | OpClose

text \<open>The queue, the frames it accepted and the frames it handed out, in order.\<close>

fun queue_step :: "queue_op \<Rightarrow> send_queue \<times> frame list \<times> frame list \<Rightarrow> send_queue \<times> frame list \<times> frame list" where
  "queue_step (OpPush f now) (q, accepted, sent) =
     (let (r, q1) = send_queue_push f now q in (q1, if is_ok r then accepted @ [f] else accepted, sent))"
| "queue_step OpPop (q, accepted, sent) =
     (let (r, q1) = send_queue_pop q in (q1, accepted, case r of None \<Rightarrow> sent | Some f \<Rightarrow> sent @ [f]))"
| "queue_step OpWritten (q, accepted, sent) = (send_queue_written q, accepted, sent)"
| "queue_step OpClose (q, accepted, sent) = (send_queue_close q, accepted, sent)"

definition queue_run :: "nat \<Rightarrow> queue_op list \<Rightarrow> send_queue \<times> frame list \<times> frame list" where
  "queue_run capacity ops = fold queue_step ops (send_queue_new capacity, [], [])"

text \<open>
  What a peer that applies frames in order can tell: each input frame together with the absolute
  position in force when it comes, and the position in force at the end. Positions and heartbeats
  are no input of their own.
\<close>

fun input_view :: "frame option \<Rightarrow> frame list \<Rightarrow> (frame option \<times> frame) list \<times> frame option" where
  "input_view position [] = ([], position)"
| "input_view position (f # fs) =
     (if is_absolute (fr_message f) then input_view (Some f) fs
      else if is_heartbeat (fr_message f) then input_view position fs
      else let (seen, final) = input_view position fs in ((position, f) # seen, final))"

text \<open>The queue merges only in these two ways.\<close>

inductive merges :: "frame list \<Rightarrow> frame list \<Rightarrow> bool" where
  merges_nil: "merges [] []"
| merges_keep: "merges as fs \<Longrightarrow> merges (as @ [f]) (fs @ [f])"
| merges_position: "merges as (fs @ [p]) \<Longrightarrow> newer_position p f \<Longrightarrow> merges (as @ [f]) (fs @ [f])"
| merges_heartbeat: "merges as (fs @ h # gs) \<Longrightarrow> superseded h f \<Longrightarrow> merges (as @ [f]) (fs @ gs @ [f])"

lemma input_view_append:
  "input_view p (xs @ ys) =
     (let (s1, p1) = input_view p xs; (s2, p2) = input_view p1 ys in (s1 @ s2, p2))"
  by (induction xs arbitrary: p) (auto simp: Let_def split_beta)

lemma superseded_beat: "superseded h f \<Longrightarrow> is_heartbeat (fr_message h) \<and> \<not> is_absolute (fr_message h)"
  by (cases "fr_message h") (auto simp: superseded_def)

lemma newer_position_trans: "newer_position a b \<Longrightarrow> newer_position b c \<Longrightarrow> newer_position a c"
  by (auto simp: newer_position_def same_lane_def)

lemma superseded_trans: "superseded a b \<Longrightarrow> superseded b c \<Longrightarrow> superseded a c"
  by (auto simp: superseded_def same_lane_def elim!: same_heartbeat.elims(2))

lemma newer_position_not_superseded: "newer_position a b \<Longrightarrow> \<not> superseded b c"
  by (auto simp: newer_position_def dest: superseded_beat)

lemma superseded_not_newer: "superseded a b \<Longrightarrow> \<not> newer_position b c"
  by (auto simp: newer_position_def superseded_def elim!: same_heartbeat.elims(2))

lemma merges_view: "merges as fs \<Longrightarrow> input_view p as = input_view p fs"
proof (induction rule: merges.induct)
  case (merges_position as fs q f)
  then have "is_absolute (fr_message q)" "is_absolute (fr_message f)" by (auto simp: newer_position_def)
  then show ?case using merges_position.IH by (simp add: input_view_append Let_def split_beta)
next
  case (merges_heartbeat as fs h gs f)
  then have "is_heartbeat (fr_message h)" "\<not> is_absolute (fr_message h)" using superseded_beat by blast+
  then show ?case using merges_heartbeat.IH by (simp add: input_view_append Let_def split_beta)
qed (simp_all add: input_view_append)

lemma merges_subseq: "merges as fs \<Longrightarrow> subseq fs as"
proof (induction rule: merges.induct)
  case (merges_position as fs q f)
  then have "subseq fs as" by (meson list_emb_append2 subseq_order.trans subseq_rev_drop_many subseq_order.refl)
  then show ?case by simp
next
  case (merges_heartbeat as fs h gs f)
  have "subseq (fs @ gs) (fs @ h # gs)" by (induction fs) auto
  then have "subseq (fs @ gs) as" using merges_heartbeat.IH by (rule subseq_order.trans)
  then have "subseq ((fs @ gs) @ [f]) (as @ [f])" by (simp only: subseq_append)
  then show ?case by simp
qed simp_all

definition replaced :: "frame \<Rightarrow> frame \<Rightarrow> bool" where
  "replaced f g = (newer_position f g \<or> superseded f g)"

lemma replaced_trans: "replaced a b \<Longrightarrow> replaced b c \<Longrightarrow> replaced a c"
  using newer_position_trans superseded_trans newer_position_not_superseded superseded_not_newer
  unfolding replaced_def by blast

lemma merges_dropped: "merges as fs \<Longrightarrow> g \<in> set as \<Longrightarrow> g \<in> set fs \<or> (\<exists>k\<in>set fs. replaced g k)"
proof (induction arbitrary: g rule: merges.induct)
  case (merges_position as fs q f)
  then have "replaced q f" by (simp add: replaced_def)
  then show ?case using merges_position replaced_trans by fastforce
next
  case (merges_heartbeat as fs h gs f)
  then have "replaced h f" by (simp add: replaced_def)
  then show ?case using merges_heartbeat replaced_trans by fastforce
qed auto

lemma remove_stale_Some:
  "remove_stale f xs = Some (t, ys) \<Longrightarrow> \<exists>as h bs. xs = as @ (h, t) # bs \<and> ys = as @ bs \<and> superseded h f"
proof (induction xs arbitrary: ys)
  case (Cons x xs)
  obtain g u where x: "x = (g, u)" by (cases x)
  show ?case
  proof (cases "superseded g f")
    case True
    then have "x # xs = [] @ (g, t) # ys" using Cons.prems x by simp
    then show ?thesis using True by blast
  next
    case False
    then obtain zs where "remove_stale f xs = Some (t, zs)" "ys = (g, u) # zs"
      using Cons.prems x by auto
    with Cons.IH obtain as h bs where "xs = as @ (h, t) # bs" "zs = as @ bs" "superseded h f" by blast
    then have "x # xs = (x # as) @ (h, t) # bs \<and> ys = (x # as) @ bs \<and> superseded h f"
      using x \<open>ys = (g, u) # zs\<close> by simp
    then show ?thesis by blast
  qed
qed simp

text \<open>What one push does to a queue within its bound.\<close>

lemma push_cases:
  assumes "length (sq_frames q) \<le> sq_capacity q"
  obtains (refused) e r where "send_queue_push f now q = (Inl e, q\<lparr>sq_refused := Some r\<rparr>)"
  | (position) xs g t where "send_queue_push f now q = (Inr (), q\<lparr>sq_frames := xs @ [(f, t)]\<rparr>)"
      "sq_frames q = xs @ [(g, t)]" "newer_position g f"
  | (heartbeat) as h t bs where "send_queue_push f now q = (Inr (), q\<lparr>sq_frames := as @ bs @ [(f, t)]\<rparr>)"
      "sq_frames q = as @ (h, t) # bs" "superseded h f"
  | (added) "send_queue_push f now q = (Inr (), q\<lparr>sq_frames := sq_frames q @ [(f, now)]\<rparr>)"
      "length (sq_frames q) < sq_capacity q"
proof (cases "sq_refused q")
  case (Some e)
  then show ?thesis using refused [of e e] by (simp add: send_queue_push_def)
next
  case None
  show ?thesis
  proof (cases "sq_frames q \<noteq> [] \<and> newer_position (fst (last (sq_frames q))) f")
    case True
    then show ?thesis
      using position [of "butlast (sq_frames q)" "snd (last (sq_frames q))" "fst (last (sq_frames q))"] None
      by (simp add: send_queue_push_def)
  next
    case tail: False
    show ?thesis
    proof (cases "remove_stale f (sq_frames q)")
      case new: None
      then show ?thesis
        using refused [of RefusedFull RefusedFull] added None tail
        by (cases "sq_capacity q \<le> length (sq_frames q)") (auto simp: send_queue_push_def)
    next
      case (Some r)
      then obtain as h t bs where r: "r = (t, as @ bs)" "sq_frames q = as @ (h, t) # bs" "superseded h f"
        using remove_stale_Some [of f "sq_frames q" "fst r" "snd r"] by (cases r) auto
      then show ?thesis
        using heartbeat [of as bs t h] assms None tail Some by (simp add: send_queue_push_def)
    qed
  qed
qed

lemma least_Min: "least ts = (if ts = [] then None else Some (Min (set ts)))"
  by (induction ts) (auto split: option.splits)

lemma push_keeps_wait:
  assumes "length (sq_frames q) \<le> sq_capacity q" "waiting_since q = Some t" "t \<le> now"
  shows "waiting_since (snd (send_queue_push f now q)) = Some t"
  using assms(1)
proof (cases rule: push_cases [of q f now])
  case added
  then show ?thesis
    using assms(2,3) by (auto simp: waiting_since_def least_Min Min_insert2 min_def split: option.splits if_splits)
qed (use assms(2) in \<open>auto simp: waiting_since_def least_Min insert_commute split: option.splits if_splits\<close>)

definition queue_inv :: "nat \<Rightarrow> send_queue \<times> frame list \<times> frame list \<Rightarrow> bool" where
  "queue_inv capacity = (\<lambda>(q, accepted, sent). sq_capacity q = capacity \<and> length (sq_frames q) \<le> capacity \<and>
     merges accepted (sent @ map fst (sq_frames q)))"

lemma queue_step_inv:
  assumes "queue_inv capacity s"
  shows "queue_inv capacity (queue_step op s)"
proof -
  obtain q accepted sent where s: "s = (q, accepted, sent)" by (cases s)
  have inv: "sq_capacity q = capacity" "length (sq_frames q) \<le> sq_capacity q"
      "merges accepted (sent @ map fst (sq_frames q))"
    using assms s by (auto simp: queue_inv_def)
  show ?thesis
  proof (cases op)
    case (OpPush f now)
    from inv(2) show ?thesis
    proof (cases rule: push_cases [of q f now])
      case (position xs g t)
      then have "merges accepted ((sent @ map fst xs) @ [g])" using inv(3) by simp
      from merges_position [OF this position(3)] show ?thesis
        using position inv OpPush s by (simp add: queue_inv_def)
    next
      case (heartbeat as h t bs)
      then have "merges accepted ((sent @ map fst as) @ h # map fst bs)" using inv(3) by simp
      from merges_heartbeat [OF this heartbeat(3)] show ?thesis
        using heartbeat inv OpPush s by (simp add: queue_inv_def)
    next
      case added
      then show ?thesis
        using merges_keep [OF inv(3), of f] inv OpPush s by (simp add: queue_inv_def)
    qed (use inv OpPush s in \<open>simp add: queue_inv_def\<close>)
  next
    case OpPop
    then show ?thesis using inv s
      by (cases "sq_frames q") (auto simp: queue_inv_def send_queue_pop_def)
  qed (use inv s in \<open>simp_all add: queue_inv_def send_queue_written_def send_queue_close_def\<close>)
qed

lemma queue_run_inv: "queue_inv capacity (queue_run capacity ops)"
proof -
  have "queue_inv capacity s \<Longrightarrow> queue_inv capacity (fold queue_step ops s)" for s
    by (induction ops arbitrary: s) (simp_all add: queue_step_inv)
  then show ?thesis
    by (simp add: queue_run_def queue_inv_def send_queue_new_def merges_nil)
qed

text \<open>A refusal is recorded, and one that is recorded answers every later push.\<close>

lemma push_refused: "send_queue_push f now q = (Inl e, q1) \<Longrightarrow> sq_refused q1 = Some e"
  by (auto simp: send_queue_push_def Let_def split: option.splits if_splits prod.splits)

lemma push_room:
  assumes "sq_refused q = None" "length (sq_frames q) < sq_capacity q"
  shows "fst (send_queue_push f now q) = Inr ()"
proof (cases "remove_stale f (sq_frames q)")
  case None
  then show ?thesis using assms by (simp add: send_queue_push_def)
next
  case (Some r)
  then have "length (snd r) \<le> length (sq_frames q)"
    using remove_stale_Some [of f "sq_frames q" "fst r" "snd r"] by auto
  then show ?thesis using Some assms by (cases r) (simp add: send_queue_push_def)
qed

lemma refused_for_good:
  "sq_refused q = Some r \<Longrightarrow> \<exists>q1 sent1. fold queue_step ops (q, accepted, sent) = (q1, accepted, sent1) \<and> sq_refused q1 = Some r"
proof (induction ops arbitrary: q sent)
  case (Cons op ops)
  have "\<exists>q1 sent1. queue_step op (q, accepted, sent) = (q1, accepted, sent1) \<and> sq_refused q1 = Some r"
    using Cons.prems by (cases op)
      (auto simp: send_queue_push_def send_queue_pop_def send_queue_written_def send_queue_close_def split: list.splits)
  then show ?case using Cons.IH by auto
qed simp

text \<open>What a run that goes on after a refused push, or after a close, still accepts.\<close>

definition shut_after :: "nat \<Rightarrow> queue_op list \<Rightarrow> frame list \<Rightarrow> refusal \<Rightarrow> bool" where
  "shut_after capacity ops accepted e \<longleftrightarrow> (\<forall>more g t.
     fst (snd (queue_run capacity (ops @ more))) = accepted \<and>
     fst (send_queue_push g t (fst (queue_run capacity (ops @ more)))) = Inl e)"

lemma shut_afterI:
  assumes "queue_run capacity ops = (q, accepted, sent)" "sq_refused q = Some e"
  shows "shut_after capacity ops accepted e"
  unfolding shut_after_def
proof (intro allI)
  fix more g t
  obtain q1 sent1 where "fold queue_step more (q, accepted, sent) = (q1, accepted, sent1)" "sq_refused q1 = Some e"
    using refused_for_good [OF assms(2)] by blast
  then show "fst (snd (queue_run capacity (ops @ more))) = accepted \<and>
      fst (send_queue_push g t (fst (queue_run capacity (ops @ more)))) = Inl e"
    using assms(1) by (simp add: queue_run_def send_queue_push_def)
qed

lemma push_shuts:
  assumes "queue_run capacity ops = (q, accepted, sent)" "fst (send_queue_push f now q) = Inl e"
  shows "shut_after capacity (ops @ [OpPush f now]) accepted e"
proof -
  obtain q1 where push: "send_queue_push f now q = (Inl e, q1)" using assms(2) by (cases "send_queue_push f now q") auto
  then have "queue_run capacity (ops @ [OpPush f now]) = (q1, accepted, sent)"
    using assms(1) by (simp add: queue_run_def)
  then show ?thesis using push_refused [OF push] by (rule shut_afterI)
qed

lemma close_shuts:
  assumes "queue_run capacity ops = (q, accepted, sent)"
  shows "\<exists>e. shut_after capacity (ops @ [OpClose]) accepted e"
proof -
  have "queue_run capacity (ops @ [OpClose]) = (send_queue_close q, accepted, sent)"
    using assms by (simp add: queue_run_def)
  moreover have "\<exists>e. sq_refused (send_queue_close q) = Some e" by (simp add: send_queue_close_def)
  ultimately show ?thesis by (blast intro: shut_afterI)
qed

text \<open>When a newer frame may stand for an older one, in the words of the protocol.\<close>

definition stands_for :: "frame \<Rightarrow> frame \<Rightarrow> bool" where
  "stands_for g f \<longleftrightarrow>
     fr_epoch g = fr_epoch f \<and> fr_scope g = fr_scope f \<and> fr_sequence f < fr_sequence g \<and>
     ((\<exists>p p'. fr_message f = MsgMotion (Absolute p) \<and> fr_message g = MsgMotion (Absolute p')) \<or>
      (\<exists>t t'. fr_message f = MsgPing t \<and> fr_message g = MsgPing t') \<or>
      (\<exists>t t'. fr_message f = MsgPong t \<and> fr_message g = MsgPong t'))"

lemma replaced_stands_for: "replaced f g \<Longrightarrow> stands_for g f"
  by (auto simp: replaced_def newer_position_def superseded_def same_lane_def stands_for_def
      elim!: is_absolute.elims(2) same_heartbeat.elims(2))

text \<open>
  C11: For the peer, the merging send queue is equivalent to a queue that merges nothing. After any run
  of pushes, pops, writes and a close: what was sent and what is still queued shows the peer exactly
  the input frames accepted, in order, each with the very position in force before it, and the same
  final position; it is a subsequence of the accepted frames, every missing one stood for by a later
  position, ping or pong of its epoch and scope that is there; the queue stays within its capacity; a
  push to a queue that has not refused and has room is accepted; once a push is refused, or the queue
  is closed, nothing is ever accepted again and every later push gets the same answer, whatever is
  popped in between; and a push never restarts the measured wait.
\<close>

theorem outbox_equivalent:
  assumes run: "queue_run capacity ops = (q, accepted, sent)"
  shows "input_view None (sent @ map fst (sq_frames q)) = input_view None accepted \<and>
    subseq (sent @ map fst (sq_frames q)) accepted \<and>
    (\<forall>f\<in>set accepted. f \<in> set (sent @ map fst (sq_frames q)) \<or>
       (\<exists>g\<in>set (sent @ map fst (sq_frames q)). stands_for g f)) \<and>
    length (sq_frames q) \<le> capacity \<and>
    (\<forall>f now. sq_refused q = None \<and> length (sq_frames q) < capacity \<longrightarrow> fst (send_queue_push f now q) = Inr ()) \<and>
    (\<forall>f now e. fst (send_queue_push f now q) = Inl e \<longrightarrow> shut_after capacity (ops @ [OpPush f now]) accepted e) \<and>
    (\<exists>e. shut_after capacity (ops @ [OpClose]) accepted e) \<and>
    (\<forall>f now t. waiting_since q = Some t \<and> t \<le> now \<longrightarrow> waiting_since (snd (send_queue_push f now q)) = Some t)"
proof -
  have inv: "sq_capacity q = capacity" "length (sq_frames q) \<le> sq_capacity q"
      "merges accepted (sent @ map fst (sq_frames q))"
    using queue_run_inv [of capacity ops] run by (auto simp: queue_inv_def)
  have "\<forall>f\<in>set accepted. f \<in> set (sent @ map fst (sq_frames q)) \<or>
       (\<exists>g\<in>set (sent @ map fst (sq_frames q)). stands_for g f)"
    using merges_dropped [OF inv(3)] replaced_stands_for by blast
  moreover have "fst (send_queue_push f now q) = Inr ()" if "sq_refused q = None \<and> length (sq_frames q) < capacity" for f now
    using push_room that inv(1) by simp
  ultimately show ?thesis
    using merges_view [OF inv(3)] merges_subseq [OF inv(3)] push_keeps_wait [OF inv(2)] inv
      push_shuts [OF run] close_shuts [OF run] by simp
qed

definition demo_frame :: "u64 \<Rightarrow> message \<Rightarrow> frame" where
  "demo_frame n m = frame_new 1 n m"

theorem outbox_equivalent_witness:
  "\<exists>q. queue_run 2 [OpPush (demo_frame 1 (MsgMotion (Absolute (point_new 0 0)))) 5, OpPush (demo_frame 2 (MsgPing 1)) 6,
       OpPush (demo_frame 3 (MsgPing 2)) 7, OpPop, OpPush (demo_frame 4 MsgReleaseAll) 8] =
     (q, [demo_frame 1 (MsgMotion (Absolute (point_new 0 0))), demo_frame 2 (MsgPing 1), demo_frame 3 (MsgPing 2),
          demo_frame 4 MsgReleaseAll],
      [demo_frame 1 (MsgMotion (Absolute (point_new 0 0)))]) \<and>
     map fst (sq_frames q) = [demo_frame 3 (MsgPing 2), demo_frame 4 MsgReleaseAll] \<and>
     waiting_since (snd (send_queue_push (demo_frame 5 MsgReleaseAll) 9 q)) = Some 5 \<and>
     fst (send_queue_push (demo_frame 5 MsgReleaseAll) 9 q) = Inl RefusedFull \<and>
     shut_after 2 [OpPush (demo_frame 1 (MsgMotion (Absolute (point_new 0 0)))) 5, OpPush (demo_frame 2 (MsgPing 1)) 6,
         OpPush (demo_frame 3 (MsgPing 2)) 7, OpPop, OpPush (demo_frame 4 MsgReleaseAll) 8,
         OpPush (demo_frame 5 MsgReleaseAll) 9]
       [demo_frame 1 (MsgMotion (Absolute (point_new 0 0))), demo_frame 2 (MsgPing 1), demo_frame 3 (MsgPing 2),
        demo_frame 4 MsgReleaseAll] RefusedFull"
proof -
  let ?m = "demo_frame 1 (MsgMotion (Absolute (point_new 0 0)))"
  let ?ops = "[OpPush ?m 5, OpPush (demo_frame 2 (MsgPing 1)) 6, OpPush (demo_frame 3 (MsgPing 2)) 7, OpPop,
    OpPush (demo_frame 4 MsgReleaseAll) 8]"
  let ?q = "\<lparr>sq_frames = [(demo_frame 3 (MsgPing 2), 6), (demo_frame 4 MsgReleaseAll, 8)], sq_capacity = 2,
    sq_in_flight = Some 5, sq_refused = None\<rparr>"
  have run: "queue_run 2 ?ops =
      (?q, [?m, demo_frame 2 (MsgPing 1), demo_frame 3 (MsgPing 2), demo_frame 4 MsgReleaseAll], [?m])"
    by (simp add: queue_run_def send_queue_new_def send_queue_push_def send_queue_pop_def demo_frame_def frame_new_def
        newer_position_def superseded_def same_lane_def)
  have full: "fst (send_queue_push (demo_frame 5 MsgReleaseAll) 9 ?q) = Inl RefusedFull"
    by (simp add: send_queue_push_def demo_frame_def frame_new_def newer_position_def superseded_def same_lane_def)
  show ?thesis
    using outbox_equivalent [OF run] run full by (simp add: waiting_since_def)
qed

end
