(* ===== verification/Session_Wire.thy ===== *)
theory Session_Wire
  imports Frame_Round_Trip Session_Gates
begin

section \<open>Framing on a stream: \<open>monhop-transport/src/session_wire.rs\<close>\<close>

text \<open>
  The incremental frame reader, the writer and the heartbeat datagram decoder. The QUIC stream is a
  parameter: a function from the room left and its state to what one read returned; what a read may
  return is a hypothesis of the lemmas. The read loop has one unit of fuel per byte of the largest
  frame, which is enough because every read but the last brings at least one byte.
\<close>

datatype session_wire_error =
    WireIo
  | WireClosed
  | WireTruncated
  | WireInvalidFrame
  | WireUnsupportedVersion
  | WireTooLarge
  | WireTimedOut
  | WireTerminal

record frame_reader =
  rb_buffer :: "u8 list"
  rb_filled :: nat
  rb_expected_len :: "nat option"
  rb_terminal :: bool

definition frame_reader_new :: frame_reader where
  "frame_reader_new = \<lparr>rb_buffer = replicate MAX_FRAME_LEN 0, rb_filled = 0, rb_expected_len = None,
     rb_terminal = False\<rparr>"

fun wire_of_decode :: "decode_error \<Rightarrow> session_wire_error" where
  "wire_of_decode DecFrameTooLarge = WireTooLarge"
| "wire_of_decode DecUnsupportedVersion = WireUnsupportedVersion"
| "wire_of_decode _ = WireInvalidFrame"

definition target_len :: "frame_reader \<Rightarrow> nat" where
  "target_len r = (case rb_expected_len r of None \<Rightarrow> HEADER_LEN | Some n \<Rightarrow> n)"

definition reader_fail :: "frame_reader \<Rightarrow> frame_reader" where
  "reader_fail r = r\<lparr>rb_terminal := True\<rparr>"

definition announced_len :: "u8 list \<Rightarrow> session_wire_error + nat" where
  "announced_len buffer =
     (case usize_checked_add HEADER_LEN (unat (from_be_bytes [buffer ! 8, buffer ! 9] :: u16)) of
        None \<Rightarrow> Inl WireTooLarge
      | Some total_len \<Rightarrow> if MAX_FRAME_LEN < total_len then Inl WireTooLarge else Inr total_len)"

definition decode_complete :: "frame_reader \<Rightarrow> (session_wire_error + frame option) \<times> frame_reader" where
  "decode_complete r =
     (case rb_expected_len r of
        None \<Rightarrow> (Inr None, r)
      | Some expected_len \<Rightarrow>
          if rb_filled r \<noteq> expected_len then (Inr None, r)
          else case decode (take expected_len (rb_buffer r)) of
              Inl e \<Rightarrow> (Inl (wire_of_decode e), reader_fail r)
            | Inr f \<Rightarrow> (Inr (Some f), r\<lparr>rb_filled := 0, rb_expected_len := None\<rparr>))"

definition decode_if_complete :: "frame_reader \<Rightarrow> (session_wire_error + frame option) \<times> frame_reader" where
  "decode_if_complete r =
     (if rb_expected_len r = None \<and> rb_filled r = HEADER_LEN
      then case announced_len (rb_buffer r) of
          Inl e \<Rightarrow> (Inl e, reader_fail r)
        | Inr total_len \<Rightarrow> decode_complete (r\<lparr>rb_expected_len := Some total_len\<rparr>)
      else decode_complete r)"

text \<open>Bytes land behind those already there.\<close>

definition copy_in :: "u8 list \<Rightarrow> frame_reader \<Rightarrow> frame_reader" where
  "copy_in bs r = r\<lparr>rb_buffer := take (rb_filled r) (rb_buffer r) @ bs @ drop (rb_filled r + length bs) (rb_buffer r),
     rb_filled := rb_filled r + length bs\<rparr>"

definition feed :: "u8 list \<Rightarrow> frame_reader \<Rightarrow> (session_wire_error + nat \<times> frame option) \<times> frame_reader" where
  "feed input r =
     (if rb_terminal r then (Inl WireTerminal, r)
      else
        let consumed = min (length input) (target_len r - rb_filled r);
            (result, r1) = decode_if_complete (copy_in (take consumed input) r)
        in (rbind result (\<lambda>f. Inr (consumed, f)), r1))"

definition eof_error :: "frame_reader \<Rightarrow> session_wire_error" where
  "eof_error r = (if rb_filled r = 0 then WireClosed else WireTruncated)"

definition finish :: "frame_reader \<Rightarrow> (session_wire_error + unit) \<times> frame_reader" where
  "finish r = (if rb_terminal r then (Inl WireTerminal, r) else (Inl (eof_error r), reader_fail r))"

datatype recv_result = Received "u8 list" | RecvEnd | RecvError

fun read_loop ::
    "nat \<Rightarrow> (nat \<Rightarrow> 's \<Rightarrow> recv_result \<times> 's) \<Rightarrow> frame_reader \<Rightarrow> 's
     \<Rightarrow> (session_wire_error + frame) option \<times> frame_reader \<times> 's" where
  "read_loop 0 recv r s = (None, r, s)"
| "read_loop (Suc fuel) recv r s =
     (case recv (target_len r - rb_filled r) s of
        (RecvError, s1) \<Rightarrow> (Some (Inl WireIo), reader_fail r, s1)
      | (RecvEnd, s1) \<Rightarrow> (Some (Inl (eof_error r)), reader_fail r, s1)
      | (Received bs, s1) \<Rightarrow>
          if bs = [] then (Some (Inl (eof_error r)), reader_fail r, s1)
          else case decode_if_complete (copy_in bs r) of
              (Inl e, r1) \<Rightarrow> (Some (Inl e), r1, s1)
            | (Inr (Some f), r1) \<Rightarrow> (Some (Inr f), r1, s1)
            | (Inr None, r1) \<Rightarrow> read_loop fuel recv r1 s1)"

definition read_frame ::
    "(nat \<Rightarrow> 's \<Rightarrow> recv_result \<times> 's) \<Rightarrow> frame_reader \<Rightarrow> 's
     \<Rightarrow> (session_wire_error + frame) option \<times> frame_reader \<times> 's" where
  "read_frame recv r s =
     (if rb_terminal r then (Some (Inl WireTerminal), r, s) else read_loop MAX_FRAME_LEN recv r s)"

definition wire_decode_datagram :: "u8 list \<Rightarrow> session_wire_error + frame" where
  "wire_decode_datagram bs =
     rbind (map_err wire_of_decode (decode bs)) (\<lambda>f.
       if \<not> is_heartbeat (fr_message f) then Inl WireInvalidFrame else Inr f)"

text \<open>
  What the stream did with the encoded bytes; the second result tells whether the connection is
  closed, as it is after every outcome but success.
\<close>

datatype write_outcome = WriteDone | WriteError | WriteTimeout

fun wire_of_encode :: "encode_error \<Rightarrow> session_wire_error" where
  "wire_of_encode EncFrameTooLarge = WireTooLarge"
| "wire_of_encode _ = WireInvalidFrame"

definition write_within :: "(u8 list \<Rightarrow> write_outcome) \<Rightarrow> frame \<Rightarrow> (session_wire_error + u8 list) \<times> bool" where
  "write_within send_all f =
     (case encode_into f [] of
        (Inl e, _) \<Rightarrow> (Inl (wire_of_encode e), True)
      | (Inr _, encoded) \<Rightarrow>
          (case send_all encoded of
             WriteTimeout \<Rightarrow> (Inl WireTimedOut, True)
           | WriteError \<Rightarrow> (Inl WireIo, True)
           | WriteDone \<Rightarrow> (Inr encoded, False)))"

subsection \<open>What the reader needs of the codec\<close>

definition reader_fresh :: "frame_reader \<Rightarrow> bool" where
  "reader_fresh r = (\<not> rb_terminal r \<and> length (rb_buffer r) = MAX_FRAME_LEN \<and> rb_filled r = 0 \<and>
     rb_expected_len r = None)"

text \<open>The reader has the first \<open>n\<close> bytes of a frame and wants more.\<close>

definition partway :: "u8 list \<Rightarrow> nat \<Rightarrow> frame_reader \<Rightarrow> bool" where
  "partway bs n r = (\<not> rb_terminal r \<and> length (rb_buffer r) = MAX_FRAME_LEN \<and> rb_filled r = n \<and>
     take n (rb_buffer r) = take n bs \<and> n < length bs \<and>
     rb_expected_len r = (if n < HEADER_LEN then None else Some (length bs)))"

text \<open>
  What QUIC documents of a stream without a connection error: a read with room for \<open>n\<close> bytes brings
  the next bytes of the stream in order, at most \<open>n\<close>, and none only when the stream has ended.
\<close>

definition ordered_stream :: "(nat \<Rightarrow> 's \<Rightarrow> recv_result \<times> 's) \<Rightarrow> ('s \<Rightarrow> u8 list) \<Rightarrow> bool" where
  "ordered_stream recv content = (\<forall>n s. 0 < n \<longrightarrow>
     (case recv n s of
        (Received bs, s1) \<Rightarrow> length bs \<le> n \<and> content s = bs @ content s1 \<and> (bs = [] \<longrightarrow> content s = [])
      | (RecvEnd, s1) \<Rightarrow> content s = [] \<and> content s1 = []
      | (RecvError, s1) \<Rightarrow> False))"

lemma ordered_stream_cases:
  assumes "ordered_stream recv content" "0 < n"
  shows "(\<exists>bs s1. recv n s = (Received bs, s1) \<and> length bs \<le> n \<and> content s = bs @ content s1 \<and>
      (bs = [] \<longrightarrow> content s = [])) \<or>
    (\<exists>s1. recv n s = (RecvEnd, s1) \<and> content s = [])"
proof -
  obtain x s1 where x: "recv n s = (x, s1)" by (cases "recv n s")
  have "case recv n s of
        (Received bs, s1) \<Rightarrow> length bs \<le> n \<and> content s = bs @ content s1 \<and> (bs = [] \<longrightarrow> content s = [])
      | (RecvEnd, s1) \<Rightarrow> content s = [] \<and> content s1 = []
      | (RecvError, s1) \<Rightarrow> False"
    by (rule assms(1) [unfolded ordered_stream_def, THEN spec, THEN spec, THEN mp, OF assms(2)])
  note facts = this [unfolded x prod.case]
  show ?thesis
  proof (cases x)
    case (Received bs)
    show ?thesis using facts [unfolded Received recv_result.case] x Received by blast
  next
    case RecvEnd
    show ?thesis using facts [unfolded RecvEnd recv_result.case] x RecvEnd by blast
  next
    case RecvError
    show ?thesis using facts [unfolded RecvError recv_result.case] by blast
  qed
qed

lemma append_eq_take:
  assumes "xs @ ys = take m zs" "length xs \<le> m"
  shows "xs = take (length xs) zs" "ys = take (m - length xs) (drop (length xs) zs)"
proof -
  have "xs = take (length xs) (take m zs)" by (simp flip: assms(1))
  then show "xs = take (length xs) zs" using assms(2) by (simp add: min_def)
  have "ys = drop (length xs) (take m zs)" by (simp flip: assms(1))
  then show "ys = take (m - length xs) (drop (length xs) zs)" by (simp add: drop_take)
qed

lemma announced_len_cong:
  assumes "take HEADER_LEN b = take HEADER_LEN c"
  shows "announced_len b = announced_len c"
proof -
  have "b ! i = c ! i" if "i < HEADER_LEN" for i
    using that assms by (metis nth_take)
  then show ?thesis by (simp add: announced_len_def HEADER_LEN_def)
qed

lemma announced_len_max: "announced_len b = Inr n \<Longrightarrow> n \<le> MAX_FRAME_LEN"
  by (auto simp: announced_len_def split: option.splits if_splits)

lemma copy_in_take:
  assumes "take n (rb_buffer r) = take n bs" "rb_filled r = n" "length (rb_buffer r) = MAX_FRAME_LEN"
    and "chunk = take (length chunk) (drop n bs)" "n + length chunk \<le> length bs" "length bs \<le> MAX_FRAME_LEN"
  shows "rb_filled (copy_in chunk r) = n + length chunk" "length (rb_buffer (copy_in chunk r)) = MAX_FRAME_LEN"
    "take (n + length chunk) (rb_buffer (copy_in chunk r)) = take (n + length chunk) bs"
    "rb_terminal (copy_in chunk r) = rb_terminal r" "rb_expected_len (copy_in chunk r) = rb_expected_len r"
proof -
  have "n \<le> length (rb_buffer r)" using assms(3,5,6) by linarith
  then show "take (n + length chunk) (rb_buffer (copy_in chunk r)) = take (n + length chunk) bs"
    "length (rb_buffer (copy_in chunk r)) = MAX_FRAME_LEN"
    using assms by (simp_all add: copy_in_def take_add)
qed (use assms in \<open>simp_all add: copy_in_def\<close>)

locale framed_codec =
  fixes bytes :: "frame \<Rightarrow> u8 list"
    and sendable :: "frame \<Rightarrow> bool"
  assumes has_header: "sendable f \<Longrightarrow> HEADER_LEN \<le> length (bytes f)"
    and announces: "sendable f \<Longrightarrow> announced_len (bytes f) = Inr (length (bytes f))"
    and decodes: "sendable f \<Longrightarrow> decode (bytes f) = Inr f"
begin

lemma reader_step:
  assumes f: "sendable f" and part: "partway (bytes f) n r"
    and chunk: "chunk = take (length chunk) (drop n (bytes f))" "length chunk \<le> target_len r - rb_filled r"
  shows "if n + length chunk = length (bytes f)
    then \<exists>r1. decode_if_complete (copy_in chunk r) = (Inr (Some f), r1) \<and> reader_fresh r1
    else \<exists>r1. decode_if_complete (copy_in chunk r) = (Inr None, r1) \<and> partway (bytes f) (n + length chunk) r1"
proof -
  let ?c = "copy_in chunk r" and ?m = "n + length chunk"
  have part': "take n (rb_buffer r) = take n (bytes f)" "rb_filled r = n" "length (rb_buffer r) = MAX_FRAME_LEN"
    "n < length (bytes f)" "\<not> rb_terminal r"
    "rb_expected_len r = (if n < HEADER_LEN then None else Some (length (bytes f)))"
    using part by (auto simp: partway_def)
  have m: "?m \<le> length (bytes f)" "n < HEADER_LEN \<Longrightarrow> ?m \<le> HEADER_LEN"
    using chunk(2) part' has_header [OF f] by (auto simp: target_len_def split: if_splits)
  note c = copy_in_take [OF part'(1-3) chunk(1) m(1) announced_len_max [OF announces [OF f]]]
  have fin: "decode_complete (?c\<lparr>rb_expected_len := Some (length (bytes f))\<rparr>) =
      (if ?m = length (bytes f) then (Inr (Some f), ?c\<lparr>rb_filled := 0, rb_expected_len := None\<rparr>)
       else (Inr None, ?c\<lparr>rb_expected_len := Some (length (bytes f))\<rparr>))"
    using c decodes [OF f] by (auto simp: decode_complete_def)
  consider "?m < HEADER_LEN" | "n < HEADER_LEN" "?m = HEADER_LEN" | "HEADER_LEN \<le> n"
    using m(2) by linarith
  then show ?thesis
  proof cases
    case 1
    then show ?thesis
      using c part' has_header [OF f] by (auto simp: decode_if_complete_def decode_complete_def partway_def)
  next
    case 2
    then have "announced_len (rb_buffer ?c) = Inr (length (bytes f))"
      using announced_len_cong [of "rb_buffer ?c" "bytes f"] c(3) announces [OF f] by simp
    then show ?thesis
      using 2 c part' fin has_header [OF f] by (auto simp: decode_if_complete_def partway_def reader_fresh_def)
  next
    case 3
    then have same: "?c\<lparr>rb_expected_len := Some (length (bytes f))\<rparr> = ?c" using c(5) part'(6) by simp
    show ?thesis
      using 3 c part' m(1) fin [unfolded same] by (auto simp: decode_if_complete_def partway_def reader_fresh_def)
  qed
qed

lemma partway_room: "sendable f \<Longrightarrow> partway (bytes f) n r \<Longrightarrow> 0 < target_len r - rb_filled r \<and>
    target_len r - rb_filled r \<le> length (bytes f) - n"
  using has_header [of f] by (auto simp: partway_def target_len_def split: if_splits)

lemma fresh_partway: "sendable f \<Longrightarrow> reader_fresh r \<Longrightarrow> partway (bytes f) 0 r"
  using has_header [of f] by (auto simp: partway_def reader_fresh_def HEADER_LEN_def)

lemma read_loop_frame:
  assumes "ordered_stream recv content" "sendable f"
  shows "partway (bytes f) n r \<Longrightarrow> content s = drop n (bytes f) @ rest \<Longrightarrow> length (bytes f) - n \<le> fuel \<Longrightarrow>
    \<exists>r1 s1. read_loop fuel recv r s = (Some (Inr f), r1, s1) \<and> reader_fresh r1 \<and> content s1 = rest"
proof (induction fuel arbitrary: n r s)
  case 0
  then show ?case by (simp add: partway_def)
next
  case (Suc fuel)
  note room = partway_room [OF assms(2) Suc.prems(1)]
  have n: "n < length (bytes f)" using Suc.prems(1) by (simp add: partway_def)
  then have "content s \<noteq> []" using Suc.prems(2) by simp
  then obtain chunk s1 where recv: "recv (target_len r - rb_filled r) s = (Received chunk, s1)"
    "length chunk \<le> target_len r - rb_filled r" "content s = chunk @ content s1" "chunk \<noteq> []"
    using ordered_stream_cases [OF assms(1)] room by metis
  then have len: "length chunk \<le> length (bytes f) - n" using room by linarith
  have "chunk @ content s1 = drop n (bytes f) @ rest" using recv(3) Suc.prems(2) by simp
  then have chunk: "chunk = take (length chunk) (drop n (bytes f))"
    "content s1 = drop (n + length chunk) (bytes f) @ rest"
    using len by (auto simp: append_eq_append_conv_if add.commute split: if_splits)
  note step = reader_step [OF assms(2) Suc.prems(1) chunk(1) recv(2)]
  show ?case
  proof (cases "n + length chunk = length (bytes f)")
    case True
    then show ?thesis using step recv(1,4) chunk(2) by auto
  next
    case False
    then obtain r1 where r1: "decode_if_complete (copy_in chunk r) = (Inr None, r1)"
      "partway (bytes f) (n + length chunk) r1" using step by auto
    have "length (bytes f) - (n + length chunk) \<le> fuel"
      using Suc.prems(3) recv(4) by (cases chunk) auto
    from Suc.IH [OF r1(2) chunk(2) this] show ?thesis using recv(1,4) r1(1) by simp
  qed
qed

lemma read_loop_cut:
  assumes "ordered_stream recv content" "sendable f"
  shows "partway (bytes f) n r \<Longrightarrow> content s = take m (drop n (bytes f)) \<Longrightarrow> n + m < length (bytes f) \<Longrightarrow>
    length (bytes f) - n \<le> fuel \<Longrightarrow>
    \<exists>r1 s1. read_loop fuel recv r s = (Some (Inl (if n + m = 0 then WireClosed else WireTruncated)), r1, s1) \<and>
      rb_terminal r1"
proof (induction fuel arbitrary: n m r s)
  case (Suc fuel)
  note room = partway_room [OF assms(2) Suc.prems(1)]
  have filled: "rb_filled r = n" using Suc.prems(1) by (simp add: partway_def)
  show ?case
  proof (cases "m = 0")
    case True
    then have "content s = []" using Suc.prems(2) by simp
    then have "(\<exists>s1. recv (target_len r - rb_filled r) s = (RecvEnd, s1)) \<or>
        (\<exists>s1. recv (target_len r - rb_filled r) s = (Received [], s1))"
      using ordered_stream_cases [OF assms(1), of "target_len r - rb_filled r" s] room by fastforce
    then show ?thesis
      using True filled by (auto simp: eof_error_def reader_fail_def)
  next
    case False
    then have "content s \<noteq> []" using Suc.prems(2,3) by auto
    then obtain chunk s1 where recv: "recv (target_len r - rb_filled r) s = (Received chunk, s1)"
      "length chunk \<le> target_len r - rb_filled r" "content s = chunk @ content s1" "chunk \<noteq> []"
      using ordered_stream_cases [OF assms(1)] room by metis
    have len: "length chunk \<le> m"
      using arg_cong [OF recv(3), of length] Suc.prems(2) by simp
    have eq: "chunk @ content s1 = take m (drop n (bytes f))" using recv(3) Suc.prems(2) by simp
    then have chunk: "chunk = take (length chunk) (drop n (bytes f))"
      "content s1 = take (m - length chunk) (drop (n + length chunk) (bytes f))"
      using append_eq_take [OF eq len] by (simp_all add: add.commute)
    have part: "n + length chunk \<noteq> length (bytes f)" using len Suc.prems(3) by linarith
    then obtain r1 where r1: "decode_if_complete (copy_in chunk r) = (Inr None, r1)"
      "partway (bytes f) (n + length chunk) r1"
      using reader_step [OF assms(2) Suc.prems(1) chunk(1) recv(2)] by auto
    have "length (bytes f) - (n + length chunk) \<le> fuel" "n + length chunk + (m - length chunk) = n + m"
      using Suc.prems(4) recv(4) len by (auto simp: neq_Nil_conv)
    then show ?thesis
      using Suc.IH [OF r1(2) chunk(2)] recv(1,4) r1(1) Suc.prems(3) by simp
  qed
qed (simp add: partway_def)

end

subsection \<open>A stream of frames\<close>

definition frame_sendable :: "frame \<Rightarrow> bool" where
  "frame_sendable f = (frame_wf f \<and> is_ok (fst (encode_into f [])))"

definition wire_bytes_of :: "frame \<Rightarrow> u8 list" where
  "wire_bytes_of f = snd (encode_into f [])"

lemma sendable_bytes:
  assumes "frame_sendable f"
  shows "wire_bytes_of f = frame_bytes f" "length (encode_body (fr_message f)) \<le> 2564" "decode (frame_bytes f) = Inr f"
proof -
  have wf: "frame_wf f" "message_wf (fr_message f)" using assms by (auto simp: frame_sendable_def frame_wf_def)
  obtain n where n: "body_len (fr_message f) = Inr n"
    using assms encode_into_error [of f _ "[]"] by (cases "body_len (fr_message f)") (auto simp: frame_sendable_def)
  show "wire_bytes_of f = frame_bytes f" by (simp add: wire_bytes_of_def encode_into_ok [OF wf(2) n])
  show "length (encode_body (fr_message f)) \<le> 2564"
    using body_len_bound [OF wf(2) n] length_encode_body [OF wf(2) n] by simp
  show "decode (frame_bytes f) = Inr f" by (rule decode_frame_bytes [OF wf(1) n])
qed

lemma announced_frame_bytes:
  assumes "length (encode_body (fr_message f)) \<le> 2564"
  shows "announced_len (frame_bytes f) = Inr (length (frame_bytes f))"
proof -
  let ?n = "of_nat (length (encode_body (fr_message f))) :: u16"
  have "take 2 (drop 8 (frame_bytes f)) = write_u16 ?n"
    by (simp add: frame_bytes_def frame_header_def write_u16_def MAGIC_def)
  moreover have "take 2 (drop 8 bs) = [bs ! 8, bs ! 9]" if "10 \<le> length bs" for bs :: "u8 list"
    using that by (simp add: numeral_2_eq_2 take_Suc_conv_app_nth)
  ultimately have "[frame_bytes f ! 8, frame_bytes f ! 9] = write_u16 ?n"
    by (simp add: length_frame_bytes)
  then have "unat (from_be_bytes [frame_bytes f ! 8, frame_bytes f ! 9] :: u16) = length (encode_body (fr_message f))"
    using assms by (simp add: write_u16_def from_to_be_bytes take_bit_word_eq_self unat_of_nat take_bit_nat_eq_self)
  then show ?thesis
    using assms by (simp add: announced_len_def usize_checked_add_def HEADER_LEN_def MAX_FRAME_LEN_def length_frame_bytes)
qed

interpretation session_codec: framed_codec wire_bytes_of frame_sendable
  by unfold_locales
    (simp_all add: sendable_bytes announced_frame_bytes length_frame_bytes HEADER_LEN_def)

fun read_frames ::
    "nat \<Rightarrow> (nat \<Rightarrow> 's \<Rightarrow> recv_result \<times> 's) \<Rightarrow> frame_reader \<Rightarrow> 's
     \<Rightarrow> (session_wire_error + frame) option list \<times> frame_reader \<times> 's" where
  "read_frames 0 recv r s = ([], r, s)"
| "read_frames (Suc n) recv r s =
     (let (x, r1, s1) = read_frame recv r s; (xs, r2, s2) = read_frames n recv r1 s1 in (x # xs, r2, s2))"

lemma read_frame_next:
  assumes "ordered_stream recv content" "frame_sendable f" "reader_fresh r" "content s = wire_bytes_of f @ rest"
  shows "\<exists>r1 s1. read_frame recv r s = (Some (Inr f), r1, s1) \<and> reader_fresh r1 \<and> content s1 = rest"
proof -
  have "length (wire_bytes_of f) - 0 \<le> MAX_FRAME_LEN"
    using announced_len_max [OF session_codec.announces [OF assms(2)]] by simp
  then show ?thesis
    using session_codec.read_loop_frame [OF assms(1,2) session_codec.fresh_partway [OF assms(2,3)]] assms(3,4)
    by (simp add: read_frame_def reader_fresh_def)
qed

lemma read_frame_cut:
  assumes "ordered_stream recv content" "frame_sendable g" "reader_fresh r" "content s = take m (wire_bytes_of g)"
    and "m < length (wire_bytes_of g)"
  shows "\<exists>r1 s1. read_frame recv r s = (Some (Inl (if m = 0 then WireClosed else WireTruncated)), r1, s1) \<and>
    rb_terminal r1"
proof -
  have "length (wire_bytes_of g) - 0 \<le> MAX_FRAME_LEN"
    using announced_len_max [OF session_codec.announces [OF assms(2)]] by simp
  then show ?thesis
    using session_codec.read_loop_cut [OF assms(1,2) session_codec.fresh_partway [OF assms(2,3)], of s m] assms(3-5)
    by (simp add: read_frame_def reader_fresh_def)
qed

lemma read_frames_terminal:
  "rb_terminal r \<Longrightarrow> read_frames k recv r s = (replicate k (Some (Inl WireTerminal)), r, s)"
  by (induction k) (simp_all add: read_frame_def)

lemma read_frames_stream:
  assumes "ordered_stream recv content" "frame_sendable g" "m < length (wire_bytes_of g)"
  shows "list_all frame_sendable fs \<Longrightarrow> reader_fresh r \<Longrightarrow>
    content s = concat (map wire_bytes_of fs) @ take m (wire_bytes_of g) \<Longrightarrow>
    \<exists>r1 s1. read_frames (length fs + 1 + k) recv r s =
      (map (\<lambda>f. Some (Inr f)) fs @ Some (Inl (if m = 0 then WireClosed else WireTruncated)) #
         replicate k (Some (Inl WireTerminal)), r1, s1)"
proof (induction fs arbitrary: r s)
  case Nil
  then obtain r1 s1 where "read_frame recv r s = (Some (Inl (if m = 0 then WireClosed else WireTruncated)), r1, s1)"
    "rb_terminal r1"
    using read_frame_cut [OF assms(1,2) Nil.prems(2) _ assms(3), of s] by auto
  then show ?case by (simp add: read_frames_terminal)
next
  case (Cons f fs)
  then obtain r1 s1 where step: "read_frame recv r s = (Some (Inr f), r1, s1)" "reader_fresh r1"
    "content s1 = concat (map wire_bytes_of fs) @ take m (wire_bytes_of g)"
    using read_frame_next [OF assms(1), of f r s] by auto
  from Cons.IH [OF _ step(2,3)] Cons.prems(1) show ?case using step(1) by auto
qed

text \<open>
  C12: Framing loses nothing however the stream is cut into reads. Let the stream carry the encodings
  of any sendable frames followed by a part, possibly none, of one more and then end. Then, whatever
  sizes the reads have, successive calls of the reader each return - the loop ends within its fuel -
  and give exactly these frames in order, then that the stream closed, or that it was truncated when
  part of a frame is left, and from then on that the reader is terminal.
\<close>

theorem stream_reads_back:
  assumes "ordered_stream recv content" "list_all frame_sendable fs" "frame_sendable g"
    and "m < length (wire_bytes_of g)" "content s = concat (map wire_bytes_of fs) @ take m (wire_bytes_of g)"
  shows "fst (read_frames (length fs + 1 + k) recv frame_reader_new s) =
    map (\<lambda>f. Some (Inr f)) fs @ Some (Inl (if m = 0 then WireClosed else WireTruncated)) #
      replicate k (Some (Inl WireTerminal))"
proof -
  have "reader_fresh frame_reader_new" by (simp add: reader_fresh_def frame_reader_new_def)
  from read_frames_stream [OF assms(1,3,4,2) this assms(5), of k] show ?thesis by auto
qed

text \<open>A stream that hands out at most three bytes per read.\<close>

fun trickle :: "nat \<Rightarrow> u8 list \<Rightarrow> recv_result \<times> u8 list" where
  "trickle n [] = (RecvEnd, [])"
| "trickle n (b # bs) = (Received (take (min n 3) (b # bs)), drop (min n 3) (b # bs))"

lemma trickle_ordered: "ordered_stream trickle (\<lambda>bs. bs)"
  unfolding ordered_stream_def
proof (intro allI impI)
  fix n :: nat and s :: "u8 list"
  assume "0 < n"
  then show "case trickle n s of
        (Received bs, s1) \<Rightarrow> length bs \<le> n \<and> s = bs @ s1 \<and> (bs = [] \<longrightarrow> s = [])
      | (RecvEnd, s1) \<Rightarrow> s = [] \<and> s1 = []
      | (RecvError, s1) \<Rightarrow> False"
    by (cases s) (auto simp: take_Cons' drop_Cons')
qed

lemma sample_sendable: "frame_sendable sample_frame"
  using sample_frame_ok encode_into_ok [of sample_frame 8 "[]"] by (simp add: frame_sendable_def frame_wf_def)

theorem stream_reads_back_witness:
  "fst (read_frames 4 trickle frame_reader_new
      (wire_bytes_of sample_frame @ wire_bytes_of sample_frame @ take 5 (wire_bytes_of sample_frame))) =
     [Some (Inr sample_frame), Some (Inr sample_frame), Some (Inl WireTruncated), Some (Inl WireTerminal)]"
proof -
  have "5 < length (wire_bytes_of sample_frame)"
    using sendable_bytes(1) [OF sample_sendable] by (simp add: length_frame_bytes)
  then show ?thesis
    using stream_reads_back [OF trickle_ordered, of "[sample_frame, sample_frame]" sample_frame 5 _ 1] sample_sendable
    by (simp add: numeral_eq_Suc)
qed

end
