(* ===== verification/Handlers.thy ===== *)
theory Handlers
  imports Prelude
begin

section \<open>Handlers with state, errors and loops that may not return\<close>

text \<open>
  A method that changes its object and returns a \<open>Result\<close> is a function from the state to an outcome
  and the new state: \<open>Some (Inr x)\<close> for \<open>Ok(x)\<close>, \<open>Some (Inl e)\<close> for \<open>Err(e)\<close>, \<open>None\<close> when
  the method does not return. The state keeps what was done before an error, as in the source.
  The calculus of \<open>always\<close> carries proofs over the sequencing of such methods.
\<close>

type_synonym ('s, 'e, 'a) handler = "'s \<Rightarrow> ('e + 'a) option \<times> 's"

definition h_ok :: "'a \<Rightarrow> ('s, 'e, 'a) handler" where
  "h_ok x = (\<lambda>s. (Some (Inr x), s))"

definition h_err :: "'e \<Rightarrow> ('s, 'e, 'a) handler" where
  "h_err e = (\<lambda>s. (Some (Inl e), s))"

definition h_get :: "('s, 'e, 's) handler" where
  "h_get = (\<lambda>s. (Some (Inr s), s))"

definition h_upd :: "('s \<Rightarrow> 's) \<Rightarrow> ('s, 'e, unit) handler" where
  "h_upd g = (\<lambda>s. (Some (Inr ()), g s))"

definition h_bind :: "('s, 'e, 'a) handler \<Rightarrow> ('a \<Rightarrow> ('s, 'e, 'b) handler) \<Rightarrow> ('s, 'e, 'b) handler" where
  "h_bind m f = (\<lambda>s. case m s of
       (None, s1) \<Rightarrow> (None, s1)
     | (Some (Inl e), s1) \<Rightarrow> (Some (Inl e), s1)
     | (Some (Inr x), s1) \<Rightarrow> f x s1)"

definition h_seq :: "('s, 'e, unit) handler \<Rightarrow> ('s, 'e, 'b) handler \<Rightarrow> ('s, 'e, 'b) handler" where
  "h_seq m n = h_bind m (\<lambda>_. n)"

definition h_catch :: "('s, 'e, 'a) handler \<Rightarrow> ('e \<Rightarrow> ('s, 'e, 'a) handler) \<Rightarrow> ('s, 'e, 'a) handler" where
  "h_catch m f = (\<lambda>s. case m s of
       (None, s1) \<Rightarrow> (None, s1)
     | (Some (Inl e), s1) \<Rightarrow> f e s1
     | (Some (Inr x), s1) \<Rightarrow> (Some (Inr x), s1))"

definition h_when :: "bool \<Rightarrow> ('s, 'e, unit) handler \<Rightarrow> ('s, 'e, unit) handler" where
  "h_when c m = (if c then m else h_ok ())"

definition h_lift :: "'e + 'a \<Rightarrow> ('s, 'e, 'a) handler" where
  "h_lift r = (\<lambda>s. (Some r, s))"

lemmas handler_defs = h_ok_def h_err_def h_get_def h_upd_def h_bind_def h_seq_def h_catch_def h_when_def h_lift_def

text \<open>
  \<open>always P Q E D m\<close>: started in \<open>P\<close>, the method ends in \<open>Q x\<close> when it returns \<open>Ok(x)\<close>, in \<open>E e\<close>
  when it returns \<open>Err(e)\<close>, and in \<open>D\<close> when it does not return.
\<close>

definition always ::
    "('s \<Rightarrow> bool) \<Rightarrow> ('a \<Rightarrow> 's \<Rightarrow> bool) \<Rightarrow> ('e \<Rightarrow> 's \<Rightarrow> bool) \<Rightarrow> ('s \<Rightarrow> bool) \<Rightarrow> ('s, 'e, 'a) handler \<Rightarrow> bool" where
  "always P Q E D m \<longleftrightarrow> (\<forall>s. P s \<longrightarrow>
     (case m s of (None, t) \<Rightarrow> D t | (Some (Inl e), t) \<Rightarrow> E e t | (Some (Inr x), t) \<Rightarrow> Q x t))"

lemma alwaysD:
  assumes "always P Q E D m" "P s" "m s = (out, t)"
  shows "case out of None \<Rightarrow> D t | Some (Inl e) \<Rightarrow> E e t | Some (Inr x) \<Rightarrow> Q x t"
  using assms by (auto simp: always_def split: option.splits sum.splits)

lemma always_ok [intro!]: "(\<And>s. P s \<Longrightarrow> Q x s) \<Longrightarrow> always P Q E D (h_ok x)"
  by (simp add: always_def h_ok_def)

lemma always_err [intro!]: "(\<And>s. P s \<Longrightarrow> E e s) \<Longrightarrow> always P Q E D (h_err e)"
  by (simp add: always_def h_err_def)

lemma always_get [intro!]: "(\<And>s. P s \<Longrightarrow> Q s s) \<Longrightarrow> always P Q E D h_get"
  by (simp add: always_def h_get_def)

lemma always_upd [intro!]: "(\<And>s. P s \<Longrightarrow> Q () (g s)) \<Longrightarrow> always P Q E D (h_upd g)"
  by (simp add: always_def h_upd_def)

lemma always_lift: "(\<And>s e. P s \<Longrightarrow> r = Inl e \<Longrightarrow> E e s) \<Longrightarrow> (\<And>s x. P s \<Longrightarrow> r = Inr x \<Longrightarrow> Q x s) \<Longrightarrow> always P Q E D (h_lift r)"
  by (auto simp: always_def h_lift_def split: sum.splits)

lemma always_bind:
  "always P R E D m \<Longrightarrow> (\<And>x. always (R x) Q E D (f x)) \<Longrightarrow> always P Q E D (h_bind m f)"
  by (fastforce simp: always_def h_bind_def split: prod.splits option.splits sum.splits)

lemma always_seq: "always P (\<lambda>_. R) E D m \<Longrightarrow> always R Q E D n \<Longrightarrow> always P Q E D (h_seq m n)"
  unfolding h_seq_def by (rule always_bind)

text \<open>The same where one condition holds all along.\<close>

lemma keeps_seq: "always J (\<lambda>_. J) E D m \<Longrightarrow> always J Q E D n \<Longrightarrow> always J Q E D (h_seq m n)"
  by (rule always_seq)

lemma keeps_bind: "always J (\<lambda>_. J) E D m \<Longrightarrow> (\<And>x. always J Q E D (f x)) \<Longrightarrow> always J Q E D (h_bind m f)"
  by (rule always_bind)

lemma always_catch:
  "always P Q R D m \<Longrightarrow> (\<And>e. always (R e) Q E D (f e)) \<Longrightarrow> always P Q E D (h_catch m f)"
  by (fastforce simp: always_def h_catch_def split: prod.splits option.splits sum.splits)

lemma always_when: "(c \<Longrightarrow> always P Q E D m) \<Longrightarrow> (\<And>s. \<not> c \<Longrightarrow> P s \<Longrightarrow> Q () s) \<Longrightarrow> always P Q E D (h_when c m)"
  by (auto simp: h_when_def)

lemma always_if: "(c \<Longrightarrow> always P Q E D m) \<Longrightarrow> (\<not> c \<Longrightarrow> always P Q E D n) \<Longrightarrow> always P Q E D (if c then m else n)"
  by simp

text \<open>Reading the state first: the rest of the method may use that it is the state read.\<close>

lemma always_get_bind:
  "(\<And>s. P s \<Longrightarrow> always (\<lambda>t. t = s) Q E D (f s)) \<Longrightarrow> always P Q E D (h_bind h_get f)"
  by (auto simp: always_def h_bind_def h_get_def)

lemma always_weaken:
  "always P Q E D m \<Longrightarrow> (\<And>s. P' s \<Longrightarrow> P s) \<Longrightarrow> (\<And>x s. Q x s \<Longrightarrow> Q' x s) \<Longrightarrow> (\<And>e s. E e s \<Longrightarrow> E' e s)
     \<Longrightarrow> (\<And>s. D s \<Longrightarrow> D' s) \<Longrightarrow> always P' Q' E' D' m"
  by (fastforce simp: always_def split: prod.splits option.splits sum.splits)

lemma always_conj:
  "always P Q E D m \<Longrightarrow> always P' Q' E' D' m \<Longrightarrow>
     always (\<lambda>s. P s \<and> P' s) (\<lambda>x s. Q x s \<and> Q' x s) (\<lambda>e s. E e s \<and> E' e s) (\<lambda>s. D s \<and> D' s) m"
  by (fastforce simp: always_def split: prod.splits option.splits sum.splits)

text \<open>A value of the starting state named, and an existential in the starting condition.\<close>

lemma always_pre_ex:
  assumes "\<And>x. always (\<lambda>s. P s \<and> v s = x) Q E D m"
  shows "always P Q E D m"
  unfolding always_def using assms [of "v s" for s, unfolded always_def] by simp

lemma always_ex_pre:
  assumes "\<And>x. always (P x) Q E D m"
  shows "always (\<lambda>s. \<exists>x. P x s) Q E D m"
  unfolding always_def
proof (intro allI impI, elim exE)
  fix s x assume "P x s"
  then show "case m s of (None, t) \<Rightarrow> D t | (Some (Inl e), t) \<Rightarrow> E e t | (Some (Inr y), t) \<Rightarrow> Q y t"
    using assms [of x] by (simp add: always_def)
qed

lemma always_states: "(\<And>s. P s \<Longrightarrow> always (\<lambda>t. t = s) Q E D m) \<Longrightarrow> always P Q E D m"
  by (simp add: always_def)

lemma always_false [simp, intro!]: "always (\<lambda>_. False) Q E D m"
  by (simp add: always_def)

end
