(* ===== verification/Peer_Health.thy ===== *)
theory Peer_Health
  imports Prelude
begin

section \<open>Peer liveness: \<open>monhop-transport/src/session_health.rs\<close>\<close>

text \<open>
  Challenges and replies that decide whether the peer is alive. Time is nanoseconds on the session
  clock, an argument of every operation. The source's plain subtractions of durations panic when
  they would go below zero; \<open>health_inv\<close> below rules that out.
\<close>

abbreviation (input) HEARTBEAT_INTERVAL :: duration where "HEARTBEAT_INTERVAL \<equiv> from_millis 30"
abbreviation (input) PEER_LIVENESS :: duration where "PEER_LIVENESS \<equiv> from_millis 500"
abbreviation (input) SUPPRESSION_LEASE_CAP :: duration where "SUPPRESSION_LEASE_CAP \<equiv> from_millis 120"
abbreviation (input) HOLD_LIMIT :: duration where "HOLD_LIMIT \<equiv> from_secs 5"

datatype health_error = ClockRegression | DeadlineExpired | UnexpectedResponse | TokenExhausted

text \<open>How many holds a session survived and the longest one, including one still running.\<close>

definition hold_stats :: "u32 \<Rightarrow> duration \<Rightarrow> duration option \<Rightarrow> duration \<Rightarrow> u32 \<times> duration" where
  "hold_stats holds held_max held_since now =
     (holds, max held_max (case held_since of None \<Rightarrow> 0 | Some since \<Rightarrow> now - since))"

record peer_health =
  ph_last_now :: duration
  ph_last_response :: duration
  ph_last_sent :: "duration option"
  ph_next_token :: u64
  ph_last_acked :: u64
  ph_confirmed :: bool
  ph_failure :: "health_error option"

definition peer_health_new :: "duration \<Rightarrow> peer_health" where
  "peer_health_new now = \<lparr>ph_last_now = now, ph_last_response = now, ph_last_sent = None, ph_next_token = 1,
     ph_last_acked = 0, ph_confirmed = False, ph_failure = None\<rparr>"

definition is_confirmed :: "peer_health \<Rightarrow> bool" where
  "is_confirmed h = (ph_confirmed h \<and> ph_failure h = None)"

definition pending_since :: "peer_health \<Rightarrow> duration option" where
  "pending_since h = (if ph_last_acked h + 1 < ph_next_token h then ph_last_sent h else None)"

text \<open>The first failure is kept and reported.\<close>

definition health_fail :: "health_error \<Rightarrow> peer_health \<Rightarrow> (health_error + 'a) \<times> peer_health" where
  "health_fail e h =
     (case ph_failure h of Some f \<Rightarrow> (Inl f, h) | None \<Rightarrow> (Inl e, h\<lparr>ph_failure := Some e\<rparr>))"

definition health_advance :: "duration \<Rightarrow> peer_health \<Rightarrow> (health_error + unit) \<times> peer_health" where
  "health_advance now h =
     (if now < ph_last_now h then health_fail ClockRegression h else (Inr (), h\<lparr>ph_last_now := now\<rparr>))"

definition health_check :: "duration \<Rightarrow> peer_health \<Rightarrow> (health_error + unit) \<times> peer_health" where
  "health_check now h =
     (case ph_failure h of
        Some e \<Rightarrow> (Inl e, h)
      | None \<Rightarrow>
          if now < ph_last_now h then health_fail ClockRegression h
          else let h1 = h\<lparr>ph_last_now := now\<rparr> in
            if PEER_LIVENESS \<le> now - ph_last_response h1 then health_fail DeadlineExpired h1 else (Inr (), h1))"

text \<open>The part \<open>poll\<close> and \<open>poll_while_held\<close> share, and that of the two ways to receive a reply.\<close>

definition health_challenge :: "duration \<Rightarrow> peer_health \<Rightarrow> (health_error + u64 option) \<times> peer_health" where
  "health_challenge now h =
     (if (case ph_last_sent h of None \<Rightarrow> False | Some l \<Rightarrow> now - l < HEARTBEAT_INTERVAL) then (Inr None, h)
      else case checked_add (ph_next_token h) 1 of
          None \<Rightarrow> health_fail TokenExhausted h
        | Some next_token \<Rightarrow>
            (Inr (Some (ph_next_token h)), h\<lparr>ph_next_token := next_token, ph_last_sent := Some now\<rparr>))"

definition health_answer :: "u64 \<Rightarrow> duration \<Rightarrow> peer_health \<Rightarrow> (health_error + bool) \<times> peer_health" where
  "health_answer token now h =
     (if ph_next_token h \<le> token then health_fail UnexpectedResponse h
      else if token \<le> ph_last_acked h then (Inr False, h)
      else (Inr True, h\<lparr>ph_last_acked := token, ph_last_response := now, ph_confirmed := True\<rparr>))"

definition health_poll :: "duration \<Rightarrow> peer_health \<Rightarrow> (health_error + u64 option) \<times> peer_health" where
  "health_poll now h =
     (case health_check now h of (Inl e, h1) \<Rightarrow> (Inl e, h1) | (Inr _, h1) \<Rightarrow> health_challenge now h1)"

definition receive_pong :: "u64 \<Rightarrow> duration \<Rightarrow> peer_health \<Rightarrow> (health_error + unit) \<times> peer_health" where
  "receive_pong token now h =
     (case health_check now h of
        (Inl e, h1) \<Rightarrow> (Inl e, h1)
      | (Inr _, h1) \<Rightarrow> (let (r, h2) = health_answer token now h1 in (rbind r (\<lambda>_. Inr ()), h2)))"

definition health_remaining :: "duration \<Rightarrow> peer_health \<Rightarrow> (health_error + duration) \<times> peer_health" where
  "health_remaining now h =
     (let (r, h1) = health_check now h
      in (rbind r (\<lambda>_. Inr (min (PEER_LIVENESS - (now - ph_last_response h1)) SUPPRESSION_LEASE_CAP)), h1))"

definition health_hold :: "duration \<Rightarrow> peer_health \<Rightarrow> (health_error + unit) \<times> peer_health" where
  "health_hold now h =
     (if ph_failure h \<noteq> None \<and> ph_failure h \<noteq> Some DeadlineExpired then (Inl (the (ph_failure h)), h)
      else case health_advance now h of
          (Inl e, h1) \<Rightarrow> (Inl e, h1)
        | (Inr _, h1) \<Rightarrow>
            (Inr (), h1\<lparr>ph_failure := None, ph_last_acked := saturating_sub (ph_next_token h1) 1, ph_confirmed := False\<rparr>))"

text \<open>The guard of the operations of a held session: a latched failure, else the clock.\<close>

definition health_while_held ::
    "duration \<Rightarrow> (peer_health \<Rightarrow> (health_error + 'a) \<times> peer_health) \<Rightarrow> peer_health \<Rightarrow> (health_error + 'a) \<times> peer_health" where
  "health_while_held now k h =
     (case ph_failure h of
        Some e \<Rightarrow> (Inl e, h)
      | None \<Rightarrow> (case health_advance now h of (Inl e, h1) \<Rightarrow> (Inl e, h1) | (Inr _, h1) \<Rightarrow> k h1))"

definition poll_while_held :: "duration \<Rightarrow> peer_health \<Rightarrow> (health_error + u64 option) \<times> peer_health" where
  "poll_while_held now = health_while_held now (health_challenge now)"

definition receive_pong_while_held :: "u64 \<Rightarrow> duration \<Rightarrow> peer_health \<Rightarrow> (health_error + bool) \<times> peer_health" where
  "receive_pong_while_held token now = health_while_held now (health_answer token now)"

definition health_resume :: "duration \<Rightarrow> peer_health \<Rightarrow> (health_error + unit) \<times> peer_health" where
  "health_resume now =
     health_while_held now (\<lambda>h. (Inr (), h\<lparr>ph_last_response := now, ph_confirmed := True\<rparr>))"

lemmas health_defs = health_fail_def health_advance_def health_check_def health_challenge_def health_answer_def
  health_poll_def receive_pong_def health_remaining_def health_hold_def health_while_held_def poll_while_held_def
  receive_pong_while_held_def health_resume_def

section \<open>The order of times and tokens\<close>

definition health_inv :: "peer_health \<Rightarrow> bool" where
  "health_inv h \<longleftrightarrow>
     ph_last_response h \<le> ph_last_now h \<and>
     (case ph_last_sent h of None \<Rightarrow> True | Some l \<Rightarrow> l \<le> ph_last_now h) \<and>
     ph_last_acked h < ph_next_token h"

lemma health_new_inv: "health_inv (peer_health_new now)"
  by (simp add: health_inv_def peer_health_new_def)

lemma saturating_pred_less: "0 < (n :: 'a::len word) \<Longrightarrow> saturating_sub n 1 < n"
  using unat_minus_one [of n] by (cases "n = 0") (auto simp: saturating_sub_def word_less_nat_alt)

lemma next_token_step: "checked_add (n :: u64) 1 = Some m \<Longrightarrow> n < m \<and> unat m = Suc (unat n)"
  by (auto dest: checked_add_Some simp: word_less_nat_alt)

lemmas health_splits = if_splits option.splits sum.splits prod.splits

text \<open>What each part does to the state, in the terms the proofs about runs need.\<close>

lemma health_advance_spec:
  "health_advance now h = (r, h1) \<Longrightarrow>
     (case r of Inr _ \<Rightarrow> ph_last_now h \<le> now \<and> h1 = h\<lparr>ph_last_now := now\<rparr>
      | Inl e \<Rightarrow> now < ph_last_now h \<and> h1 = h\<lparr>ph_failure := Some e\<rparr>)"
  by (cases "ph_failure h") (auto simp: health_advance_def health_fail_def split: health_splits)

lemma health_check_spec:
  "health_check now h = (r, h1) \<Longrightarrow>
     (case r of Inr _ \<Rightarrow> ph_failure h = None \<and> ph_last_now h \<le> now \<and> now - ph_last_response h < PEER_LIVENESS
                 \<and> h1 = h\<lparr>ph_last_now := now\<rparr>
      | Inl e \<Rightarrow> h1 = h\<lparr>ph_failure := Some e\<rparr>
                 \<or> ph_last_now h \<le> now \<and> h1 = h\<lparr>ph_last_now := now, ph_failure := Some e\<rparr>)"
  by (cases "ph_failure h") (auto simp: health_check_def health_fail_def Let_def split: health_splits)

lemma health_challenge_spec:
  "health_challenge now h = (r, h1) \<Longrightarrow>
     (case r of
        Inl e \<Rightarrow> h1 = h\<lparr>ph_failure := Some e\<rparr>
      | Inr None \<Rightarrow> h1 = h
      | Inr (Some token) \<Rightarrow> token = ph_next_token h \<and> unat (token + 1) = Suc (unat token) \<and>
          (\<forall>l. ph_last_sent h = Some l \<longrightarrow> HEARTBEAT_INTERVAL \<le> now - l) \<and>
          h1 = h\<lparr>ph_next_token := token + 1, ph_last_sent := Some now\<rparr>)"
  by (cases "ph_failure h")
     (auto simp: health_challenge_def health_fail_def checked_add_def unat_word_ariths split: health_splits)

lemma health_answer_spec:
  "health_answer token now h = (r, h1) \<Longrightarrow>
     (case r of
        Inl e \<Rightarrow> h1 = h\<lparr>ph_failure := Some e\<rparr>
      | Inr False \<Rightarrow> h1 = h
      | Inr True \<Rightarrow> ph_last_acked h < token \<and> token < ph_next_token h \<and>
          h1 = h\<lparr>ph_last_acked := token, ph_last_response := now, ph_confirmed := True\<rparr>)"
  by (cases "ph_failure h") (auto simp: health_answer_def health_fail_def split: health_splits)

section \<open>Runs\<close>

text \<open>
  A run is any sequence of the operations, each with the time the caller read and each reply with the
  token the peer put in it. Beside the state it keeps, newest first, the challenges issued and the
  tokens that earned credit, the time of the last fresh proof and the first token of the current hold.
\<close>

datatype health_op =
    OpPoll duration | OpPong u64 duration | OpCheck duration | OpRemaining duration | OpHold duration
  | OpPollHeld duration | OpPongHeld u64 duration | OpResume duration

record health_run =
  hr_health :: peer_health
  hr_issued :: "(u64 \<times> duration) list"
  hr_credited :: "u64 list"
  hr_fresh :: duration
  hr_barrier :: u64

definition health_start :: "duration \<Rightarrow> health_run" where
  "health_start now = \<lparr>hr_health = peer_health_new now, hr_issued = [], hr_credited = [], hr_fresh = now, hr_barrier = 0\<rparr>"

definition note_issue :: "duration \<Rightarrow> (health_error + u64 option) \<times> peer_health \<Rightarrow> health_run \<Rightarrow> health_run" where
  "note_issue now out run =
     (case out of
        (Inr (Some token), h) \<Rightarrow> run\<lparr>hr_health := h, hr_issued := (token, now) # hr_issued run\<rparr>
      | (_, h) \<Rightarrow> run\<lparr>hr_health := h\<rparr>)"

definition note_credit :: "u64 \<Rightarrow> duration \<Rightarrow> peer_health \<Rightarrow> health_run \<Rightarrow> health_run" where
  "note_credit token now h run =
     (if ph_last_acked h = ph_last_acked (hr_health run) then run\<lparr>hr_health := h\<rparr>
      else run\<lparr>hr_health := h, hr_credited := token # hr_credited run, hr_fresh := now\<rparr>)"

fun health_step :: "health_op \<Rightarrow> health_run \<Rightarrow> health_run" where
  "health_step (OpPoll now) run = note_issue now (health_poll now (hr_health run)) run"
| "health_step (OpPong token now) run = note_credit token now (snd (receive_pong token now (hr_health run))) run"
| "health_step (OpCheck now) run = run\<lparr>hr_health := snd (health_check now (hr_health run))\<rparr>"
| "health_step (OpRemaining now) run = run\<lparr>hr_health := snd (health_remaining now (hr_health run))\<rparr>"
| "health_step (OpHold now) run =
     (let (r, h) = health_hold now (hr_health run)
      in if is_ok r then run\<lparr>hr_health := h, hr_barrier := ph_next_token h\<rparr> else run\<lparr>hr_health := h\<rparr>)"
| "health_step (OpPollHeld now) run = note_issue now (poll_while_held now (hr_health run)) run"
| "health_step (OpPongHeld token now) run =
     note_credit token now (snd (receive_pong_while_held token now (hr_health run))) run"
| "health_step (OpResume now) run =
     (let (r, h) = health_resume now (hr_health run)
      in if is_ok r then run\<lparr>hr_health := h, hr_fresh := now\<rparr> else run\<lparr>hr_health := h\<rparr>)"

definition tokens_issued :: "health_run \<Rightarrow> u64 list" where
  "tokens_issued run = rev (map fst (hr_issued run))"

definition run_inv :: "health_run \<Rightarrow> bool" where
  "run_inv run \<longleftrightarrow>
     health_inv (hr_health run) \<and>
     map unat (tokens_issued run) = [1..<unat (ph_next_token (hr_health run))] \<and>
     (case hr_issued run of [] \<Rightarrow> ph_last_sent (hr_health run) = None
      | (_, sent) # _ \<Rightarrow> ph_last_sent (hr_health run) = Some sent) \<and>
     sorted_wrt (\<lambda>newer older. snd older + HEARTBEAT_INTERVAL \<le> snd newer) (hr_issued run) \<and>
     sorted_wrt (>) (hr_credited run) \<and>
     (\<forall>token \<in> set (hr_credited run). 0 < unat token \<and> token \<le> ph_last_acked (hr_health run)) \<and>
     hr_fresh run = ph_last_response (hr_health run) \<and>
     unat (hr_barrier run) \<le> Suc (unat (ph_last_acked (hr_health run)))"

text \<open>Every operation is the state set back with a later clock, a failure, a challenge or an answer.\<close>

lemma run_inv_clock:
  assumes "run_inv run" "ph_last_now (hr_health run) \<le> now"
  shows "run_inv (run\<lparr>hr_health := (hr_health run)\<lparr>ph_last_now := now\<rparr>\<rparr>)"
  using assms by (auto simp: run_inv_def health_inv_def tokens_issued_def split: option.splits list.splits)

lemma run_inv_fail: "run_inv run \<Longrightarrow> run_inv (run\<lparr>hr_health := (hr_health run)\<lparr>ph_failure := e\<rparr>\<rparr>)"
  by (auto simp: run_inv_def health_inv_def tokens_issued_def split: option.splits list.splits)

lemma sorted_wrt_spaced_Cons:
  assumes "sorted_wrt (\<lambda>newer older. snd older + (d :: nat) \<le> snd newer) xs" "xs \<noteq> [] \<longrightarrow> snd (hd xs) + d \<le> snd x"
  shows "sorted_wrt (\<lambda>newer older. snd older + d \<le> snd newer) (x # xs)"
  using assms by (cases xs) force+

lemma run_inv_challenge:
  assumes inv: "run_inv run" and now: "ph_last_now (hr_health run) = now"
  shows "run_inv (note_issue now (health_challenge now (hr_health run)) run)"
proof -
  obtain r h1 where out: "health_challenge now (hr_health run) = (r, h1)"
    by fastforce
  note spec = health_challenge_spec [OF out]
  consider (err) e where "r = Inl e" | (quiet) "r = Inr None" | (sent) token where "r = Inr (Some token)"
    by (metis option.exhaust sum.exhaust)
  then show ?thesis
  proof cases
    case err
    then show ?thesis using spec out run_inv_fail [OF inv] by (simp add: note_issue_def)
  next
    case quiet
    then show ?thesis using spec out inv by (simp add: note_issue_def)
  next
    case sent
    have "1 \<le> unat (ph_next_token (hr_health run))"
      using inv by (simp add: run_inv_def health_inv_def word_less_nat_alt)
    then show ?thesis
      using spec sent out inv now
      by (auto simp: run_inv_def health_inv_def note_issue_def tokens_issued_def word_less_nat_alt
               intro!: sorted_wrt_spaced_Cons simp del: sorted_wrt.simps split: list.splits)
  qed
qed

lemma run_inv_answer:
  assumes inv: "run_inv run" and now: "ph_last_now (hr_health run) = now"
  shows "run_inv (note_credit token now (snd (health_answer token now (hr_health run))) run)"
proof -
  obtain r h1 where out: "health_answer token now (hr_health run) = (r, h1)"
    by fastforce
  note spec = health_answer_spec [OF out]
  consider (err) e where "r = Inl e" | (stale) "r = Inr False" | (fresh) "r = Inr True"
    by (metis (full_types) sum.exhaust)
  then show ?thesis
  proof cases
    case err
    then show ?thesis using spec out run_inv_fail [OF inv] by (simp add: note_credit_def)
  next
    case stale
    then show ?thesis using spec out inv by (simp add: note_credit_def)
  next
    case fresh
    then show ?thesis
      using spec out inv now
      by (auto simp: run_inv_def health_inv_def note_credit_def tokens_issued_def word_less_nat_alt word_le_nat_alt
               split: list.splits)
  qed
qed

lemma run_inv_hold:
  assumes inv: "run_inv run"
  shows "run_inv (health_step (OpHold now) run)"
proof -
  have "unat (saturating_sub (ph_next_token (hr_health run)) 1) = unat (ph_next_token (hr_health run)) - 1
        \<and> ph_last_acked (hr_health run) \<le> saturating_sub (ph_next_token (hr_health run)) 1
        \<and> 0 < ph_next_token (hr_health run)"
    using inv unat_minus_one [of "ph_next_token (hr_health run)"]
    by (cases "ph_next_token (hr_health run) = 0")
       (auto simp: run_inv_def health_inv_def saturating_sub_def word_less_nat_alt word_le_nat_alt)
  then show ?thesis
    using inv
    by (auto simp: run_inv_def health_inv_def tokens_issued_def health_hold_def health_advance_def health_fail_def
                   saturating_pred_less Let_def word_less_nat_alt
             split: health_splits list.splits dest: order_trans)
qed

lemma note_issue_over: "note_issue now out (run\<lparr>hr_health := h\<rparr>) = note_issue now out run"
  by (auto simp: note_issue_def split: health_splits)

lemma note_credit_over:
  "ph_last_acked h = ph_last_acked (hr_health run) \<Longrightarrow>
     note_credit token now h1 (run\<lparr>hr_health := h\<rparr>) = note_credit token now h1 run"
  by (simp add: note_credit_def)

lemma run_inv_challenge_at:
  assumes "run_inv run" "ph_last_now (hr_health run) \<le> now"
  shows "run_inv (note_issue now (health_challenge now ((hr_health run)\<lparr>ph_last_now := now\<rparr>)) run)"
  using run_inv_challenge [OF run_inv_clock [OF assms], of now] by (simp add: note_issue_over)

lemma run_inv_answer_at:
  assumes "run_inv run" "ph_last_now (hr_health run) \<le> now"
  shows "run_inv (note_credit token now (snd (health_answer token now ((hr_health run)\<lparr>ph_last_now := now\<rparr>))) run)"
  using run_inv_answer [OF run_inv_clock [OF assms], of now token] by (simp add: note_credit_over)

lemma run_inv_clock_fail:
  assumes "run_inv run" "ph_last_now (hr_health run) \<le> now"
  shows "run_inv (run\<lparr>hr_health := (hr_health run)\<lparr>ph_last_now := now, ph_failure := e\<rparr>\<rparr>)"
  using run_inv_fail [OF run_inv_clock [OF assms], of e] by simp

lemma run_inv_checked:
  assumes "run_inv run"
  shows "run_inv (run\<lparr>hr_health := snd (health_check now (hr_health run))\<rparr>)"
proof -
  obtain r h1 where out: "health_check now (hr_health run) = (r, h1)"
    by fastforce
  show ?thesis
    using health_check_spec [OF out] out assms
    by (auto intro: run_inv_clock run_inv_fail run_inv_clock_fail split: sum.splits)
qed

lemma run_inv_advanced:
  assumes "run_inv run" "health_advance now (hr_health run) = (r, h1)"
  shows "run_inv (run\<lparr>hr_health := h1\<rparr>)"
  using health_advance_spec [OF assms(2)] assms(1) by (auto intro: run_inv_clock run_inv_fail split: sum.splits)

lemmas run_inv_moves = run_inv_clock run_inv_fail run_inv_clock_fail

lemma run_inv_poll: "run_inv run \<Longrightarrow> run_inv (health_step (OpPoll now) run)"
  by (auto simp: health_poll_def note_issue_def [of now "(Inl _, _)"] dest!: health_check_spec
           intro: run_inv_challenge_at run_inv_moves split: prod.splits sum.splits)

lemma run_inv_pong:
  assumes inv: "run_inv run"
  shows "run_inv (health_step (OpPong token now) run)"
proof -
  obtain r h1 where out: "health_check now (hr_health run) = (r, h1)"
    by fastforce
  note spec = health_check_spec [OF out]
  show ?thesis
  proof (cases r)
    case (Inl e)
    then show ?thesis using spec out run_inv_checked [OF inv, of now] by (auto simp: receive_pong_def note_credit_def)
  next
    case (Inr u)
    then show ?thesis
      using spec out run_inv_answer_at [OF inv, of now token] by (auto simp: receive_pong_def case_prod_beta)
  qed
qed

lemma run_inv_remaining: "run_inv run \<Longrightarrow> run_inv (health_step (OpRemaining now) run)"
  using run_inv_checked [of run now] by (simp add: health_remaining_def case_prod_beta)

lemma run_inv_poll_held: "run_inv run \<Longrightarrow> run_inv (health_step (OpPollHeld now) run)"
  by (auto simp: poll_while_held_def health_while_held_def note_issue_def [of now "(Inl _, _)"]
           dest!: health_advance_spec intro: run_inv_challenge_at run_inv_moves
           split: prod.splits sum.splits option.splits)

lemma run_inv_pong_held:
  assumes inv: "run_inv run"
  shows "run_inv (health_step (OpPongHeld token now) run)"
proof -
  obtain r h1 where out: "health_advance now (hr_health run) = (r, h1)"
    by fastforce
  note spec = health_advance_spec [OF out]
  show ?thesis
    using spec out inv run_inv_answer_at [OF inv, of now token]
    by (cases r; cases "ph_failure (hr_health run)")
       (auto simp: receive_pong_while_held_def health_while_held_def note_credit_def [of token now "(hr_health run)\<lparr>ph_failure := _\<rparr>"]
                   note_credit_def [of token now "hr_health run"] intro: run_inv_moves)
qed

lemma run_inv_resume: "run_inv run \<Longrightarrow> run_inv (health_step (OpResume now) run)"
  by (auto simp: health_resume_def health_while_held_def health_advance_def health_fail_def
                 run_inv_def health_inv_def tokens_issued_def
           split: health_splits list.splits)

lemma run_inv_step: "run_inv run \<Longrightarrow> run_inv (health_step op run)"
  by (cases op) (simp_all only: run_inv_poll run_inv_pong run_inv_remaining run_inv_hold run_inv_poll_held
    run_inv_pong_held run_inv_resume health_step.simps(3) run_inv_checked)

lemma run_inv_run: "run_inv (fold health_step ops (health_start t0))"
proof -
  have "run_inv run \<Longrightarrow> run_inv (fold health_step ops run)" for run
    by (induction ops arbitrary: run) (simp_all add: run_inv_step)
  moreover have "run_inv (health_start t0)"
    by (simp add: run_inv_def health_start_def health_new_inv tokens_issued_def) (simp add: peer_health_new_def)
  ultimately show ?thesis by blast
qed

lemma issued_token_iff:
  assumes "run_inv run"
  shows "token \<in> set (tokens_issued run) \<longleftrightarrow> 1 \<le> unat token \<and> token < ph_next_token (hr_health run)"
proof -
  have "unat ` set (tokens_issued run) = set [1..<unat (ph_next_token (hr_health run))]"
    using assms by (metis list.set_map run_inv_def)
  then have "unat token \<in> unat ` set (tokens_issued run) \<longleftrightarrow> 1 \<le> unat token \<and> token < ph_next_token (hr_health run)"
    by (simp add: word_less_nat_alt)
  then show ?thesis by (simp add: image_iff) (metis word_unat_eq_iff)
qed

lemma credited_were_issued: "run_inv run \<Longrightarrow> set (hr_credited run) \<subseteq> set (tokens_issued run)"
  by (auto simp: issued_token_iff) (auto simp: run_inv_def health_inv_def Suc_le_eq)

lemma remaining_bounded:
  assumes "run_inv run" "fst (health_remaining now (hr_health run)) = Inr d"
  shows "0 < d \<and> d \<le> SUPPRESSION_LEASE_CAP \<and> now + d \<le> hr_fresh run + PEER_LIVENESS"
proof -
  obtain r h1 where out: "health_check now (hr_health run) = (r, h1)"
    by fastforce
  show ?thesis
    using assms health_check_spec [OF out] out
    by (cases r) (auto simp: health_remaining_def rbind_def run_inv_def health_inv_def min_def split: if_splits)
qed

lemma held_credit_is_new:
  assumes inv: "run_inv run" and ok: "fst (receive_pong_while_held token now (hr_health run)) = Inr True"
  shows "token \<in> set (tokens_issued run) \<and> hr_barrier run \<le> token \<and> token \<notin> set (hr_credited run)"
proof -
  have "ph_last_acked (hr_health run) < token \<and> token < ph_next_token (hr_health run)"
    using ok
    by (auto simp: receive_pong_while_held_def health_while_held_def health_advance_def health_fail_def health_answer_def
             split: health_splits)
  then show ?thesis
    using inv unfolding issued_token_iff [OF inv] by (auto simp: run_inv_def word_less_nat_alt word_le_nat_alt)
qed

lemma check_exact:
  "run_inv run \<Longrightarrow> fst (health_check now (hr_health run)) = Inr () \<longleftrightarrow>
     ph_failure (hr_health run) = None \<and> ph_last_now (hr_health run) \<le> now \<and> now < hr_fresh run + PEER_LIVENESS"
  by (auto simp: health_check_def health_fail_def Let_def run_inv_def health_inv_def split: option.splits)

lemma failure_frozen_step:
  assumes "ph_failure (hr_health run) = Some e" "e \<noteq> DeadlineExpired"
  shows "hr_health (health_step op run) = hr_health run"
  using assms by (cases op) (auto simp: health_defs note_issue_def note_credit_def rbind_def)

lemma failure_frozen:
  "ph_failure (hr_health run) = Some e \<Longrightarrow> e \<noteq> DeadlineExpired \<Longrightarrow> hr_health (fold health_step ops run) = hr_health run"
  by (induction ops arbitrary: run) (simp_all add: failure_frozen_step)

text \<open>
  C9: In every run of the liveness monitor, whatever the clock readings and the replies: challenges carry
  the tokens 1, 2, 3 and so on and go out at least a heartbeat interval apart; a token earns credit at
  most once, in increasing order, and only if it was issued; the peer counts as alive exactly while no
  failure is latched, the clock has not gone back and less than the liveness time passed since the last
  fresh proof; a suppression lease is positive, at most 120 ms, and never reaches past that time; during
  a hold only a challenge issued since the hold began is credited; and a failure other than an expired
  deadline freezes the monitor for good.
\<close>

theorem liveness_rests_on_fresh_proof:
  assumes "run = fold health_step ops (health_start t0)"
  shows "map unat (tokens_issued run) = [1..<unat (ph_next_token (hr_health run))]
    \<and> sorted_wrt (\<lambda>newer older. snd older + HEARTBEAT_INTERVAL \<le> snd newer) (hr_issued run)
    \<and> sorted_wrt (>) (hr_credited run) \<and> set (hr_credited run) \<subseteq> set (tokens_issued run)
    \<and> (\<forall>now. fst (health_check now (hr_health run)) = Inr () \<longleftrightarrow>
          ph_failure (hr_health run) = None \<and> ph_last_now (hr_health run) \<le> now \<and> now < hr_fresh run + PEER_LIVENESS)
    \<and> (\<forall>now d. fst (health_remaining now (hr_health run)) = Inr d \<longrightarrow>
          0 < d \<and> d \<le> SUPPRESSION_LEASE_CAP \<and> now + d \<le> hr_fresh run + PEER_LIVENESS)
    \<and> (\<forall>token now. fst (receive_pong_while_held token now (hr_health run)) = Inr True \<longrightarrow>
          token \<in> set (tokens_issued run) \<and> hr_barrier run \<le> token \<and> token \<notin> set (hr_credited run))
    \<and> (\<forall>e later. ph_failure (hr_health run) = Some e \<longrightarrow> e \<noteq> DeadlineExpired \<longrightarrow>
          hr_health (fold health_step later run) = hr_health run)"
proof -
  have inv: "run_inv run"
    unfolding assms by (rule run_inv_run)
  show ?thesis
    using inv credited_were_issued [OF inv] check_exact [OF inv] remaining_bounded [OF inv] held_credit_is_new [OF inv]
      failure_frozen [of run]
    unfolding run_inv_def by metis
qed

text \<open>
  One challenge answered, a second left unanswered past the deadline, then a hold with a third: the second
  token is refused in the hold, the third counts.
\<close>

definition sample_health_ops :: "health_op list" where
  "sample_health_ops = [OpPoll 0, OpPong 1 (from_millis 10), OpPoll (from_millis 40), OpCheck (from_millis 600),
     OpHold (from_millis 610), OpPollHeld (from_millis 620), OpPongHeld 2 (from_millis 630)]"

lemmas health_eval = health_defs note_issue_def note_credit_def checked_add_def saturating_sub_def rbind_def
  word_le_nat_alt word_less_nat_alt

lemma sample_health_run:
  "fold health_step sample_health_ops (health_start 0) =
     \<lparr>hr_health = \<lparr>ph_last_now = from_millis 630, ph_last_response = from_millis 10, ph_last_sent = Some (from_millis 620),
        ph_next_token = 4, ph_last_acked = 2, ph_confirmed = False, ph_failure = None\<rparr>,
      hr_issued = [(3, from_millis 620), (2, from_millis 40), (1, 0)], hr_credited = [1], hr_fresh = from_millis 10,
      hr_barrier = 3\<rparr>"
  by (simp add: sample_health_ops_def health_start_def peer_health_new_def health_eval)

theorem liveness_rests_on_fresh_proof_witness:
  "let run = fold health_step sample_health_ops (health_start 0) in
     map unat (tokens_issued run) = [1, 2, 3] \<and> hr_credited run = [1] \<and> set (hr_credited run) \<subseteq> set (tokens_issued run)
     \<and> fst (receive_pong_while_held 3 (from_millis 640) (hr_health run)) = Inr True \<and> hr_barrier run = 3
     \<and> 3 \<in> set (tokens_issued run)"
proof -
  let ?run = "fold health_step sample_health_ops (health_start 0)"
  have ok: "fst (receive_pong_while_held 3 (from_millis 640) (hr_health ?run)) = Inr True"
    "hr_credited ?run = [1]" "hr_barrier ?run = 3" "map unat (tokens_issued ?run) = [1, 2, 3]"
    unfolding sample_health_run by (simp_all add: tokens_issued_def receive_pong_while_held_def health_while_held_def
      health_advance_def health_answer_def)
  have "3 \<in> set (tokens_issued ?run)" "set (hr_credited ?run) \<subseteq> set (tokens_issued ?run)"
    using liveness_rests_on_fresh_proof [of ?run sample_health_ops 0] ok(1) by blast+
  with ok show ?thesis by (simp add: Let_def)
qed

end
