(* ===== verification/Input_Receiver.thy ===== *)
theory Input_Receiver
  imports Handlers Peer_Health Take_Back Session_Gates Control_As_Command Latches
begin

section \<open>The receiving half of a session: \<open>monhop-transport/src/session_receiver.rs\<close>\<close>

text \<open>
  \<open>InputReceiver\<close> admits the frames of the paired source and turns them into actions of the native
  destination. It joins the peer health, the sequence gates, the rate limiter, the floor and its
  take-back gate, the display topology, the keyboard translator and the gesture phases.

  The destination is a trait of the source: what it answers is the argument \<open>env_answer\<close>, any function
  of the actions applied so far and the new one, and the state keeps those actions, newest first. The
  capture callback may change the floor between a snapshot and the swap of the two retry loops:
  \<open>env_races\<close> lists what it does before each attempt, and a loop that runs out of it has not returned.
  A floor word the floor never writes makes \<open>FloorState::from_code\<close> panic; \<open>the\<close> leaves that open.
\<close>

datatype destination_action =
    MoveTo point
  | DestKey hid_usage bool
  | DestButton mouse_button bool u8
  | DestScroll f64 f64
  | DestGesture pointer_gesture
  | DestSystem system_gesture
  | EndGestures
  | DestReleaseAll

fun is_release :: "destination_action \<Rightarrow> bool" where
  "is_release EndGestures = True"
| "is_release DestReleaseAll = True"
| "is_release _ = False"

datatype receiver_failure =
    RfHealth health_error | RfInvalidEpoch | RfInvalidSequence | RfRateLimited | RfWrongDisplay
  | RfInvalidPoint | RfNotActive | RfInvalidPressedState | RfUnexpectedMessage | RfNativeDelivery
  | RfPeerStopped | RfInvalidGesture

type_synonym applied = "(destination_action \<times> bool) list"

record receiver_env =
  env_answer :: "applied \<Rightarrow> destination_action \<Rightarrow> bool"
  env_races :: "(u64 \<Rightarrow> u64) list"

record 'k input_receiver =
  rc_gate :: "'k take_back_gate"
  rc_floor_generation :: "u64 option"
  rc_slot :: floor_peer
  rc_shared :: bool
  rc_local_lower :: bool
  rc_enabled :: bool
  rc_yielding :: bool
  rc_displays :: display_topology
  rc_epoch :: session_epoch
  rc_sequences :: sequence_gate
  rc_control_epoch :: session_epoch
  rc_control_sequences :: sequence_gate
  rc_limiter :: rate_limiter
  rc_health :: peer_health
  rc_active :: "(display_id \<times> point) option"
  rc_pending_move :: "point option"
  rc_keys :: "bool list"
  rc_buttons :: "bool list"
  rc_failure :: "receiver_failure option"
  rc_cleanup_pending :: bool
  rc_held_since :: "duration option"
  rc_holds :: u32
  rc_held_max :: duration
  rc_open_gestures :: "bool list"
  rc_gesture_seen :: duration
  rc_gesture_normalizations :: u32
  rc_local_platform :: "platform option"
  rc_source_platform :: "platform option"
  rc_control_as_command :: bool
  rc_keyboard :: translator

type_synonym ('k, 'a) receiver = "('k input_receiver \<times> applied, receiver_failure, 'a) handler"

subsection \<open>Construction\<close>

definition receiver_new :: "platform \<Rightarrow> display_topology \<Rightarrow> session_epoch \<Rightarrow> duration \<Rightarrow> 'k input_receiver" where
  "receiver_new this_platform displays epoch now =
     \<lparr>rc_gate = gate_new floor_new, rc_floor_generation = None, rc_slot = FLOOR_SOLE, rc_shared = False,
      rc_local_lower = False, rc_enabled = True, rc_yielding = False, rc_displays = displays, rc_epoch = epoch,
      rc_sequences = snd (activate_epoch epoch sequence_gate_default), rc_control_epoch = epoch,
      rc_control_sequences = snd (activate_epoch epoch sequence_gate_default),
      rc_limiter = projr (rate_limiter_new 20000), rc_health = peer_health_new now, rc_active = None,
      rc_pending_move = None, rc_keys = replicate 256 False, rc_buttons = replicate 5 False, rc_failure = None,
      rc_cleanup_pending = False, rc_held_since = None, rc_holds = 0, rc_held_max = 0,
      rc_open_gestures = [False, False], rc_gesture_seen = now, rc_gesture_normalizations = 0,
      rc_local_platform = Some this_platform, rc_source_platform = None, rc_control_as_command = False,
      rc_keyboard = translator_default\<rparr>"

definition keyboard_from :: "platform option \<Rightarrow> 'k input_receiver \<Rightarrow> 'k input_receiver" where
  "keyboard_from platform r = r\<lparr>rc_source_platform := platform\<rparr>"

definition with_floor :: "'k take_back_gate \<Rightarrow> bool \<Rightarrow> bool \<Rightarrow> 'k input_receiver \<Rightarrow> 'k input_receiver" where
  "with_floor gate local_lower enabled r = r\<lparr>rc_gate := gate, rc_local_lower := local_lower, rc_enabled := enabled\<rparr>"

definition receiver_shared :: "floor_peer \<Rightarrow> 'k input_receiver \<Rightarrow> 'k input_receiver" where
  "receiver_shared slot r = r\<lparr>rc_slot := slot, rc_shared := True\<rparr>"

subsection \<open>The floor\<close>

definition gate_snapshot :: "'k take_back_gate \<Rightarrow> floor_snapshot" where
  "gate_snapshot g = the (floor_unpack (tb_floor g))"

definition is_inbound_claim :: "floor_snapshot \<Rightarrow> u64 \<Rightarrow> bool" where
  "is_inbound_claim fl generation =
     (case fl_state fl of
        Receiving \<Rightarrow> fl_generation fl = generation
      | Yielding \<Rightarrow> fl_generation fl = generation \<or> checked_add generation 1 = Some (fl_generation fl)
      | _ \<Rightarrow> False)"

fun release_inbound :: "(u64 \<Rightarrow> u64) list \<Rightarrow> u64 \<Rightarrow> floor_snapshot \<Rightarrow> u64 \<Rightarrow> unit option \<times> u64" where
  "release_inbound races generation current w =
     (if \<not> is_inbound_claim current generation then (Some (), w)
      else case races of
          [] \<Rightarrow> (None, w)
        | others # rest \<Rightarrow>
            (case floor_transition current Free (others w) of
               (Some (Inr _), w1) \<Rightarrow> (Some (), w1)
             | (Some (Inl changed), w1) \<Rightarrow> release_inbound rest generation changed w1
             | (None, w1) \<Rightarrow> (None, w1)))"

definition holds_floor :: "'k input_receiver \<Rightarrow> floor_snapshot \<Rightarrow> bool" where
  "holds_floor r fl =
     (case rc_floor_generation r of
        None \<Rightarrow> False
      | Some generation \<Rightarrow> \<not> rc_shared r \<or> fl_peer fl = rc_slot r \<and> is_inbound_claim fl generation)"

definition suppress_injection :: "'k input_receiver \<Rightarrow> bool" where
  "suppress_injection r =
     (rc_yielding r \<or>
      (let fl = gate_snapshot (rc_gate r) in fl_state fl = Yielding \<or> rc_shared r \<and> \<not> holds_floor r fl))"

definition owns_native :: "'k input_receiver \<Rightarrow> bool" where
  "owns_native r = (\<not> rc_shared r \<or> holds_floor r (gate_snapshot (rc_gate r)))"

definition may_release :: "'k input_receiver \<Rightarrow> bool" where
  "may_release r =
     (let fl = gate_snapshot (rc_gate r)
      in \<not> rc_shared r \<or> holds_floor r fl \<or> floor_state_owner (fl_state fl) \<noteq> Some Inbound)"

text \<open>What the floor seen answers without a claim; \<open>None\<close> goes on to claim it.\<close>

definition admit_decision :: "'k input_receiver \<Rightarrow> floor_snapshot \<Rightarrow> (decline_reason + unit) option" where
  "admit_decision r fl =
     (case fl_state fl of
        Free \<Rightarrow> None
      | Requesting \<Rightarrow>
          if rc_shared r \<and> fl_peer fl \<noteq> rc_slot r then Some (Inl Busy)
          else if \<not> rc_local_lower r then None
          else Some (Inl Contended)
      | Sending \<Rightarrow> Some (Inl Busy)
      | Returning \<Rightarrow> Some (Inl Busy)
      | _ \<Rightarrow> if holds_floor r fl then Some (Inr ()) else Some (Inl Busy))"

definition claim_inbound :: "'k input_receiver \<Rightarrow> floor_snapshot \<Rightarrow> u64 \<Rightarrow> floor_answer \<times> u64" where
  "claim_inbound r fl w =
     (if rc_shared r then floor_claim fl Receiving (rc_slot r) w else floor_transition fl Receiving w)"

fun admit_loop :: "(u64 \<Rightarrow> u64) list \<Rightarrow> 'k input_receiver \<Rightarrow> (decline_reason + unit) option \<times> 'k input_receiver" where
  "admit_loop races r =
     (let fl = gate_snapshot (rc_gate r) in
      case admit_decision r fl of
        Some answer \<Rightarrow> (Some answer, r)
      | None \<Rightarrow>
          (case races of
             [] \<Rightarrow> (None, r)
           | others # rest \<Rightarrow>
               (let (claimed, w) = claim_inbound r fl (others (tb_floor (rc_gate r)));
                    r1 = r\<lparr>rc_gate := (rc_gate r)\<lparr>tb_floor := w\<rparr>\<rparr>
                in case claimed of
                     None \<Rightarrow> (None, r1)
                   | Some (Inr receiving) \<Rightarrow>
                       (Some (Inr ()), r1\<lparr>rc_floor_generation := Some (fl_generation receiving),
                          rc_gate := open_injection (fl_generation receiving) (rc_gate r1)\<rparr>)
                   | Some (Inl current) \<Rightarrow>
                       if rc_shared r \<and> current = fl then (Some (Inl Busy), r1) else admit_loop rest r1)))"

declare release_inbound.simps [simp del] admit_loop.simps [simp del]

definition rc_upd :: "('k input_receiver \<Rightarrow> 'k input_receiver) \<Rightarrow> ('k, unit) receiver" where
  "rc_upd g = h_upd (\<lambda>(r, d). (g r, d))"

definition rc_get :: "('k, 'k input_receiver) receiver" where
  "rc_get = h_bind h_get (\<lambda>s. h_ok (fst s))"

definition admit_activation :: "receiver_env \<Rightarrow> ('k, decline_reason + unit) receiver" where
  "admit_activation env = (\<lambda>(r, d).
     if \<not> rc_enabled r then (Some (Inr (Inl Disabled)), (r, d))
     else case admit_loop (env_races env) r of
         (None, r1) \<Rightarrow> (None, (r1, d))
       | (Some answer, r1) \<Rightarrow> (Some (Inr answer), (r1, d)))"

definition release_floor :: "receiver_env \<Rightarrow> ('k, unit) receiver" where
  "release_floor env = (\<lambda>(r, d).
     case rc_floor_generation r of
       None \<Rightarrow> (Some (Inr ()), (r\<lparr>rc_yielding := False\<rparr>, d))
     | Some generation \<Rightarrow>
         (case release_inbound (env_races env) generation (gate_snapshot (rc_gate r)) (tb_floor (rc_gate r)) of
            (None, w) \<Rightarrow> (None, (r\<lparr>rc_floor_generation := None, rc_gate := (rc_gate r)\<lparr>tb_floor := w\<rparr>\<rparr>, d))
          | (Some _, w) \<Rightarrow>
              (Some (Inr ()), (r\<lparr>rc_floor_generation := None, rc_gate := (rc_gate r)\<lparr>tb_floor := w\<rparr>,
                 rc_yielding := False\<rparr>, d))))"

subsection \<open>The destination\<close>

definition dest_apply :: "receiver_env \<Rightarrow> destination_action \<Rightarrow> ('k, bool) receiver" where
  "dest_apply env a = (\<lambda>(r, d). (Some (Inr (env_answer env d a)), (r, (a, env_answer env d a) # d)))"

definition deliver :: "receiver_env \<Rightarrow> destination_action \<Rightarrow> ('k, unit) receiver" where
  "deliver env a = h_bind (dest_apply env a) (\<lambda>ok. if ok then h_ok () else h_err RfNativeDelivery)"

fun deliver_keys :: "receiver_env \<Rightarrow> key_plan \<Rightarrow> ('k, unit) receiver" where
  "deliver_keys env [] = h_ok ()"
| "deliver_keys env (step # plan) =
     h_seq (deliver env (DestKey (step_usage step) (step_pressed step))) (deliver_keys env plan)"

definition release_injected :: "receiver_env \<Rightarrow> ('k, bool) receiver" where
  "release_injected env =
     h_seq (rc_upd (\<lambda>r. r\<lparr>rc_open_gestures := [False, False], rc_keyboard := translator_clear (rc_keyboard r)\<rparr>))
     (h_bind (dest_apply env EndGestures) (\<lambda>ended.
      h_bind (dest_apply env DestReleaseAll) (\<lambda>released.
      h_ok (released \<and> ended))))"

definition retry_cleanup :: "receiver_env \<Rightarrow> ('k, unit) receiver" where
  "retry_cleanup env =
     h_bind rc_get (\<lambda>r.
       if \<not> rc_cleanup_pending r then h_ok ()
       else h_bind (if may_release r then release_injected env else h_ok True) (\<lambda>released.
         if \<not> released then h_ok ()
         else h_seq (rc_upd (\<lambda>r1. r1\<lparr>rc_open_gestures := [False, False], rc_keys := replicate 256 False,
                      rc_keyboard := translator_clear (rc_keyboard r1), rc_buttons := replicate 5 False,
                      rc_cleanup_pending := False\<rparr>))
              (h_seq (h_when (may_release r) (rc_upd (\<lambda>r1. r1\<lparr>rc_gate := note_injected_released (rc_gate r1)\<rparr>)))
                 (release_floor env))))"

definition close_native :: "('k, unit) receiver" where
  "close_native =
     h_bind rc_get (\<lambda>r.
       h_seq (h_when (owns_native r) (rc_upd (\<lambda>r1. r1\<lparr>rc_gate := open_injection CLOSED (rc_gate r1)\<rparr>)))
         (rc_upd (\<lambda>r1. r1\<lparr>rc_active := None, rc_pending_move := None, rc_cleanup_pending := True\<rparr>)))"

definition receiver_stop :: "receiver_env \<Rightarrow> receiver_failure \<Rightarrow> ('k, receiver_failure) receiver" where
  "receiver_stop env failure =
     h_bind rc_get (\<lambda>r.
       let first = (case rc_failure r of Some f \<Rightarrow> f | None \<Rightarrow> failure) in
       h_seq (rc_upd (\<lambda>r1. r1\<lparr>rc_failure := Some first\<rparr>))
         (h_seq close_native (h_seq (retry_cleanup env) (h_ok first))))"

definition stop_err :: "receiver_env \<Rightarrow> receiver_failure \<Rightarrow> ('k, 'a) receiver" where
  "stop_err env failure = h_bind (receiver_stop env failure) h_err"

definition yield_to_local :: "receiver_env \<Rightarrow> u64 \<Rightarrow> ('k, message option) receiver" where
  "yield_to_local env generation =
     h_bind rc_get (\<lambda>r.
       let fl = gate_snapshot (rc_gate r) in
       if \<not> holds_floor r fl \<or> fl_state fl \<noteq> Yielding \<or> fl_generation fl \<noteq> generation then h_ok None
       else h_seq (rc_upd (\<lambda>r1. r1\<lparr>rc_floor_generation := Some generation, rc_yielding := True, rc_pending_move := None\<rparr>))
         (h_bind (release_injected env) (\<lambda>released.
            if \<not> released then stop_err env RfNativeDelivery
            else h_seq (rc_upd (\<lambda>r1. r1\<lparr>rc_gate := note_injected_released (rc_gate r1)\<rparr>)) (h_ok (Some MsgTakeBack)))))"

definition receiver_take_back :: "receiver_env \<Rightarrow> ('k, message option) receiver" where
  "receiver_take_back env =
     h_bind rc_get (\<lambda>r.
       if rc_shared r then h_ok None
       else h_seq (rc_upd (\<lambda>r1. r1\<lparr>rc_gate := snd (take_triggered (rc_gate r1))\<rparr>))
         (case fst (take_triggered (rc_gate r)) of None \<Rightarrow> h_ok None | Some generation \<Rightarrow> yield_to_local env generation))"

subsection \<open>Motion, time and health\<close>

definition apply_pending_move :: "receiver_env \<Rightarrow> ('k, unit) receiver" where
  "apply_pending_move env =
     h_seq (rc_upd (\<lambda>r. if suppress_injection r then r\<lparr>rc_pending_move := None\<rparr> else r))
     (h_bind rc_get (\<lambda>r. case rc_pending_move r of
         None \<Rightarrow> h_ok ()
       | Some p \<Rightarrow> h_seq (deliver env (MoveTo p)) (rc_upd (\<lambda>r1. r1\<lparr>rc_pending_move := None\<rparr>))))"

definition receiver_flush :: "receiver_env \<Rightarrow> ('k, unit) receiver" where
  "receiver_flush env =
     h_bind rc_get (\<lambda>r. case rc_failure r of
         Some f \<Rightarrow> h_err f
       | None \<Rightarrow> h_catch (apply_pending_move env) (stop_err env))"

definition with_health ::
    "(peer_health \<Rightarrow> (health_error + 'a) \<times> peer_health) \<Rightarrow> ('k, health_error + 'a) receiver" where
  "with_health f =
     h_bind rc_get (\<lambda>r. h_seq (rc_upd (\<lambda>r1. r1\<lparr>rc_health := snd (f (rc_health r1))\<rparr>)) (h_ok (fst (f (rc_health r)))))"

definition or_health :: "health_error + 'a \<Rightarrow> ('k, 'a) receiver" where
  "or_health res = h_lift (map_err RfHealth res)"

definition receiver_hold :: "receiver_env \<Rightarrow> duration \<Rightarrow> ('k, unit) receiver" where
  "receiver_hold env now =
     h_seq close_native
     (h_seq (retry_cleanup env)
     (h_bind (with_health (health_hold now)) (\<lambda>res. case res of
         Inl e \<Rightarrow> stop_err env (RfHealth e)
       | Inr _ \<Rightarrow> rc_upd (\<lambda>r. r\<lparr>rc_held_since := Some now, rc_holds := saturating_add (rc_holds r) 1\<rparr>))))"

definition receiver_resume :: "duration \<Rightarrow> ('k, unit) receiver" where
  "receiver_resume now =
     h_seq (rc_upd (\<lambda>r. case rc_held_since r of
         None \<Rightarrow> r
       | Some since \<Rightarrow> r\<lparr>rc_held_since := None, rc_held_max := max (rc_held_max r) (now - since)\<rparr>))
     (h_bind (with_health (health_resume now)) or_health)"

definition end_idle_gestures :: "receiver_env \<Rightarrow> duration \<Rightarrow> ('k, unit) receiver" where
  "end_idle_gestures env now =
     h_bind rc_get (\<lambda>r.
       h_when (True \<in> set (rc_open_gestures r) \<and> TOUCH_STREAM_IDLE \<le> now - rc_gesture_seen r)
         (h_seq (rc_upd (\<lambda>r1. r1\<lparr>rc_open_gestures := [False, False]\<rparr>))
            (h_when (may_release r) (h_catch (deliver env EndGestures) (stop_err env)))))"

definition receiver_tick :: "receiver_env \<Rightarrow> duration \<Rightarrow> ('k, message option) receiver" where
  "receiver_tick env now =
     h_bind rc_get (\<lambda>r. case rc_failure r of
         Some f \<Rightarrow> h_seq (retry_cleanup env) (h_err f)
       | None \<Rightarrow> (case rc_held_since r of
           Some since \<Rightarrow>
             if HOLD_LIMIT \<le> now - since then stop_err env (RfHealth DeadlineExpired)
             else h_seq (retry_cleanup env) (h_bind (with_health (poll_while_held now)) (\<lambda>res. case res of
                 Inr token \<Rightarrow> h_ok (map_option MsgPing token)
               | Inl e \<Rightarrow> stop_err env (RfHealth e)))
         | None \<Rightarrow>
             h_seq (end_idle_gestures env now) (h_bind (with_health (health_poll now)) (\<lambda>res. case res of
                 Inr token \<Rightarrow> h_ok (map_option MsgPing token)
               | Inl e \<Rightarrow> if e = DeadlineExpired then h_seq (receiver_hold env now) (h_ok None)
                          else stop_err env (RfHealth e)))))"

subsection \<open>Gestures, keys and points\<close>

fun unchanged_at :: "pointer_gesture \<Rightarrow> gesture_phase \<Rightarrow> pointer_gesture" where
  "unchanged_at (Magnify _ _) phase = Magnify phase f64_zero"
| "unchanged_at (Rotate _ _) phase = Rotate phase f64_zero"
| "unchanged_at discrete _ = discrete"

fun gesture_slot :: "pointer_gesture \<Rightarrow> (nat \<times> gesture_phase) option" where
  "gesture_slot (Magnify phase _) = Some (0, phase)"
| "gesture_slot (Rotate phase _) = Some (1, phase)"
| "gesture_slot _ = None"

definition gesture_repair :: "bool \<Rightarrow> gesture_phase \<Rightarrow> gesture_phase option" where
  "gesture_repair opened phase =
     (if phase = Began \<and> opened then Some Ended else if phase = Changed \<and> \<not> opened then Some Began else None)"

definition note_normalization :: "('k, unit) receiver" where
  "note_normalization =
     rc_upd (\<lambda>r. r\<lparr>rc_gesture_normalizations := saturating_add (rc_gesture_normalizations r) 1\<rparr>)"

definition apply_gesture :: "receiver_env \<Rightarrow> pointer_gesture \<Rightarrow> ('k, unit) receiver" where
  "apply_gesture env gesture =
     (case gesture_slot gesture of
        None \<Rightarrow> deliver env (DestGesture gesture)
      | Some (slot, phase) \<Rightarrow>
          h_bind rc_get (\<lambda>r.
            if gesture_phase_is_terminal phase \<and> \<not> rc_open_gestures r ! slot then note_normalization
            else h_seq (case gesture_repair (rc_open_gestures r ! slot) phase of
                          None \<Rightarrow> h_ok ()
                        | Some boundary \<Rightarrow>
                            h_seq note_normalization (deliver env (DestGesture (unchanged_at gesture boundary))))
                 (h_seq (rc_upd (\<lambda>r1. r1\<lparr>rc_open_gestures :=
                            (rc_open_gestures r1)[slot := \<not> gesture_phase_is_terminal phase]\<rparr>))
                    (deliver env (DestGesture gesture)))))"

definition translation :: "'k input_receiver \<Rightarrow> direction option" where
  "translation r =
     (if \<not> rc_control_as_command r then None else direction_between (rc_source_platform r) (rc_local_platform r))"

definition require_active :: "('k, display_id \<times> point) receiver" where
  "require_active = h_bind rc_get (\<lambda>r. h_lift (ok_or RfNotActive (rc_active r)))"

definition receiver_modifiers :: "'k input_receiver \<Rightarrow> modifier_state" where
  "receiver_modifiers r = fold (\<lambda>i mask. if rc_keys r ! (0xE0 + i) then mask OR push_bit i 1 else mask) [0..<8] 0"

definition check_point :: "display_topology \<Rightarrow> display_id \<Rightarrow> point \<Rightarrow> receiver_failure + unit" where
  "check_point displays i p =
     rbind (ok_or RfWrongDisplay (List.find (\<lambda>d. dd_id d = i) displays)) (\<lambda>display.
       if rect_contains_half_open (logical_bounds display) p then Inr () else Inl RfInvalidPoint)"

subsection \<open>Frames\<close>

definition with_sequences ::
    "(sequence_gate \<Rightarrow> (sequence_gate_error + unit) \<times> sequence_gate) \<Rightarrow> ('k, sequence_gate_error + unit) receiver" where
  "with_sequences f =
     h_bind rc_get (\<lambda>r. h_seq (rc_upd (\<lambda>r1. r1\<lparr>rc_sequences := snd (f (rc_sequences r1))\<rparr>)) (h_ok (fst (f (rc_sequences r)))))"

definition receive_heartbeat :: "bool \<Rightarrow> frame \<Rightarrow> duration \<Rightarrow> ('k, message option) receiver" where
  "receive_heartbeat held f now =
     h_bind rc_get (\<lambda>r.
       h_seq (rc_upd (\<lambda>r1. r1\<lparr>rc_control_sequences := snd (gate_accept_heartbeat f (rc_control_sequences r1))\<rparr>))
         (if \<not> is_ok (fst (gate_accept_heartbeat f (rc_control_sequences r))) then h_ok None
          else case fr_message f of
              MsgPing token \<Rightarrow> h_ok (if held then None else Some (MsgPong token))
            | MsgPong token \<Rightarrow>
                if held then h_bind (with_health (receive_pong_while_held token now)) (\<lambda>res.
                    h_bind (or_health res) (\<lambda>_. h_ok None))
                else h_bind (with_health (receive_pong token now)) (\<lambda>res. h_bind (or_health res) (\<lambda>_. h_ok None))
            | _ \<Rightarrow> (\<lambda>s. (None, s))))"

definition receive_activation ::
    "receiver_env \<Rightarrow> bool \<Rightarrow> frame \<Rightarrow> display_id \<Rightarrow> point \<Rightarrow> bool \<Rightarrow> ('k, message option) receiver" where
  "receive_activation env held f display position control_as_command =
     h_bind rc_get (\<lambda>r.
       if checked_add (rc_epoch r) 1 \<noteq> Some (fr_epoch f) then h_err RfInvalidEpoch
       else h_seq (h_lift (check_point (rc_displays r) display position))
        (h_bind (with_sequences (activate_epoch (fr_epoch f))) (\<lambda>activated.
         h_seq (h_lift (map_err (\<lambda>_. RfInvalidEpoch) activated))
        (h_bind (with_sequences (gate_accept f)) (\<lambda>accepted.
         h_seq (h_lift (map_err (\<lambda>_. RfInvalidSequence) accepted))
        (h_seq (rc_upd (\<lambda>r1. r1\<lparr>rc_control_as_command := control_as_command, rc_epoch := fr_epoch f\<rparr>))
        (if held then h_ok None
         else h_bind (admit_activation env) (\<lambda>admitted. case admitted of
            Inl reason \<Rightarrow> h_ok (Some (MsgActivationDeclined display reason))
          | Inr _ \<Rightarrow>
              h_seq (rc_upd (\<lambda>r1. r1\<lparr>rc_pending_move := None\<rparr>))
             (h_seq (h_bind rc_get (\<lambda>r1. h_when (\<not> suppress_injection r1) (deliver env (MoveTo position))))
             (h_seq (rc_upd (\<lambda>r1. r1\<lparr>rc_active := Some (display, position)\<rparr>))
             (h_ok (Some (MsgActivationAck display)))))))))))))"

definition receive_release :: "receiver_env \<Rightarrow> bool \<Rightarrow> duration \<Rightarrow> ('k, message option) receiver" where
  "receive_release env held now =
     h_bind rc_get (\<lambda>r.
       h_seq (h_when (owns_native r \<and> rc_floor_generation r \<noteq> None)
                (rc_upd (\<lambda>r1. r1\<lparr>rc_gate := open_injection CLOSED (rc_gate r1)\<rparr>)))
      (h_seq (if may_release r
              then h_bind (release_injected env) (\<lambda>released.
                     if released then rc_upd (\<lambda>r1. r1\<lparr>rc_gate := note_injected_released (rc_gate r1)\<rparr>)
                     else h_err RfNativeDelivery)
              else rc_upd (\<lambda>r1. r1\<lparr>rc_open_gestures := [False, False]\<rparr>))
      (h_seq (release_floor env)
      (h_seq (rc_upd (\<lambda>r1. r1\<lparr>rc_keys := replicate 256 False, rc_keyboard := translator_clear (rc_keyboard r1),
                rc_buttons := replicate 5 False, rc_active := None, rc_pending_move := None\<rparr>))
      (h_seq (h_when held (h_seq (rc_upd (\<lambda>r1. r1\<lparr>rc_cleanup_pending := False\<rparr>)) (receiver_resume now)))
      (h_ok (Some MsgReleaseAck)))))))"

definition inject_unless_suppressed :: "('k, unit) receiver \<Rightarrow> ('k, message option) receiver" where
  "inject_unless_suppressed m =
     h_seq (h_bind rc_get (\<lambda>r. h_when (\<not> suppress_injection r) m)) (h_ok None)"

definition receive_key :: "receiver_env \<Rightarrow> key_event \<Rightarrow> ('k, message option) receiver" where
  "receive_key env key =
     h_bind require_active (\<lambda>_. h_bind rc_get (\<lambda>r.
       let index = unat (key_usage key) in
       if \<not> hid_is_valid (key_usage key) then h_err RfInvalidPressedState
       else if key_is_down key \<and> key_repeat key \<noteq> rc_keys r ! index
             \<or> \<not> key_is_down key \<and> (\<not> rc_keys r ! index \<or> key_repeat key) then h_err RfInvalidPressedState
       else h_seq (rc_upd (\<lambda>r1. r1\<lparr>rc_keys := (rc_keys r1)[index := key_is_down key]\<rparr>))
        (h_bind rc_get (\<lambda>r1.
           if receiver_modifiers r1 \<noteq> key_modifiers key then h_err RfInvalidPressedState
           else inject_unless_suppressed
             (let (plan, tr) = translator_key (key_usage key) (key_is_down key) (translation r1) (rc_keyboard r1)
              in h_seq (rc_upd (\<lambda>r2. r2\<lparr>rc_keyboard := tr\<rparr>)) (deliver_keys env plan))))))"

definition receive_button :: "receiver_env \<Rightarrow> button_event \<Rightarrow> ('k, message option) receiver" where
  "receive_button env b =
     h_bind require_active (\<lambda>_. h_bind rc_get (\<lambda>r.
       let index = button_index (btn_button b) in
       if rc_buttons r ! index = btn_is_down b then h_err RfInvalidPressedState
       else h_seq (h_when (\<not> suppress_injection r)
              (h_seq (h_when (btn_is_down b)
                 (let (plan, tr) = translator_click (translation r) (rc_keyboard r)
                  in h_seq (rc_upd (\<lambda>r1. r1\<lparr>rc_keyboard := tr\<rparr>)) (deliver_keys env plan)))
                (deliver env (DestButton (btn_button b) (btn_is_down b) (btn_click_count b)))))
           (h_seq (rc_upd (\<lambda>r1. r1\<lparr>rc_buttons := (rc_buttons r1)[index := btn_is_down b]\<rparr>)) (h_ok None))))"

abbreviation (input) MAX_SCROLL :: f64 where "MAX_SCROLL \<equiv> f64_of_int 1000000"

definition receive_scroll :: "receiver_env \<Rightarrow> scroll \<Rightarrow> ('k, message option) receiver" where
  "receive_scroll env sc =
     h_bind require_active (\<lambda>_.
       if \<not> f64_is_finite (scroll_horizontal sc) \<or> \<not> f64_is_finite (scroll_vertical sc)
          \<or> f64_lt MAX_SCROLL (f64_abs (scroll_horizontal sc)) \<or> f64_lt MAX_SCROLL (f64_abs (scroll_vertical sc))
       then h_err RfInvalidPoint
       else inject_unless_suppressed (deliver env (DestScroll (scroll_horizontal sc) (scroll_vertical sc))))"

definition receive_gesture :: "receiver_env \<Rightarrow> duration \<Rightarrow> pointer_gesture \<Rightarrow> ('k, message option) receiver" where
  "receive_gesture env now g =
     h_bind require_active (\<lambda>_.
       h_seq (h_lift (map_err (\<lambda>_. RfInvalidGesture) (gesture_validate g)))
      (h_seq (rc_upd (\<lambda>r. r\<lparr>rc_gesture_seen := now\<rparr>))
      (inject_unless_suppressed (apply_gesture env g))))"

definition receive_motion :: "motion \<Rightarrow> ('k, message option) receiver" where
  "receive_motion motion =
     h_bind require_active (\<lambda>(display, previous). h_bind rc_get (\<lambda>r.
       let point = (case motion of
             Absolute position \<Rightarrow> position
           | Relative delta \<Rightarrow> \<lparr>pt_x = f64_add (pt_x previous) (pt_x delta), pt_y = f64_add (pt_y previous) (pt_y delta)\<rparr>) in
       h_seq (h_lift (check_point (rc_displays r) display point))
      (h_seq (rc_upd (\<lambda>r1. r1\<lparr>rc_pending_move := Some point, rc_active := Some (display, point)\<rparr>))
      (h_ok None))))"

definition receive_message :: "receiver_env \<Rightarrow> bool \<Rightarrow> duration \<Rightarrow> message \<Rightarrow> ('k, message option) receiver" where
  "receive_message env held now m =
     (case m of
        MsgReleaseAll \<Rightarrow> receive_release env held now
      | MsgDisconnect _ \<Rightarrow> h_err RfPeerStopped
      | MsgError _ \<Rightarrow> h_err RfPeerStopped
      | MsgKey key \<Rightarrow> if held then h_ok None else receive_key env key
      | MsgButton b \<Rightarrow> if held then h_ok None else receive_button env b
      | MsgScroll sc \<Rightarrow> if held then h_ok None else receive_scroll env sc
      | MsgMotion motion \<Rightarrow> if held then h_ok None else receive_motion motion
      | MsgGesture g \<Rightarrow> if held then h_ok None else receive_gesture env now g
      | MsgSystemGesture g \<Rightarrow>
          if held then h_ok None
          else h_bind require_active (\<lambda>_. inject_unless_suppressed (deliver env (DestSystem g)))
      | _ \<Rightarrow> h_err RfUnexpectedMessage)"

definition is_motion :: "message \<Rightarrow> bool" where
  "is_motion m = (case m of MsgMotion _ \<Rightarrow> True | _ \<Rightarrow> False)"

definition receive_sequenced :: "receiver_env \<Rightarrow> bool \<Rightarrow> frame \<Rightarrow> duration \<Rightarrow> ('k, message option) receiver" where
  "receive_sequenced env held f now =
     h_bind rc_get (\<lambda>r.
       let datagram = (frame_delivery f = MotionDatagram) in
       if fr_epoch f \<noteq> rc_epoch r then (if datagram \<and> fr_epoch f < rc_epoch r then h_ok None else h_err RfInvalidEpoch)
       else h_bind (with_sequences (gate_accept f)) (\<lambda>accepted. case accepted of
           Inl e \<Rightarrow> if datagram \<and> e = StaleOrReplay then h_ok None else h_err RfInvalidSequence
         | Inr _ \<Rightarrow>
             h_seq (h_when (\<not> held \<and> \<not> is_motion (fr_message f)) (apply_pending_move env))
               (receive_message env held now (fr_message f))))"

definition millis_u64 :: "duration \<Rightarrow> u64" where
  "millis_u64 d = of_nat (min (d div 1000000) (unat (- 1 :: u64)))"

definition receive_frame :: "receiver_env \<Rightarrow> bool \<Rightarrow> frame \<Rightarrow> duration \<Rightarrow> ('k, message option) receiver" where
  "receive_frame env held f now =
     h_bind rc_get (\<lambda>r.
       h_seq (rc_upd (\<lambda>r1. r1\<lparr>rc_limiter := snd (allow_at (millis_u64 now) (rc_limiter r1))\<rparr>))
         (if \<not> is_ok (fst (allow_at (millis_u64 now) (rc_limiter r))) then h_err RfRateLimited
          else if is_heartbeat (fr_message f) then receive_heartbeat held f now
          else case fr_message f of
              MsgActivateDisplayAt display position control_as_command \<Rightarrow>
                receive_activation env held f display position control_as_command
            | _ \<Rightarrow> receive_sequenced env held f now))"

definition receive_active :: "receiver_env \<Rightarrow> frame \<Rightarrow> duration \<Rightarrow> ('k, message option) receiver" where
  "receive_active env f now =
     h_bind rc_get (\<lambda>r.
       if rc_held_since r \<noteq> None then receive_frame env True f now
       else h_bind (with_health (health_check now)) (\<lambda>res. case res of
           Inr _ \<Rightarrow> receive_frame env False f now
         | Inl e \<Rightarrow>
             if e \<noteq> DeadlineExpired then h_err (RfHealth e)
             else h_seq (receiver_hold env now) (receive_frame env True f now)))"

definition receiver_receive :: "receiver_env \<Rightarrow> frame \<Rightarrow> duration \<Rightarrow> ('k, message option) receiver" where
  "receiver_receive env f now =
     h_bind rc_get (\<lambda>r. case rc_failure r of
         Some failure \<Rightarrow> h_err failure
       | None \<Rightarrow> h_catch (receive_active env f now) (stop_err env))"

end
