(* ===== verification/Receiver_Calculus.thy ===== *)
theory Receiver_Calculus
  imports Input_Receiver
begin

section \<open>Proof rules for the receiver's methods\<close>

text \<open>
  Rules of \<open>always\<close> for the steps the methods are made of, and, for a condition that survives certain
  actions and every update that leaves the configuration alone, that every method keeps it.
\<close>

subsection \<open>The steps\<close>

abbreviation keeps :: "('s \<Rightarrow> bool) \<Rightarrow> ('s, 'e, 'a) handler \<Rightarrow> bool" where
  "keeps J m \<equiv> always J (\<lambda>_. J) (\<lambda>_. J) J m"

lemma always_rc_upd: "(\<And>r d. P (r, d) \<Longrightarrow> Q () (g r, d)) \<Longrightarrow> always P Q E D (rc_upd g)"
  by (auto simp: rc_upd_def)

lemma always_rc_get_bind:
  "(\<And>r d. P (r, d) \<Longrightarrow> always (\<lambda>t. t = (r, d)) Q E D (f r)) \<Longrightarrow> always P Q E D (h_bind rc_get f)"
  by (auto simp: always_def h_bind_def h_get_def rc_get_def h_ok_def)

text \<open>The same, forgetting all but that the invariant holds of the state read.\<close>

lemma keeps_get:
  "(\<And>r. always P Q E D (f r)) \<Longrightarrow> always P Q E D (h_bind rc_get f)"
  by (auto simp: always_def h_bind_def h_get_def rc_get_def h_ok_def)

lemma always_dest_apply:
  "(\<And>r d ok. P (r, d) \<Longrightarrow> Q ok (r, (a, ok) # d)) \<Longrightarrow> always P Q E D (dest_apply env a)"
  by (auto simp: always_def dest_apply_def)

lemma always_deliver:
  "(\<And>r d. P (r, d) \<Longrightarrow> Q () (r, (a, True) # d)) \<Longrightarrow> (\<And>r d. P (r, d) \<Longrightarrow> E RfNativeDelivery (r, (a, False) # d))
     \<Longrightarrow> always P Q E D (deliver env a)"
  by (auto simp: always_def deliver_def dest_apply_def handler_defs)

lemma always_deliver_keys:
  assumes "\<And>r d u pressed ok. J (r, d) \<Longrightarrow> J (r, (DestKey u pressed, ok) # d)"
  shows "always J (\<lambda>_. J) (\<lambda>_. J) D (deliver_keys env plan)"
proof (induction plan)
  case (Cons step plan)
  show ?case
    unfolding deliver_keys.simps by (rule always_seq [OF always_deliver Cons]) (auto intro: assms)
qed auto

lemma always_with_health:
  "(\<And>r d h. P (r, d) \<Longrightarrow> Q (fst (f (rc_health r))) (r\<lparr>rc_health := snd (f (rc_health r))\<rparr>, d)) \<Longrightarrow> always P Q E D (with_health f)"
  by (auto simp: always_def with_health_def rc_get_def rc_upd_def handler_defs)

lemma always_with_sequences:
  "(\<And>r d. P (r, d) \<Longrightarrow> Q (fst (f (rc_sequences r))) (r\<lparr>rc_sequences := snd (f (rc_sequences r))\<rparr>, d))
     \<Longrightarrow> always P Q E D (with_sequences f)"
  by (auto simp: always_def with_sequences_def rc_get_def rc_upd_def handler_defs)

lemma always_or_health: "(\<And>s e. P s \<Longrightarrow> E e s) \<Longrightarrow> (\<And>s x. P s \<Longrightarrow> Q x s) \<Longrightarrow> always P Q E D (or_health res)"
  unfolding or_health_def by (rule always_lift) auto

lemma always_require_active:
  "(\<And>r d a. P (r, d) \<Longrightarrow> rc_active r = Some a \<Longrightarrow> Q a (r, d)) \<Longrightarrow> (\<And>s. P s \<Longrightarrow> E RfNotActive s)
     \<Longrightarrow> always P Q E D require_active"
  by (auto simp: always_def require_active_def rc_get_def handler_defs ok_or_def split: option.splits)

text \<open>The floor loops change nothing but the gate and the claim.\<close>

lemma admit_loop_frame:
  "admit_loop races r = (out, r1) \<Longrightarrow> r1 = r\<lparr>rc_gate := rc_gate r1, rc_floor_generation := rc_floor_generation r1\<rparr>"
proof (induction races arbitrary: r)
  case Nil
  then show ?case
    by (subst (asm) admit_loop.simps) (auto simp: Let_def split: option.splits)
next
  case (Cons others rest)
  obtain claimed w where c: "claim_inbound r (gate_snapshot (rc_gate r)) (others (tb_floor (rc_gate r))) = (claimed, w)"
    by fastforce
  let ?r = "r\<lparr>rc_gate := (rc_gate r)\<lparr>tb_floor := w\<rparr>\<rparr>"
  have "admit_loop (others # rest) r = (out, r1)"
    by fact
  then consider "r1 = r" | "r1 = ?r" | g n where "r1 = r\<lparr>rc_floor_generation := n, rc_gate := g\<rparr>"
    | "admit_loop rest ?r = (out, r1)"
    by (subst (asm) admit_loop.simps) (auto simp: Let_def c split: option.splits sum.splits if_splits)
  then show ?case
  proof cases
    case 4
    then show ?thesis using Cons.IH [of ?r] by simp
  qed simp_all
qed

lemma always_admit_activation:
  assumes "\<And>r d g c. P (r, d) \<Longrightarrow> P (r\<lparr>rc_gate := g, rc_floor_generation := c\<rparr>, d)"
  shows "keeps P (admit_activation env)"
proof -
  have "P (r1, d)" if "admit_loop races r = (out, r1)" "P (r, d)" for races r out r1 d
    using assms [OF that(2), where g = "rc_gate r1" and c = "rc_floor_generation r1"] admit_loop_frame [OF that(1)] by simp
  then show ?thesis
    by (auto simp: always_def admit_activation_def split: prod.splits option.splits)
qed

lemma release_floor_frame:
  assumes "release_floor env (r, d) = (out, (r1, d1))"
  shows "d1 = d \<and> (out = None \<or> out = Some (Inr ())) \<and>
    r1 = r\<lparr>rc_gate := rc_gate r1, rc_floor_generation := None, rc_yielding := (if out = None then rc_yielding r else False)\<rparr>"
  using assms by (auto simp: release_floor_def split: option.splits prod.splits)

lemma always_release_floor:
  assumes "\<And>r d g. P (r, d) \<Longrightarrow> Q (r\<lparr>rc_gate := g, rc_floor_generation := None, rc_yielding := False\<rparr>, d)"
    and "\<And>r d g. P (r, d) \<Longrightarrow> D (r\<lparr>rc_gate := g, rc_floor_generation := None, rc_yielding := rc_yielding r\<rparr>, d)"
  shows "always P (\<lambda>_. Q) E D (release_floor env)"
  unfolding always_def
proof (intro allI impI)
  fix s assume "P s"
  obtain r d out r1 d1 where s: "s = (r, d)" and run: "release_floor env (r, d) = (out, (r1, d1))"
    by (metis surj_pair)
  show "case release_floor env s of (None, t) \<Rightarrow> D t | (Some (Inl e), t) \<Rightarrow> E e t | (Some (Inr x), t) \<Rightarrow> Q t"
    using release_floor_frame [OF run] assms(1) [of r d "rc_gate r1"] assms(2) [of r d "rc_gate r1"] \<open>P s\<close>
    by (auto simp: s run)
qed

lemma release_injected_keeps:
  assumes "\<And>r d kb. J (r, d) \<Longrightarrow> J (r\<lparr>rc_open_gestures := [False, False], rc_keyboard := kb\<rparr>, d)"
    and "\<And>r d a ok. J (r, d) \<Longrightarrow> is_release a \<Longrightarrow> J (r, (a, ok) # d)"
  shows "always J (\<lambda>_. J) (\<lambda>_ _. False) (\<lambda>_. False) (release_injected env)"
  unfolding release_injected_def
  by (rule always_seq [where R = J] always_bind [where R = "\<lambda>_. J"] always_rc_upd always_dest_apply always_ok
        | simp add: assms)+

lemma keeps_snd: "keeps J m \<Longrightarrow> J s \<Longrightarrow> J (snd (m s))"
  using alwaysD [of J "\<lambda>_. J" "\<lambda>_. J" J m s "fst (m s)" "snd (m s)"] by (auto split: option.splits sum.splits)

subsection \<open>Conditions every method keeps\<close>

definition same_config :: "'k input_receiver \<Rightarrow> 'k input_receiver \<Rightarrow> bool" where
  "same_config r r1 \<longleftrightarrow>
     rc_displays r1 = rc_displays r \<and> rc_shared r1 = rc_shared r \<and> rc_slot r1 = rc_slot r \<and>
     rc_local_lower r1 = rc_local_lower r \<and> rc_enabled r1 = rc_enabled r"

text \<open>An update that leaves the configuration, the open gestures and the floor alone.\<close>

definition benign :: "'k input_receiver \<Rightarrow> 'k input_receiver \<Rightarrow> bool" where
  "benign r r1 \<longleftrightarrow>
     same_config r r1 \<and> rc_open_gestures r1 = rc_open_gestures r \<and> tb_floor (rc_gate r1) = tb_floor (rc_gate r)"

fun is_gesture :: "destination_action \<Rightarrow> bool" where
  "is_gesture (DestGesture _) = True"
| "is_gesture _ = False"

text \<open>
  \<open>J\<close> is kept between the steps of a method that has not failed, \<open>K\<close> is what is left of it at an error,
  \<open>D\<close> is what a method that does not return leaves. The first locale needs releases only.
\<close>

locale receiver_keeps =
  fixes env :: receiver_env
    and J K D :: "'k input_receiver \<times> applied \<Rightarrow> bool"
  assumes weak: "J s \<Longrightarrow> K s"
    and stateJ: "J (r, d) \<Longrightarrow> benign r r1 \<Longrightarrow> J (r1, d)"
    and stateK: "K (r, d) \<Longrightarrow> benign r r1 \<Longrightarrow> K (r1, d)"
    and sharedK: "K (r, d) \<Longrightarrow> rc_shared r \<Longrightarrow> J (r, d)"
    and shared_open: "J (r, d) \<Longrightarrow> rc_shared r \<Longrightarrow> J (r\<lparr>rc_open_gestures := [False, False]\<rparr>, d)"
    and closed_gestures:
      "K (r, d) \<Longrightarrow> J (r\<lparr>rc_open_gestures := [False, False]\<rparr>, (DestReleaseAll, ok1) # (EndGestures, ok2) # d)"
    and idle_gestures: "J (r, d) \<Longrightarrow> J (r\<lparr>rc_open_gestures := [False, False]\<rparr>, (EndGestures, ok) # d)"
    and release_floor: "always J (\<lambda>_. J) (\<lambda>_ _. False) D (release_floor env)"
begin

abbreviation (input) obeys :: "('k, 'a) receiver \<Rightarrow> bool" where
  "obeys m \<equiv> always J (\<lambda>_. J) (\<lambda>_. K) D m"

lemma upd: "(\<And>r. benign r (g r)) \<Longrightarrow> always J (\<lambda>_. J) E D' (rc_upd g)"
  by (rule always_rc_upd) (blast intro: stateJ)

lemma updK: "(\<And>r. benign r (g r)) \<Longrightarrow> always K (\<lambda>_. K) E D' (rc_upd g)"
  by (rule always_rc_upd) (blast intro: stateK)

lemma health: "always J (\<lambda>_. J) E D' (with_health g)"
  by (rule always_with_health) (erule stateJ, simp add: benign_def same_config_def)

lemma sequences: "always J (\<lambda>_. J) E D' (with_sequences g)"
  by (rule always_with_sequences) (erule stateJ, simp add: benign_def same_config_def)

lemma floor: "obeys (release_floor env)"
  by (rule always_weaken [OF release_floor]) auto

lemma require: "obeys require_active"
  by (rule always_require_active) (auto intro: weak)

lemma or_health: "obeys (or_health res)"
  by (rule always_or_health) (auto intro: weak)

lemma lift: "obeys (h_lift res)"
  by (rule always_lift) (auto intro: weak)

lemma err: "obeys (h_err e)"
  by (auto intro: weak)

lemma release_injected:
  "always K (\<lambda>_ s. J s \<and> rc_open_gestures (fst s) = [False, False]) E D' (release_injected env)"
proof -
  have "J (r\<lparr>rc_open_gestures := [False, False], rc_keyboard := kb\<rparr>, (DestReleaseAll, ok1) # (EndGestures, ok2) # d)"
    if "K (r, d)" for r d kb ok1 ok2
    by (rule stateJ [OF closed_gestures [OF that]]) (simp add: benign_def same_config_def)
  then show ?thesis
    by (auto simp: always_def release_injected_def rc_upd_def dest_apply_def handler_defs)
qed

lemma release_injectedJ: "always J (\<lambda>_. J) E D' (release_injected env)"
  by (rule always_weaken [OF release_injected]) (auto intro: weak)

lemmas steps = keeps_get always_if always_ok err always_when keeps_seq
  keeps_bind [OF health] keeps_bind [OF sequences] keeps_bind [OF release_injectedJ] keeps_bind [OF require]
  keeps_bind [OF or_health] upd health sequences release_injectedJ floor or_health lift

lemmas benign_defs = benign_def same_config_def open_injection_def note_injected_released_def note_injection_change_def
  take_triggered_def

text \<open>Cleanup that is due takes what an error left back to \<open>J\<close>.\<close>

lemma retry_cleanup:
  "always (\<lambda>s. K s \<and> rc_cleanup_pending (fst s) \<or> J s) (\<lambda>_. J) (\<lambda>_ _. False) D (retry_cleanup env)"
  unfolding retry_cleanup_def
proof (rule always_rc_get_bind, rule always_if, goal_cases)
  case (1 r d)
  then show ?case by auto
next
  case (2 r d)
  then have k: "K (r, d)" by (auto intro: weak)
  let ?R = "\<lambda>s. J s \<and> (rc_open_gestures (fst s) = [False, False] \<or> rc_shared (fst s))"
  have first: "always (\<lambda>t. t = (r, d)) (\<lambda>_. ?R) (\<lambda>_ _. False) D (if may_release r then release_injected env else h_ok True)"
    using k by (auto intro!: always_weaken [OF release_injected] intro: sharedK simp: may_release_def Let_def)
  have clear: "always ?R (\<lambda>_. J) (\<lambda>_ _. False) D (rc_upd (\<lambda>r1. r1\<lparr>rc_open_gestures := [False, False],
      rc_keys := replicate 256 False, rc_keyboard := translator_clear (rc_keyboard r1), rc_buttons := replicate 5 False,
      rc_cleanup_pending := False\<rparr>))"
  proof (rule always_rc_upd, goal_cases)
    case (1 r d)
    then have "J (r\<lparr>rc_open_gestures := [False, False]\<rparr>, d)"
      by (auto intro: shared_open stateJ simp: benign_def same_config_def)
    then show ?case by (rule stateJ) (simp add: benign_def same_config_def)
  qed
  show ?case
    by (rule always_bind [OF first])
       (auto intro!: always_seq [OF clear] keeps_seq always_when upd release_floor simp: benign_defs)
qed

lemma retry_cleanupJ: "always J (\<lambda>_. J) E D (retry_cleanup env)"
  by (rule always_weaken [OF retry_cleanup]) auto

lemma close_nativeK: "always K (\<lambda>_ s. K s \<and> rc_cleanup_pending (fst s)) E D' close_native"
proof -
  have gate: "K (r\<lparr>rc_gate := open_injection CLOSED (rc_gate r), rc_active := None, rc_pending_move := None, rc_cleanup_pending := True\<rparr>, d)"
    "K (r\<lparr>rc_active := None, rc_pending_move := None, rc_cleanup_pending := True\<rparr>, d)"
    if "K (r, d)" for r d
    by (rule stateK [OF that], simp add: benign_defs)+
  then show ?thesis
    by (auto simp: always_def close_native_def rc_get_def rc_upd_def handler_defs)
qed

lemma close_native: "always J (\<lambda>_. J) E D' close_native"
  unfolding close_native_def by (intro keeps_get keeps_seq always_when upd) (auto simp: benign_defs)

lemma stop: "always K (\<lambda>_. J) E D (receiver_stop env failure)"
  unfolding receiver_stop_def Let_def
  by (intro keeps_get keeps_seq [OF updK] always_seq [OF close_nativeK]
        always_seq [where R = J, OF always_weaken [OF retry_cleanup]])
     (auto simp: benign_defs)

lemma stop_err: "always K Q (\<lambda>_. J) D (stop_err env failure)"
  unfolding stop_err_def by (rule always_bind [where R = "\<lambda>_. J", OF always_weaken [OF stop]]) auto

lemma stop_err_from: "always J Q (\<lambda>_. J) D (stop_err env failure)"
  by (rule always_weaken [OF stop_err]) (auto intro: weak)

lemma hold: "always J (\<lambda>_. J) (\<lambda>_. J) D (receiver_hold env now)"
  unfolding receiver_hold_def
  by (intro keeps_seq close_native retry_cleanupJ keeps_bind [OF health])
     (auto intro!: stop_err_from upd simp: benign_defs split: sum.split)

lemma holdK: "obeys (receiver_hold env now)"
  by (rule always_weaken [OF hold]) (auto intro: weak)

lemma resume: "obeys (receiver_resume now)"
  unfolding receiver_resume_def by (intro steps) (auto simp: benign_defs split: option.split)

lemma yield: "always J (\<lambda>_. J) (\<lambda>_. J) D (yield_to_local env generation)"
  unfolding yield_to_local_def Let_def
  by (intro keeps_get always_if keeps_seq upd keeps_bind [OF release_injectedJ] always_ok always_weaken [OF stop_err])
     (auto simp: benign_defs intro: weak)

lemma take_back: "always J (\<lambda>_. J) (\<lambda>_. J) D (receiver_take_back env)"
  unfolding receiver_take_back_def
  by (intro keeps_get always_if keeps_seq upd) (auto intro: yield simp: benign_defs split: option.split)

lemma heartbeat:
  assumes "\<And>s. J s \<Longrightarrow> is_heartbeat (fr_message f) \<or> D s"
  shows "obeys (receive_heartbeat held f now)"
  unfolding receive_heartbeat_def
proof (intro keeps_get keeps_seq upd always_if, goal_cases)
  case (3 r)
  have panic: "obeys (\<lambda>s. (None, s))" if "\<not> is_heartbeat (fr_message f)"
    using assms that by (auto simp: always_def)
  show ?case
    by (cases "fr_message f") (auto intro!: steps panic)
qed (auto simp: benign_defs)

lemma release: "obeys (receive_release env held now)"
proof -
  let ?S = "\<lambda>s. J s \<and> rc_shared (fst s)"
  let ?open = "rc_upd (\<lambda>r1. r1\<lparr>rc_open_gestures := [False, False]\<rparr>) :: ('k, unit) receiver"
  have opened: "always ?S (\<lambda>_. J) (\<lambda>_. K) D ?open"
    by (rule always_rc_upd) (auto intro: shared_open)
  have gate: "always ?S (\<lambda>_. ?S) (\<lambda>_. K) D (h_when b (rc_upd (\<lambda>r1. r1\<lparr>rc_gate := open_injection CLOSED (rc_gate r1)\<rparr>)))" for b
    by (intro always_when always_rc_upd) (auto elim: stateJ simp: benign_defs)
  show ?thesis
    unfolding receive_release_def
  proof (rule always_rc_get_bind, goal_cases)
    case (1 r d)
    show ?case
    proof (cases "may_release r")
      case True
      show ?thesis
        by (rule always_weaken [where P = J and Q = "\<lambda>_. J" and E = "\<lambda>_. K" and D = D])
           ((simp add: True, intro steps resume; simp add: benign_defs), use 1 in auto)
    next
      case False
      then have start: "?S (r, d)" using 1 by (auto simp: may_release_def Let_def)
      have rest: "obeys (h_seq (release_floor env) (h_seq (rc_upd (\<lambda>r1. r1\<lparr>rc_keys := replicate 256 False,
          rc_keyboard := translator_clear (rc_keyboard r1), rc_buttons := replicate 5 False, rc_active := None, rc_pending_move := None\<rparr>))
        (h_seq (h_when held (h_seq (rc_upd (\<lambda>r1. r1\<lparr>rc_cleanup_pending := False\<rparr>)) (receiver_resume now)))
          (h_ok (Some MsgReleaseAck)))))"
        by (intro steps resume) (auto simp: benign_defs)
      show ?thesis
        unfolding if_not_P [OF False]
        by (rule always_weaken [OF always_seq [OF gate always_seq [OF opened rest]]]) (use start in blast)+
    qed
  qed
qed

lemma idle: "always J (\<lambda>_. J) (\<lambda>_. J) D (end_idle_gestures env now)"
proof -
  let ?open = "rc_upd (\<lambda>r1. r1\<lparr>rc_open_gestures := [False, False]\<rparr>) :: ('k, unit) receiver"
  let ?R = "\<lambda>s. \<forall>ok. J (fst s, (EndGestures, ok) # snd s)"
  have "always J (\<lambda>_. ?R) (\<lambda>_. J) D ?open"
    by (rule always_rc_upd) (simp add: idle_gestures)
  moreover have "always ?R (\<lambda>_. J) (\<lambda>_. J) D (h_catch (deliver env EndGestures) (stop_err env))"
    by (rule always_catch [where R = "\<lambda>_. J"], rule always_deliver) (auto intro: stop_err_from)
  ultimately have native: "always J (\<lambda>_. J) (\<lambda>_. J) D (h_seq ?open (h_catch (deliver env EndGestures) (stop_err env)))"
    by (rule always_seq)
  have other: "always (\<lambda>s. J s \<and> rc_shared (fst s)) (\<lambda>_. J) (\<lambda>_. J) D (h_seq ?open (h_ok ()))"
    by (rule always_seq [where R = J], rule always_rc_upd) (auto intro: shared_open)
  show ?thesis
    unfolding end_idle_gestures_def
  proof (rule always_rc_get_bind, rule always_when, goal_cases)
    case (1 r d)
    then show ?case
      by (cases "may_release r")
         (auto simp: h_when_def may_release_def Let_def intro: always_weaken [OF native] always_weaken [OF other])
  qed auto
qed

lemma tick: "always J (\<lambda>_. J) (\<lambda>_. J) D (receiver_tick env now)"
proof -
  have ended: "always J (\<lambda>_. J) (\<lambda>_. J) D (h_bind (with_health g) (\<lambda>res. case res of
        Inr token \<Rightarrow> h_ok (map_option MsgPing token)
      | Inl e \<Rightarrow> if e = DeadlineExpired then h_seq (receiver_hold env now) (h_ok None) else stop_err env (RfHealth e)))"
    and held: "always J (\<lambda>_. J) (\<lambda>_. J) D (h_bind (with_health g) (\<lambda>res. case res of
        Inr token \<Rightarrow> h_ok (map_option MsgPing token) | Inl e \<Rightarrow> stop_err env (RfHealth e)))"
    for g :: "peer_health \<Rightarrow> (health_error + u64 option) \<times> peer_health"
    by (intro keeps_bind [OF health]; auto intro!: keeps_seq hold stop_err_from split: sum.split)+
  show ?thesis
    unfolding receiver_tick_def
  proof (rule keeps_get, goal_cases)
    case (1 r)
    show ?case
      by (cases "rc_failure r"; cases "rc_held_since r") (auto intro!: keeps_seq retry_cleanupJ stop_err_from idle ended held)
  qed
qed

text \<open>In a hold nothing but releases is even tried.\<close>

lemma activation_held: "obeys (receive_activation env True f i p c)"
  unfolding receive_activation_def by (simp, intro steps) (auto simp: benign_defs)

lemma message_held: "obeys (receive_message env True now m)"
  unfolding receive_message_def by (cases m) (auto intro: release weak)

lemma sequenced_held: "obeys (receive_sequenced env True f now)"
  unfolding receive_sequenced_def Let_def
  by (intro steps) (auto intro!: steps message_held simp: h_when_def split: sum.split)

lemma frame_held: "obeys (receive_frame env True f now)"
  unfolding receive_frame_def
  by (intro steps) (auto intro: heartbeat activation_held sequenced_held simp: benign_defs split: message.split)

end

subsection \<open>Conditions that survive every action\<close>

locale receiver_keeps_all = receiver_keeps +
  assumes logJ: "J (r, d) \<Longrightarrow> \<not> is_release a \<Longrightarrow> \<not> is_gesture a \<Longrightarrow> J (r, (a, ok) # d)"
    and gesture: "always J (\<lambda>_. J) (\<lambda>_. K) D (apply_gesture env g)"
    and admit: "always J (\<lambda>_. J) (\<lambda>_. J) D (admit_activation env)"
begin

lemma deliver: "\<not> is_release a \<Longrightarrow> \<not> is_gesture a \<Longrightarrow> obeys (deliver env a)"
  by (rule always_deliver) (auto intro: logJ weak)

lemma keys: "obeys (deliver_keys env plan)"
  by (rule always_weaken [OF always_deliver_keys [where J = J]]) (auto intro: logJ weak)

lemma inject: "obeys m \<Longrightarrow> obeys (inject_unless_suppressed m)"
  unfolding inject_unless_suppressed_def by (intro steps) auto

lemma pending_move: "obeys (apply_pending_move env)"
  unfolding apply_pending_move_def
  by (intro steps) (auto intro!: steps deliver simp: benign_defs split: option.split)

lemma key_message: "obeys (receive_key env key)"
  unfolding receive_key_def Let_def
  by (intro steps inject) (auto intro!: steps keys simp: benign_defs split: prod.split)

lemma button_message: "obeys (receive_button env b)"
  unfolding receive_button_def Let_def
  by (intro steps deliver) (auto intro!: steps keys simp: benign_defs split: prod.split)

lemma motion_message: "obeys (receive_motion motion)"
  unfolding receive_motion_def Let_def by (intro steps) (auto intro!: steps simp: benign_defs)

lemma message: "obeys (receive_message env held now m)"
proof (cases m)
  case (MsgScroll sc)
  then show ?thesis
    unfolding receive_message_def receive_scroll_def by (auto intro!: steps inject deliver)
next
  case (MsgGesture g)
  then show ?thesis
    unfolding receive_message_def receive_gesture_def by (auto intro!: steps inject gesture simp: benign_defs)
next
  case (MsgSystemGesture g)
  then show ?thesis
    unfolding receive_message_def by (auto intro!: steps inject deliver)
qed (auto simp: receive_message_def intro: release key_message button_message motion_message weak)

lemma activation: "obeys (receive_activation env held f i p c)"
proof -
  have admitted: "obeys (admit_activation env)"
    by (rule always_weaken [OF admit]) (auto intro: weak)
  show ?thesis
    unfolding receive_activation_def
    by (intro steps keeps_bind [OF admitted]) (auto intro!: steps deliver simp: benign_defs split: sum.split)
qed

lemma sequenced: "obeys (receive_sequenced env held f now)"
  unfolding receive_sequenced_def Let_def
  by (intro steps) (auto intro!: steps message pending_move split: sum.split)

lemma frame: "obeys (receive_frame env held f now)"
  unfolding receive_frame_def
  by (intro steps) (auto intro: heartbeat activation sequenced simp: benign_defs split: message.split)

lemma receive: "always J (\<lambda>_. J) (\<lambda>_. J) D (receiver_receive env f now)"
proof -
  have "obeys (receive_active env f now)"
    unfolding receive_active_def by (intro steps frame) (auto intro!: steps frame holdK split: sum.split)
  then have "always J (\<lambda>_. J) (\<lambda>_. J) D (h_catch (receive_active env f now) (stop_err env))"
    by (rule always_catch) (rule stop_err)
  then show ?thesis
    unfolding receiver_receive_def by (intro keeps_get) (auto split: option.split)
qed

lemma flush: "always J (\<lambda>_. J) (\<lambda>_. J) D (receiver_flush env)"
  unfolding receiver_flush_def
  by (intro keeps_get) (auto intro: always_catch [OF pending_move] stop_err split: option.split)

end

text \<open>A condition on the configuration alone is kept; so is one on the releases of a log.\<close>

lemma apply_gesture_keeps:
  assumes "\<And>r d n gs. J (r, d) \<Longrightarrow> J (r\<lparr>rc_gesture_normalizations := n\<rparr>, d) \<and> J (r\<lparr>rc_open_gestures := gs\<rparr>, d)"
    and "\<And>r d g ok. J (r, d) \<Longrightarrow> J (r, (DestGesture g, ok) # d)"
  shows "always J (\<lambda>_. J) (\<lambda>_. J) D (apply_gesture env g)"
  unfolding apply_gesture_def note_normalization_def
  by (cases "gesture_slot g")
     (auto intro!: keeps_get keeps_seq always_rc_upd always_deliver simp: assms split: option.split)

interpretation config: receiver_keeps_all env "\<lambda>s. same_config r0 (fst s)" "\<lambda>s. same_config r0 (fst s)" "\<lambda>s. same_config r0 (fst s)"
  for env r0
  by unfold_locales
     (auto simp: same_config_def benign_def intro!: always_release_floor always_admit_activation apply_gesture_keeps)

end
