(* ===== verification/Destination_View.thy ===== *)
theory Destination_View
  imports Receiver_Calculus
begin

section \<open>What may be down at the destination\<close>

text \<open>
  The destination as the log of applied actions shows it, whatever the receiver records of it. A press
  counts as down even when it was refused, since part of it may have been posted; a release takes
  something back only when it was accepted; a gesture counts as open until the gestures are ended,
  since a destination may hold a modifier for it.
\<close>

record destination_down =
  dn_keys :: "hid_usage set"
  dn_buttons :: "mouse_button set"
  dn_gestures :: bool

fun down_step :: "destination_action \<times> bool \<Rightarrow> destination_down \<Rightarrow> destination_down" where
  "down_step (DestKey u pressed, ok) s =
     s\<lparr>dn_keys := (if pressed then insert u (dn_keys s) else if ok then dn_keys s - {u} else dn_keys s)\<rparr>"
| "down_step (DestButton b pressed n, ok) s =
     s\<lparr>dn_buttons := (if pressed then insert b (dn_buttons s) else if ok then dn_buttons s - {b} else dn_buttons s)\<rparr>"
| "down_step (DestGesture g, ok) s = s\<lparr>dn_gestures := True\<rparr>"
| "down_step (DestSystem g, ok) s = s\<lparr>dn_gestures := True\<rparr>"
| "down_step (EndGestures, ok) s = (if ok then s\<lparr>dn_gestures := False\<rparr> else s)"
| "down_step (DestReleaseAll, ok) s = (if ok then s\<lparr>dn_keys := {}, dn_buttons := {}, dn_gestures := False\<rparr> else s)"
| "down_step _ s = s"

abbreviation nothing_down :: destination_down where
  "nothing_down \<equiv> \<lparr>dn_keys = {}, dn_buttons = {}, dn_gestures = False\<rparr>"

text \<open>The newest action is the first of the log.\<close>

definition down_after :: "applied \<Rightarrow> destination_down" where
  "down_after d = foldr down_step d nothing_down"

definition all_up :: "applied \<Rightarrow> bool" where
  "all_up d \<longleftrightarrow> down_after d = nothing_down"

lemma all_up_empty [simp]: "all_up []"
  by (simp add: all_up_def down_after_def)

lemma all_up_release: "all_up d \<Longrightarrow> is_release a \<Longrightarrow> all_up ((a, ok) # d)"
  by (cases a) (simp_all add: all_up_def down_after_def)

text \<open>The two release actions in one step.\<close>

lemma always_release_injected:
  assumes "\<And>r d kb a b. P (r, d) \<Longrightarrow>
    Q (a \<and> b) (r\<lparr>rc_open_gestures := [False, False], rc_keyboard := kb\<rparr>, (DestReleaseAll, a) # (EndGestures, b) # d)"
  shows "always P Q E D (release_injected env)"
  using assms by (auto simp: always_def release_injected_def rc_upd_def dest_apply_def handler_defs)

lemma all_up_both [simp]: "all_up ((DestReleaseAll, True) # d)"
  by (cases "down_after d") (simp add: all_up_def down_after_def)

end
