(* ===== verification/Receiver_Safety.thy ===== *)
theory Receiver_Safety
  imports Destination_View
begin

section \<open>What the receiver injects and when\<close>

text \<open>
  Invariants of the receiver over every method and every run: where the pointer may be put, what a
  stopped or held receiver still has down, and which actions reach the destination then. The proofs
  go method by method through the calculus of \<open>always\<close>.
\<close>

subsection \<open>Predicates\<close>

definition calm :: "'k input_receiver \<Rightarrow> bool" where
  "calm r \<longleftrightarrow> rc_keys r = replicate 256 False \<and> rc_buttons r = replicate 5 False \<and> rc_open_gestures r = [False, False]"

text \<open>Everything is up in the receiver's record and, for the only receiver of a destination, there too.\<close>

definition released :: "'k input_receiver \<times> applied \<Rightarrow> bool" where
  "released s \<longleftrightarrow> calm (fst s) \<and> (rc_shared (fst s) \<or> all_up (snd s))"

definition on_some_display :: "display_topology \<Rightarrow> point \<Rightarrow> bool" where
  "on_some_display ds p \<longleftrightarrow> (\<exists>d \<in> set ds. rect_contains_half_open (logical_bounds d) p)"

definition moves_ok :: "'k input_receiver \<times> applied \<Rightarrow> bool" where
  "moves_ok s \<longleftrightarrow> (\<forall>p ok. (MoveTo p, ok) \<in> set (snd s) \<longrightarrow> on_some_display (rc_displays (fst s)) p)"

definition shape_ok :: "'k input_receiver \<Rightarrow> bool" where
  "shape_ok r \<longleftrightarrow> length (rc_keys r) = 256 \<and> length (rc_buttons r) = 5 \<and> length (rc_open_gestures r) = 2"

definition aim_ok :: "'k input_receiver \<Rightarrow> bool" where
  "aim_ok r \<longleftrightarrow>
     (\<forall>i p. rc_active r = Some (i, p) \<longrightarrow> check_point (rc_displays r) i p = Inr ()) \<and>
     (\<forall>p. rc_pending_move r = Some p \<longrightarrow> (\<exists>i. rc_active r = Some (i, p)))"

definition quiet_ok :: "'k input_receiver \<times> applied \<Rightarrow> bool" where
  "quiet_ok s \<longleftrightarrow>
     (rc_failure (fst s) \<noteq> None \<or> rc_held_since (fst s) \<noteq> None \<longrightarrow>
        rc_active (fst s) = None \<and> rc_pending_move (fst s) = None \<and> (rc_cleanup_pending (fst s) \<or> released s))"

text \<open>The invariant, what remains of it inside a method that has failed, and its two working modes.\<close>

definition rc_base :: "'k input_receiver \<times> applied \<Rightarrow> bool" where
  "rc_base s \<longleftrightarrow> shape_ok (fst s) \<and> moves_ok s"

definition rc_inv :: "'k input_receiver \<times> applied \<Rightarrow> bool" where
  "rc_inv s \<longleftrightarrow> rc_base s \<and> aim_ok (fst s) \<and> quiet_ok s"

definition rc_live :: "'k input_receiver \<times> applied \<Rightarrow> bool" where
  "rc_live s \<longleftrightarrow> rc_base s \<and> aim_ok (fst s) \<and> rc_failure (fst s) = None \<and> rc_held_since (fst s) = None"

definition rc_held :: "'k input_receiver \<times> applied \<Rightarrow> bool" where
  "rc_held s \<longleftrightarrow> rc_inv s \<and> rc_failure (fst s) = None \<and> rc_held_since (fst s) \<noteq> None"

lemmas rc_preds = rc_inv_def rc_live_def rc_held_def rc_base_def

lemma rc_live_inv: "rc_live s \<Longrightarrow> rc_inv s"
  by (simp add: rc_preds quiet_ok_def)

lemma rc_inv_modes: "rc_inv s \<Longrightarrow> rc_failure (fst s) = None \<Longrightarrow> rc_held_since (fst s) = None \<Longrightarrow> rc_live s"
  by (simp add: rc_preds)

lemma rc_inv_base: "rc_inv s \<Longrightarrow> rc_base s"
  by (simp add: rc_inv_def)

lemma check_point_on_display: "check_point ds i p = Inr () \<Longrightarrow> on_some_display ds p"
  by (auto simp: check_point_def on_some_display_def rbind_def find_Some_iff split: sum.splits if_splits option.splits)

subsection \<open>Moves in the log\<close>

lemma moves_ok_other: "(\<forall>p. a \<noteq> MoveTo p) \<Longrightarrow> moves_ok (r, (a, ok) # d) = moves_ok (r, d)"
  by (auto simp: moves_ok_def)

lemma moves_ok_upd: "rc_displays r1 = rc_displays r \<Longrightarrow> moves_ok (r1, d) = moves_ok (r, d)"
  by (simp add: moves_ok_def)

subsection \<open>Stopping and holding\<close>

definition cleaned :: "receiver_failure option \<Rightarrow> duration option \<Rightarrow> 'k input_receiver \<times> applied \<Rightarrow> bool" where
  "cleaned f h s \<longleftrightarrow>
     rc_base s \<and> rc_active (fst s) = None \<and> rc_pending_move (fst s) = None \<and>
     (rc_cleanup_pending (fst s) \<or> released s) \<and> rc_failure (fst s) = f \<and> rc_held_since (fst s) = h"

lemmas shape_simps = shape_ok_def moves_ok_upd moves_ok_other aim_ok_def calm_def

lemma is_release_not_move: "is_release a \<Longrightarrow> a \<noteq> MoveTo p"
  by auto

lemma cleaned_inv: "cleaned f h s \<Longrightarrow> rc_inv s"
  by (auto simp: cleaned_def rc_inv_def aim_ok_def quiet_ok_def)

lemma inv_cleaned:
  "rc_inv s \<Longrightarrow> rc_failure (fst s) \<noteq> None \<or> rc_held_since (fst s) \<noteq> None \<Longrightarrow>
     cleaned (rc_failure (fst s)) (rc_held_since (fst s)) s"
  by (auto simp: cleaned_def rc_inv_def quiet_ok_def)

lemma rc_base_release: "rc_base (r, d) \<Longrightarrow> is_release a \<Longrightarrow> rc_base (r, (a, ok) # d)"
  by (auto simp: rc_base_def moves_ok_def)

lemma release_injected_clean:
  "always (cleaned f h) (\<lambda>ok s. cleaned f h s \<and> rc_open_gestures (fst s) = [False, False] \<and> (ok \<longrightarrow> all_up (snd s))) E D
     (release_injected env)"
  by (rule always_release_injected)
     (auto simp: cleaned_def rc_base_def shape_ok_def moves_ok_def released_def calm_def all_up_release)

lemma release_injected_cleaned:
  "always (\<lambda>s. cleaned f h s \<and> rc_cleanup_pending (fst s))
     (\<lambda>ok s. cleaned f h s \<and> rc_cleanup_pending (fst s) \<and> (ok \<longrightarrow> all_up (snd s))) E D (release_injected env)"
  by (rule always_release_injected)
     (auto simp: cleaned_def rc_base_def shape_ok_def moves_ok_def released_def)

lemma release_floor_cleaned: "always (cleaned f h) (\<lambda>_. cleaned f h) E (cleaned f h) (release_floor env)"
  by (rule always_release_floor) (auto simp: cleaned_def rc_base_def shape_ok_def moves_ok_def released_def calm_def)

lemma retry_cleanup_cleaned: "always (cleaned f h) (\<lambda>_. cleaned f h) (\<lambda>_ _. False) (cleaned f h) (retry_cleanup env)"
  unfolding retry_cleanup_def
proof (rule always_rc_get_bind, rule always_if)
  fix r d assume pre: "cleaned f h (r, d)"
  show "always (\<lambda>t. t = (r, d)) (\<lambda>_. cleaned f h) (\<lambda>_ _. False) (cleaned f h) (h_ok ())"
    using pre by auto
  assume pending: "\<not> \<not> rc_cleanup_pending r"
  let ?P = "\<lambda>s. cleaned f h s \<and> rc_cleanup_pending (fst s)"
  let ?R = "\<lambda>ok s. ?P s \<and> (ok \<longrightarrow> rc_shared (fst s) \<or> all_up (snd s))"
  have "always (\<lambda>t. t = (r, d)) ?R (\<lambda>_ _. False) (cleaned f h) (if may_release r then release_injected env else h_ok True)"
    using pre pending by (auto intro!: always_weaken [OF release_injected_cleaned] simp: may_release_def Let_def)
  moreover have "always (?R True) (\<lambda>_. cleaned f h) (\<lambda>_ _. False) (cleaned f h)
      (h_seq (rc_upd (\<lambda>r1. r1\<lparr>rc_open_gestures := [False, False], rc_keys := replicate 256 False,
                      rc_keyboard := translator_clear (rc_keyboard r1), rc_buttons := replicate 5 False,
                      rc_cleanup_pending := False\<rparr>))
        (h_seq (h_when (may_release r) (rc_upd (\<lambda>r1. r1\<lparr>rc_gate := note_injected_released (rc_gate r1)\<rparr>)))
           (release_floor env)))"
    by (intro always_seq [where R = "cleaned f h"] always_when always_rc_upd release_floor_cleaned)
       (auto simp: cleaned_def rc_base_def shape_ok_def moves_ok_def released_def calm_def)
  ultimately show "always (\<lambda>t. t = (r, d)) (\<lambda>_. cleaned f h) (\<lambda>_ _. False) (cleaned f h)
      (h_bind (if may_release r then release_injected env else h_ok True) (\<lambda>released. if \<not> released then h_ok ()
         else h_seq (rc_upd (\<lambda>r1. r1\<lparr>rc_open_gestures := [False, False], rc_keys := replicate 256 False,
                      rc_keyboard := translator_clear (rc_keyboard r1), rc_buttons := replicate 5 False,
                      rc_cleanup_pending := False\<rparr>))
              (h_seq (h_when (may_release r) (rc_upd (\<lambda>r1. r1\<lparr>rc_gate := note_injected_released (rc_gate r1)\<rparr>)))
                 (release_floor env))))"
    by (intro always_bind [where R = ?R]) auto
qed

lemma close_native_cleaned:
  "always (\<lambda>s. rc_base s \<and> rc_failure (fst s) = f \<and> rc_held_since (fst s) = h) (\<lambda>_. cleaned f h) E D close_native"
  by (auto simp: always_def close_native_def rc_get_def rc_upd_def handler_defs cleaned_def rc_base_def shape_ok_def moves_ok_def)

lemma receiver_stop_inv:
  "always rc_base (\<lambda>_ s. rc_inv s \<and> rc_failure (fst s) \<noteq> None) (\<lambda>_ _. False) rc_inv (receiver_stop env failure)"
  unfolding receiver_stop_def Let_def
proof (rule always_rc_get_bind)
  fix r :: "'a input_receiver" and d assume pre: "rc_base (r, d)"
  let ?f = "case rc_failure r of None \<Rightarrow> failure | Some f \<Rightarrow> f"
  let ?B = "\<lambda>s. rc_base s \<and> rc_failure (fst s) = Some ?f \<and> rc_held_since (fst s) = rc_held_since r"
  let ?C = "cleaned (Some ?f) (rc_held_since r)"
  let ?Q = "\<lambda>_ s. rc_inv s \<and> rc_failure (fst s) \<noteq> None"
  have clean: "?Q () s" if "?C s" for s :: "'a input_receiver \<times> applied"
    using that cleaned_inv [OF that] by (simp add: cleaned_def)
  have "always ?C ?Q (\<lambda>_ _. False) rc_inv (h_seq (retry_cleanup env) (h_ok ?f))"
    by (rule always_seq [where R = ?C], rule always_weaken [OF retry_cleanup_cleaned]) (auto simp: cleaned_inv, auto simp: cleaned_def)
  then have "always ?B ?Q (\<lambda>_ _. False) rc_inv (h_seq close_native (h_seq (retry_cleanup env) (h_ok ?f)))"
    by (rule always_seq [OF close_native_cleaned])
  then show "always (\<lambda>t. t = (r, d)) ?Q (\<lambda>_ _. False) rc_inv
      (h_seq (rc_upd (\<lambda>r1. r1\<lparr>rc_failure := Some ?f\<rparr>)) (h_seq close_native (h_seq (retry_cleanup env) (h_ok ?f))))"
    by (rule always_seq [rotated]) (rule always_rc_upd, use pre in \<open>auto simp: rc_base_def shape_ok_def moves_ok_def\<close>)
qed

lemma stop_err_inv: "always rc_base Q (\<lambda>_. rc_inv) rc_inv (stop_err env failure)"
  unfolding stop_err_def
  by (rule always_bind [where R = "\<lambda>_. rc_inv"], rule always_weaken [OF receiver_stop_inv]) auto

lemma with_health_cleaned: "always (cleaned f h) (\<lambda>_. cleaned f h) E D (with_health g)"
  by (rule always_with_health) (simp add: cleaned_def rc_base_def shape_ok_def moves_ok_def released_def calm_def)

lemma receiver_hold_inv:
  "always (\<lambda>s. rc_base s \<and> rc_failure (fst s) = None) (\<lambda>_. rc_held) (\<lambda>_. rc_inv) rc_inv (receiver_hold env now)"
proof -
  let ?Q = "\<lambda>_ s. rc_held s"
  let ?E = "\<lambda>_ :: receiver_failure. rc_inv"
  have upd: "always (cleaned None h) ?Q ?E rc_inv
      (rc_upd (\<lambda>r. r\<lparr>rc_held_since := Some now, rc_holds := saturating_add (rc_holds r) 1\<rparr>))" for h
    by (rule always_rc_upd) (auto simp: cleaned_def rc_preds quiet_ok_def shape_ok_def moves_ok_def aim_ok_def released_def calm_def)
  have judge: "always (cleaned None h) ?Q ?E rc_inv
      (case res of Inl e \<Rightarrow> stop_err env (RfHealth e)
         | Inr _ \<Rightarrow> rc_upd (\<lambda>r. r\<lparr>rc_held_since := Some now, rc_holds := saturating_add (rc_holds r) 1\<rparr>))"
    for h and res :: "health_error + unit"
    using upd [of h] by (cases res) (auto intro: always_weaken [OF stop_err_inv] simp: cleaned_def)
  have tail: "always (cleaned None h) ?Q ?E rc_inv
      (h_seq (retry_cleanup env) (h_bind (with_health (health_hold now)) (\<lambda>res. case res of
         Inl e \<Rightarrow> stop_err env (RfHealth e)
       | Inr _ \<Rightarrow> rc_upd (\<lambda>r. r\<lparr>rc_held_since := Some now, rc_holds := saturating_add (rc_holds r) 1\<rparr>))))" for h
    by (rule always_seq [OF always_weaken [OF retry_cleanup_cleaned] always_bind [OF with_health_cleaned judge]])
       (auto simp: cleaned_inv)
  have close: "always (\<lambda>s. rc_base s \<and> rc_failure (fst s) = None) (\<lambda>_ s. \<exists>h. cleaned None h s) ?E rc_inv close_native"
    by (rule always_pre_ex [where v = "\<lambda>s. rc_held_since (fst s)"])
       (auto intro: always_weaken [OF close_native_cleaned [where f = None]])
  show ?thesis
    unfolding receiver_hold_def by (rule always_seq [OF close always_ex_pre [OF tail]])
qed

subsection \<open>A working receiver\<close>

lemma live_log: "rc_live (r, d) \<Longrightarrow> (\<And>p. a = MoveTo p \<Longrightarrow> on_some_display (rc_displays r) p) \<Longrightarrow> rc_live (r, (a, ok) # d)"
  by (auto simp: rc_live_def rc_base_def moves_ok_def)

lemma live_deliver: "(\<And>p. a \<noteq> MoveTo p) \<Longrightarrow> keeps rc_live (deliver env a)"
  by (rule always_deliver) (auto intro: live_log)

lemma live_deliver_keys: "keeps rc_live (deliver_keys env plan)"
  by (rule always_deliver_keys) (auto intro: live_log)

lemma live_deliver_move: "always (\<lambda>s. rc_live s \<and> on_some_display (rc_displays (fst s)) p) (\<lambda>_. rc_live) (\<lambda>_. rc_live) rc_live (deliver env (MoveTo p))"
  by (rule always_deliver) (auto intro: live_log)

text \<open>Updates of the parts the invariant does not read, and of the tables in place.\<close>

lemma live_upd:
  assumes "\<And>r. rc_displays (g r) = rc_displays r \<and> rc_failure (g r) = rc_failure r \<and> rc_held_since (g r) = rc_held_since r
      \<and> rc_active (g r) = rc_active r \<and> rc_pending_move (g r) = rc_pending_move r"
    and "\<And>r. length (rc_keys (g r)) = length (rc_keys r) \<and> length (rc_buttons (g r)) = length (rc_buttons r)
      \<and> length (rc_open_gestures (g r)) = length (rc_open_gestures r)"
  shows "keeps rc_live (rc_upd g)"
  by (rule always_rc_upd) (use assms in \<open>simp add: rc_live_def rc_base_def shape_ok_def moves_ok_def aim_ok_def\<close>)

lemma live_forget_move: "keeps rc_live (rc_upd (\<lambda>r. r\<lparr>rc_pending_move := None\<rparr>))"
  by (rule always_rc_upd) (simp add: rc_live_def rc_base_def shape_ok_def moves_ok_def aim_ok_def)

lemma live_pending: "rc_live (r, d) \<Longrightarrow> rc_pending_move r = Some p \<Longrightarrow> on_some_display (rc_displays r) p"
  by (auto simp: rc_live_def aim_ok_def intro: check_point_on_display split: option.splits)

lemma apply_pending_move_live: "keeps rc_live (apply_pending_move env)"
  unfolding apply_pending_move_def
proof (rule always_seq [where R = rc_live])
  show "keeps rc_live (rc_upd (\<lambda>r. if suppress_injection r then r\<lparr>rc_pending_move := None\<rparr> else r))"
    by (rule always_rc_upd) (simp add: rc_live_def rc_base_def shape_ok_def moves_ok_def aim_ok_def)
  show "keeps rc_live (h_bind rc_get (\<lambda>r. case rc_pending_move r of None \<Rightarrow> h_ok ()
      | Some p \<Rightarrow> h_seq (deliver env (MoveTo p)) (rc_upd (\<lambda>r1. r1\<lparr>rc_pending_move := None\<rparr>))))"
    by (rule always_rc_get_bind)
       (auto intro!: always_seq [OF always_weaken [OF live_deliver_move] live_forget_move] dest: live_pending split: option.split)
qed

lemma inject_live: "keeps rc_live m \<Longrightarrow> keeps rc_live (inject_unless_suppressed m)"
  unfolding inject_unless_suppressed_def by (rule always_seq [OF keeps_get]) (auto intro: always_when)

lemma require_active_live: "always rc_live (\<lambda>a s. rc_live s \<and> rc_active (fst s) = Some a) (\<lambda>_. rc_live) D require_active"
  by (rule always_require_active) auto

text \<open>A method that first needs an active display, and whose rest keeps the mode.\<close>

lemma active_live: "(\<And>a. keeps rc_live (m a)) \<Longrightarrow> keeps rc_live (h_bind require_active m)"
  by (rule always_bind [OF require_active_live], rule always_weaken [where P = rc_live]) auto

lemma receive_key_live: "keeps rc_live (receive_key env key)"
  unfolding receive_key_def Let_def
  by (intro active_live keeps_get always_if always_err always_seq [where R = rc_live] inject_live live_upd live_deliver_keys)
     (auto intro!: always_seq [where R = rc_live] live_upd live_deliver_keys split: prod.split)

lemma receive_button_live: "keeps rc_live (receive_button env b)"
  unfolding receive_button_def Let_def
  by (intro active_live keeps_get always_if always_err always_seq [where R = rc_live] always_when live_deliver live_upd)
     (auto intro!: always_seq [where R = rc_live] live_upd live_deliver_keys split: prod.split)

lemma receive_scroll_live: "keeps rc_live (receive_scroll env sc)"
  unfolding receive_scroll_def by (intro active_live always_if always_err inject_live live_deliver) auto

lemma note_normalization_live: "keeps rc_live note_normalization"
  unfolding note_normalization_def by (rule live_upd) auto

lemma apply_gesture_live: "keeps rc_live (apply_gesture env g)"
  unfolding apply_gesture_def
  by (cases "gesture_slot g")
     (auto intro!: live_deliver keeps_get note_normalization_live always_seq [where R = rc_live] live_upd
           split: option.split prod.split)

lemma receive_gesture_live: "keeps rc_live (receive_gesture env now g)"
  unfolding receive_gesture_def
  by (intro active_live always_seq [where R = rc_live] always_lift live_upd inject_live apply_gesture_live) auto

lemma receive_motion_live: "keeps rc_live (receive_motion motion)"
  unfolding receive_motion_def Let_def
proof (rule always_bind [OF require_active_live], clarify, rule always_rc_get_bind)
  fix display :: display_id and previous r d
  assume pre: "rc_live (r, d) \<and> rc_active (fst (r, d)) = Some (display, previous)"
  let ?p = "case motion of Absolute position \<Rightarrow> position
    | Relative delta \<Rightarrow> \<lparr>pt_x = f64_add (pt_x previous) (pt_x delta), pt_y = f64_add (pt_y previous) (pt_y delta)\<rparr>"
  let ?R = "\<lambda>s. rc_live s \<and> check_point (rc_displays (fst s)) display ?p = Inr ()"
  show "always (\<lambda>t. t = (r, d)) (\<lambda>_. rc_live) (\<lambda>_. rc_live) rc_live
      (h_seq (h_lift (check_point (rc_displays r) display ?p))
        (h_seq (rc_upd (\<lambda>r1. r1\<lparr>rc_pending_move := Some ?p, rc_active := Some (display, ?p)\<rparr>)) (h_ok None)))"
  proof (rule always_seq [where R = ?R])
    show "always (\<lambda>t. t = (r, d)) (\<lambda>_. ?R) (\<lambda>_. rc_live) rc_live (h_lift (check_point (rc_displays r) display ?p))"
      using pre by (auto intro!: always_lift)
    show "always ?R (\<lambda>_. rc_live) (\<lambda>_. rc_live) rc_live
        (h_seq (rc_upd (\<lambda>r1. r1\<lparr>rc_pending_move := Some ?p, rc_active := Some (display, ?p)\<rparr>)) (h_ok None))"
      by (rule always_seq [where R = rc_live], rule always_rc_upd)
         (auto simp: rc_live_def rc_base_def shape_ok_def moves_ok_def aim_ok_def)
  qed
qed

lemma with_health_live: "always rc_live (\<lambda>_. rc_live) E D (with_health f)"
  by (rule always_with_health) (simp add: rc_live_def rc_base_def shape_ok_def moves_ok_def aim_ok_def)

lemma with_sequences_live: "always rc_live (\<lambda>_. rc_live) E D (with_sequences f)"
  by (rule always_with_sequences) (simp add: rc_live_def rc_base_def shape_ok_def moves_ok_def aim_ok_def)

lemma admit_activation_live: "keeps rc_live (admit_activation env)"
  by (rule always_admit_activation) (simp add: rc_live_def rc_base_def shape_ok_def moves_ok_def aim_ok_def)

lemma receive_heartbeat_live: "keeps rc_live (receive_heartbeat held f now)"
proof -
  have pong: "keeps rc_live (h_bind (with_health g) (\<lambda>res. h_bind (or_health res) (\<lambda>_. h_ok None)))"
    for g :: "peer_health \<Rightarrow> (health_error + 'b) \<times> peer_health"
    by (intro always_bind [OF with_health_live] always_bind [where R = "\<lambda>_. rc_live"] always_or_health) auto
  have panic: "keeps rc_live (\<lambda>s. (None, s))"
    by (simp add: always_def)
  show ?thesis
    unfolding receive_heartbeat_def
    by (intro keeps_get always_seq [where R = rc_live] live_upd)
       (auto intro: pong panic split: message.split)
qed

text \<open>The position of an activation is on a display before anything of the activation happens.\<close>

definition aimed :: "display_id \<Rightarrow> point \<Rightarrow> 'k input_receiver \<times> applied \<Rightarrow> bool" where
  "aimed display p s \<longleftrightarrow> rc_live s \<and> check_point (rc_displays (fst s)) display p = Inr ()"

lemma aimed_frame:
  "keeps (aimed i p) (admit_activation env)"
  "always (aimed i p) (\<lambda>_. aimed i p) E D (with_sequences f)"
  "keeps (aimed i p) (rc_upd (\<lambda>r. r\<lparr>rc_control_as_command := c, rc_epoch := e\<rparr>))"
  by (rule always_admit_activation always_with_sequences always_rc_upd;
      simp add: aimed_def rc_live_def rc_base_def shape_ok_def moves_ok_def aim_ok_def)+

lemma aimed_live: "aimed i p s \<Longrightarrow> rc_live s"
  by (simp add: aimed_def)

lemma activate_live:
  "always (aimed i p) (\<lambda>_. rc_live) (\<lambda>_. rc_live) rc_live
     (h_seq (rc_upd (\<lambda>r1. r1\<lparr>rc_pending_move := None\<rparr>))
       (h_seq (h_bind rc_get (\<lambda>r1. h_when (\<not> suppress_injection r1) (deliver env (MoveTo p))))
         (h_seq (rc_upd (\<lambda>r1. r1\<lparr>rc_active := Some (i, p)\<rparr>)) (h_ok reply))))"
proof -
  let ?R = "\<lambda>s. aimed i p s \<and> rc_pending_move (fst s) = None"
  have move: "always ?R (\<lambda>_. ?R) (\<lambda>_. rc_live) rc_live (deliver env (MoveTo p))"
    by (rule always_deliver) (auto simp: aimed_def intro!: live_log dest: check_point_on_display)
  have "always (aimed i p) (\<lambda>_. ?R) (\<lambda>_. rc_live) rc_live (rc_upd (\<lambda>r1. r1\<lparr>rc_pending_move := None\<rparr>))"
    by (rule always_rc_upd) (simp add: aimed_def rc_live_def rc_base_def shape_ok_def moves_ok_def aim_ok_def)
  moreover have "always ?R (\<lambda>_. rc_live) (\<lambda>_. rc_live) rc_live (rc_upd (\<lambda>r1. r1\<lparr>rc_active := Some (i, p)\<rparr>))"
    by (rule always_rc_upd) (simp add: aimed_def rc_live_def rc_base_def shape_ok_def moves_ok_def aim_ok_def)
  moreover have "always ?R (\<lambda>_. ?R) (\<lambda>_. rc_live) rc_live
      (h_bind rc_get (\<lambda>r1. h_when (\<not> suppress_injection r1) (deliver env (MoveTo p))))"
    by (intro keeps_get always_when move) auto
  ultimately show ?thesis
    by (auto intro!: always_seq)
qed

lemma receive_activation_live: "keeps rc_live (receive_activation env held f i p c)"
proof -
  let ?A = "aimed i p"
  have lift: "always ?A (\<lambda>_. ?A) (\<lambda>_. rc_live) rc_live (h_lift res)" for res :: "receiver_failure + unit"
    by (rule always_lift) (auto simp: aimed_live)
  have point: "always (\<lambda>t. t = (r, d)) (\<lambda>_. ?A) (\<lambda>_. rc_live) rc_live (h_lift (check_point (rc_displays r) i p))"
    if "rc_live (r, d)" for r :: "'k input_receiver" and d
    by (rule always_lift) (use that in \<open>auto simp: aimed_def\<close>)
  note seqs = aimed_frame(2) [where E = "\<lambda>_. rc_live" and D = rc_live]
  note upd = always_weaken [OF aimed_frame(3), where Q' = "\<lambda>_. ?A" and E' = "\<lambda>_. rc_live" and D' = rc_live and P' = ?A]
  note admit = always_weaken [OF aimed_frame(1), where Q' = "\<lambda>_. ?A" and E' = "\<lambda>_. rc_live" and D' = rc_live and P' = ?A]
  show ?thesis
    unfolding receive_activation_def
    by (intro always_rc_get_bind always_if always_seq [OF point] always_bind [OF seqs] always_seq [OF lift]
          always_seq [OF upd] always_bind [OF admit])
       (auto simp: aimed_live intro!: activate_live split: sum.split)
qed

lemma release_injected_live: "always rc_live (\<lambda>_. rc_live) E D (release_injected env)"
  by (rule always_weaken [OF release_injected_keeps [where J = rc_live]])
     (auto intro: live_log, simp add: rc_live_def rc_base_def shape_ok_def moves_ok_def aim_ok_def)

lemma release_floor_live: "always rc_live (\<lambda>_. rc_live) E rc_live (release_floor env)"
  by (rule always_release_floor) (simp_all add: rc_live_def rc_base_def shape_ok_def moves_ok_def aim_ok_def)

lemma receive_release_live: "keeps rc_live (receive_release env False now)"
proof -
  have clear: "keeps rc_live (rc_upd (\<lambda>r1. r1\<lparr>rc_keys := replicate 256 False, rc_keyboard := translator_clear (rc_keyboard r1),
                rc_buttons := replicate 5 False, rc_active := None, rc_pending_move := None\<rparr>))"
    "keeps rc_live (rc_upd (\<lambda>r1. r1\<lparr>rc_open_gestures := [False, False]\<rparr>))"
    by (rule always_rc_upd, simp add: rc_live_def rc_base_def shape_ok_def moves_ok_def aim_ok_def)+
  show ?thesis
    unfolding receive_release_def
    by (intro keeps_get always_seq [where R = rc_live] always_when always_if clear release_floor_live live_upd always_err
          always_bind [OF release_injected_live])
       auto
qed

subsection \<open>A held receiver\<close>

lemma held_cleaned: "rc_held s \<longleftrightarrow> (\<exists>h. cleaned None (Some h) s)"
  by (auto simp: rc_held_def cleaned_def rc_inv_def quiet_ok_def aim_ok_def)

lemma cleaned_upd:
  assumes "\<And>r. rc_displays (g r) = rc_displays r \<and> rc_failure (g r) = rc_failure r \<and> rc_held_since (g r) = rc_held_since r
      \<and> rc_active (g r) = rc_active r \<and> rc_pending_move (g r) = rc_pending_move r \<and> rc_cleanup_pending (g r) = rc_cleanup_pending r
      \<and> rc_keys (g r) = rc_keys r \<and> rc_buttons (g r) = rc_buttons r \<and> rc_open_gestures (g r) = rc_open_gestures r
      \<and> rc_shared (g r) = rc_shared r"
  shows "always (cleaned f h) (\<lambda>_. cleaned f h) E D (rc_upd g)"
  by (rule always_rc_upd) (use assms in \<open>simp add: cleaned_def rc_base_def shape_ok_def moves_ok_def released_def calm_def\<close>)

text \<open>The barrier that ends a hold leaves everything up and the receiver working again.\<close>

lemma receiver_resume_calm:
  "always (\<lambda>s. cleaned None (Some h) s \<and> calm (fst s)) (\<lambda>_. rc_live) (\<lambda>_. rc_inv) rc_inv (receiver_resume now)"
  unfolding receiver_resume_def
  by (rule always_seq [where R = rc_live], rule always_rc_upd)
     (auto simp: cleaned_def rc_live_def rc_base_def shape_ok_def moves_ok_def aim_ok_def
           intro!: always_bind [OF with_health_live] always_or_health rc_live_inv)

lemma receive_release_held:
  "always (cleaned None (Some h)) (\<lambda>_. rc_inv) (\<lambda>_. rc_inv) rc_inv (receive_release env True now :: ('k, message option) receiver)"
proof -
  let ?C = "cleaned None (Some h) :: 'k input_receiver \<times> applied \<Rightarrow> bool"
  let ?E = "\<lambda>_ :: receiver_failure. rc_inv"
  let ?S = "\<lambda>sh s. ?C s \<and> rc_shared (fst s) = sh"
  let ?O = "\<lambda>s. ?C s \<and> rc_open_gestures (fst s) = [False, False] \<and> (rc_shared (fst s) \<or> all_up (snd s))"
  let ?M = "\<lambda>s. ?C s \<and> released s"
  have clear: "always ?O (\<lambda>_. ?M) ?E rc_inv (rc_upd (\<lambda>r1. r1\<lparr>rc_keys := replicate 256 False,
       rc_keyboard := translator_clear (rc_keyboard r1), rc_buttons := replicate 5 False, rc_active := None, rc_pending_move := None\<rparr>))"
    "always ?M (\<lambda>_. ?M) ?E rc_inv (rc_upd (\<lambda>r1. r1\<lparr>rc_cleanup_pending := False\<rparr>))"
    "always (?S True) (\<lambda>_. ?O) ?E rc_inv (rc_upd (\<lambda>r1. r1\<lparr>rc_open_gestures := [False, False]\<rparr>))"
    "always ?O (\<lambda>_. ?O) ?E rc_inv (rc_upd (\<lambda>r1. r1\<lparr>rc_gate := g r1\<rparr>))" for g :: "'k input_receiver \<Rightarrow> 'k take_back_gate"
    by (rule always_rc_upd, auto simp: cleaned_def rc_base_def shape_ok_def moves_ok_def released_def calm_def)+
  have fl: "always ?O (\<lambda>_. ?O) ?E rc_inv (release_floor env)"
    by (rule always_weaken [OF always_release_floor [where P = ?O and Q = ?O and D = ?C]])
       (auto simp: cleaned_inv, auto simp: cleaned_def rc_base_def shape_ok_def moves_ok_def released_def calm_def)
  have resume: "always ?M (\<lambda>_. rc_inv) ?E rc_inv (receiver_resume now)"
    by (rule always_weaken [OF receiver_resume_calm]) (auto intro: rc_live_inv simp: released_def)
  have close: "always (?S sh) (\<lambda>_. ?S sh) ?E rc_inv (h_when b (rc_upd (\<lambda>r1. r1\<lparr>rc_gate := g r1\<rparr>)))"
    for sh b and g :: "'k input_receiver \<Rightarrow> 'k take_back_gate"
    by (intro always_when always_rc_upd) (auto simp: cleaned_def rc_base_def shape_ok_def moves_ok_def released_def calm_def)
  have accepted: "always ?C (\<lambda>_. ?O) ?E rc_inv (h_bind (release_injected env) (\<lambda>ok.
      if ok then rc_upd (\<lambda>r1. r1\<lparr>rc_gate := note_injected_released (rc_gate r1)\<rparr>) else h_err RfNativeDelivery))"
    by (rule always_bind [OF release_injected_clean]) (auto intro!: always_weaken [OF clear(4)] simp: cleaned_inv)
  have open_up: "always (?S (rc_shared r)) (\<lambda>_. ?O) ?E rc_inv (if may_release r then h_bind (release_injected env) (\<lambda>ok.
      if ok then rc_upd (\<lambda>r1. r1\<lparr>rc_gate := note_injected_released (rc_gate r1)\<rparr>) else h_err RfNativeDelivery)
      else rc_upd (\<lambda>r1. r1\<lparr>rc_open_gestures := [False, False]\<rparr>))" for r
    using clear(3) by (auto intro: always_weaken [OF accepted] simp: may_release_def Let_def)
  have ending: "always ?M (\<lambda>_. rc_inv) ?E rc_inv
      (h_when True (h_seq (rc_upd (\<lambda>r1. r1\<lparr>rc_cleanup_pending := False\<rparr>)) (receiver_resume now)))"
    by (rule always_when [OF always_seq [OF clear(2) resume]]) auto
  show ?thesis
    unfolding receive_release_def
  proof (rule always_rc_get_bind, goal_cases)
    case (1 r d)
    show ?case
      by (rule always_weaken [where P = "?S (rc_shared r)" and Q = "\<lambda>_. rc_inv" and E = ?E and D = rc_inv],
          intro always_seq [OF close] always_seq [OF open_up] always_seq [OF fl] always_seq [OF clear(1)] always_seq [OF ending]
            always_ok)
         (use 1 in auto)
  qed
qed

lemma with_sequences_cleaned: "always (cleaned f h) (\<lambda>_. cleaned f h) E D (with_sequences g)"
  by (rule always_with_sequences) (simp add: cleaned_def rc_base_def shape_ok_def moves_ok_def released_def calm_def)

lemma receive_heartbeat_cleaned: "keeps (cleaned f h) (receive_heartbeat held fr now)"
proof -
  have pong: "keeps (cleaned f h) (h_bind (with_health g) (\<lambda>res. h_bind (or_health res) (\<lambda>_. h_ok None)))"
    for g :: "peer_health \<Rightarrow> (health_error + 'b) \<times> peer_health"
    by (intro always_bind [OF with_health_cleaned] always_bind [where R = "\<lambda>_. cleaned f h"] always_or_health) auto
  have panic: "keeps (cleaned f h) (\<lambda>s. (None, s))"
    by (simp add: always_def)
  show ?thesis
    unfolding receive_heartbeat_def
    by (intro keeps_get always_seq [where R = "cleaned f h"] cleaned_upd)
       (auto intro: pong panic split: message.split)
qed

lemma receive_activation_cleaned: "keeps (cleaned f h) (receive_activation env True fr i p c)"
  unfolding receive_activation_def
  by (intro keeps_get always_if always_err always_seq [where R = "cleaned f h"] always_lift cleaned_upd
        always_bind [OF with_sequences_cleaned] always_ok)
     auto

lemma receive_message_held:
  "always (cleaned None (Some h)) (\<lambda>_. rc_inv) (\<lambda>_. rc_inv) rc_inv (receive_message env True now m)"
  unfolding receive_message_def
  by (cases m) (auto intro: receive_release_held simp: cleaned_inv)

lemma receive_message_live: "keeps rc_live (receive_message env False now m)"
  unfolding receive_message_def
  by (cases m) (auto intro!: receive_release_live receive_key_live receive_button_live receive_scroll_live receive_motion_live
      receive_gesture_live active_live inject_live live_deliver)

lemma receive_sequenced_held:
  "always (cleaned None (Some h)) (\<lambda>_. rc_inv) (\<lambda>_. rc_inv) rc_inv (receive_sequenced env True f now)"
  unfolding receive_sequenced_def Let_def
  by (intro keeps_get always_if always_ok always_err always_bind [OF with_sequences_cleaned])
     (auto simp: cleaned_inv h_when_def intro!: always_seq [where R = "cleaned None (Some h)"] receive_message_held
           split: sum.split)

lemma receive_sequenced_live: "keeps rc_live (receive_sequenced env False f now)"
  unfolding receive_sequenced_def Let_def
  by (intro keeps_get always_if always_ok always_err always_bind [OF with_sequences_live])
     (auto intro!: always_seq [where R = rc_live] always_when apply_pending_move_live receive_message_live split: sum.split)

lemma receive_frame_held:
  "always rc_held (\<lambda>_. rc_inv) (\<lambda>_. rc_inv) rc_inv (receive_frame env True f now)"
proof -
  have "always (cleaned None (Some h)) (\<lambda>_. rc_inv) (\<lambda>_. rc_inv) rc_inv (receive_frame env True f now)" for h
    unfolding receive_frame_def
    by (intro keeps_get always_seq [where R = "cleaned None (Some h)"] always_if cleaned_upd)
       (auto simp: cleaned_inv intro: receive_sequenced_held always_weaken [OF receive_heartbeat_cleaned]
          always_weaken [OF receive_activation_cleaned] split: message.split)
  then show ?thesis
    unfolding held_cleaned by (rule always_ex_pre)
qed

lemma receive_frame_live: "keeps rc_live (receive_frame env False f now)"
  unfolding receive_frame_def
  by (intro keeps_get always_seq [where R = rc_live] always_if live_upd)
     (auto intro: receive_sequenced_live receive_heartbeat_live receive_activation_live split: message.split)

lemma receive_active_inv: "always (\<lambda>s. rc_inv s \<and> rc_failure (fst s) = None) (\<lambda>_. rc_inv) (\<lambda>_. rc_inv) rc_inv (receive_active env f now)"
  unfolding receive_active_def
proof (rule always_rc_get_bind, rule always_if, goal_cases)
  case (1 r d)
  then show ?case by (intro always_weaken [OF receive_frame_held]) (auto simp: rc_held_def)
next
  case (2 r d)
  then have live: "rc_live (r, d)" by (auto intro: rc_inv_modes)
  have hold: "always rc_live (\<lambda>_. rc_inv) (\<lambda>_. rc_inv) rc_inv (h_seq (receiver_hold env now) (receive_frame env True f now))"
    by (rule always_seq [OF always_weaken [OF receiver_hold_inv] receive_frame_held]) (auto simp: rc_live_def)
  have ok: "always rc_live (\<lambda>_. rc_inv) (\<lambda>_. rc_inv) rc_inv (receive_frame env False f now)"
    by (rule always_weaken [OF receive_frame_live]) (auto simp: rc_live_inv)
  show ?case
    by (rule always_weaken [where P = rc_live, OF always_bind [OF with_health_live]])
       (auto intro: hold ok rc_live_inv live split: sum.split)
qed

lemma receiver_receive_inv: "keeps rc_inv (receiver_receive env f now)"
  unfolding receiver_receive_def
proof (rule always_rc_get_bind, goal_cases)
  case (1 r d)
  have "always (\<lambda>s. rc_inv s \<and> rc_failure (fst s) = None) (\<lambda>_. rc_inv) (\<lambda>_. rc_inv) rc_inv
      (h_catch (receive_active env f now) (stop_err env))"
    by (rule always_catch [OF receive_active_inv]) (auto intro: always_weaken [OF stop_err_inv] rc_inv_base)
  with 1 show ?case
    by (cases "rc_failure r") (auto elim: always_weaken)
qed

subsection \<open>The other methods\<close>

lemma stop_err_live: "always rc_live Q (\<lambda>_. rc_inv) rc_inv (stop_err env failure)"
  by (rule always_weaken [OF stop_err_inv]) (auto simp: rc_live_def)

lemma retry_cleanup_inv: "keeps rc_inv (retry_cleanup env)"
proof -
  have "always (\<lambda>t. t = s) (\<lambda>_. rc_inv) (\<lambda>_. rc_inv) rc_inv (retry_cleanup env)" if "rc_inv s" for s :: "'k input_receiver \<times> applied"
  proof (cases "rc_failure (fst s) \<noteq> None \<or> rc_held_since (fst s) \<noteq> None")
    case True
    then show ?thesis
      using inv_cleaned [OF that] by (intro always_weaken [OF retry_cleanup_cleaned]) (auto simp: cleaned_inv)
  next
    case False
    then have live: "rc_live s" using that by (auto intro: rc_inv_modes)
    have clear: "keeps rc_live (rc_upd (\<lambda>r1. r1\<lparr>rc_open_gestures := [False, False], rc_keys := replicate 256 False,
                      rc_keyboard := translator_clear (rc_keyboard r1), rc_buttons := replicate 5 False,
                      rc_cleanup_pending := False\<rparr>))"
      by (rule always_rc_upd) (simp add: rc_live_def rc_base_def shape_ok_def moves_ok_def aim_ok_def)
    have "keeps rc_live (retry_cleanup env)"
      unfolding retry_cleanup_def
      by (intro keeps_get always_if always_bind [where R = "\<lambda>_. rc_live"] release_injected_live clear always_when live_upd
            release_floor_live always_seq [where R = rc_live])
         auto
    then show ?thesis by (rule always_weaken) (auto simp: live rc_live_inv)
  qed
  then show ?thesis by (rule always_states)
qed

lemma stop_err_cleaned: "always (cleaned f h) Q (\<lambda>_. rc_inv) rc_inv (stop_err env failure)"
  by (rule always_weaken [OF stop_err_inv]) (auto simp: cleaned_def)

lemma apply_pending_move_cleaned: "keeps (cleaned f h) (apply_pending_move env)"
  unfolding apply_pending_move_def
proof (rule always_seq [where R = "cleaned f h"], goal_cases)
  case 1
  show ?case by (rule always_rc_upd) (simp add: cleaned_def rc_base_def shape_ok_def moves_ok_def released_def calm_def)
next
  case 2
  show ?case by (rule always_rc_get_bind) (auto simp: cleaned_def)
qed

lemma inv_by_mode:
  assumes inv: "rc_inv s" and ok: "rc_failure (fst s) = None"
    and live: "always rc_live Q E D m" and held: "\<And>h. always (cleaned None (Some h)) Q E D m"
  shows "always (\<lambda>t. t = s) Q E D m"
proof (cases "rc_held_since (fst s)")
  case None
  show ?thesis by (rule always_weaken [OF live]) (auto intro: rc_inv_modes [OF inv ok None])
next
  case (Some h)
  show ?thesis by (rule always_weaken [OF held [of h]]) (use inv_cleaned [OF inv] ok Some in auto)
qed

lemma receiver_flush_inv: "keeps rc_inv (receiver_flush env)"
  unfolding receiver_flush_def
proof (rule always_rc_get_bind, goal_cases)
  case (1 r d)
  have live: "always rc_live (\<lambda>_. rc_inv) (\<lambda>_. rc_inv) rc_inv (h_catch (apply_pending_move env) (stop_err env))"
    by (rule always_catch [where R = "\<lambda>_. rc_live", OF always_weaken [OF apply_pending_move_live]])
       (auto intro: stop_err_live rc_live_inv)
  have held: "always (cleaned None (Some h)) (\<lambda>_. rc_inv) (\<lambda>_. rc_inv) rc_inv (h_catch (apply_pending_move env) (stop_err env))" for h
    by (rule always_catch [where R = "\<lambda>_. cleaned None (Some h)",
            OF always_weaken [OF apply_pending_move_cleaned [of None "Some h"]] stop_err_cleaned])
       (auto simp: cleaned_inv)
  show ?case
    using 1 by (cases "rc_failure r") (auto intro: inv_by_mode [OF _ _ live held])
qed

lemma end_idle_gestures_live: "always rc_live (\<lambda>_. rc_live) (\<lambda>_. rc_inv) rc_inv (end_idle_gestures env now)"
  unfolding end_idle_gestures_def
proof (intro keeps_get always_when always_seq [where R = rc_live], goal_cases)
  case 1
  show ?case by (rule always_rc_upd) (simp add: rc_live_def rc_base_def shape_ok_def moves_ok_def aim_ok_def)
next
  case 2
  show ?case by (rule always_catch [where R = "\<lambda>_. rc_live", OF always_weaken [OF live_deliver]])
      (auto intro: stop_err_live rc_live_inv)
qed auto

lemma hold_live: "always rc_live (\<lambda>_. rc_inv) (\<lambda>_. rc_inv) rc_inv (h_seq (receiver_hold env now) (h_ok x))"
proof (rule always_seq [where R = rc_inv])
  show "always rc_live (\<lambda>_. rc_inv) (\<lambda>_. rc_inv) rc_inv (receiver_hold env now)"
    by (rule always_weaken [OF receiver_hold_inv]) (auto simp: rc_live_def rc_held_def)
qed auto

lemma poll_live: "always rc_live (\<lambda>_. rc_inv) (\<lambda>_. rc_inv) rc_inv
  (h_bind (with_health g) (\<lambda>res. case res of Inr token \<Rightarrow> h_ok (map_option MsgPing token)
     | Inl e \<Rightarrow> if e = DeadlineExpired then h_seq (receiver_hold env now) (h_ok None) else stop_err env (RfHealth e)))"
  by (rule always_bind [OF with_health_live]) (auto intro: stop_err_live hold_live rc_live_inv split: sum.split)

lemma poll_held: "always (cleaned None (Some h)) (\<lambda>_. rc_inv) (\<lambda>_. rc_inv) rc_inv
  (h_seq (retry_cleanup env) (h_bind (with_health g) (\<lambda>res. case res of Inr token \<Rightarrow> h_ok (map_option MsgPing token)
     | Inl e \<Rightarrow> stop_err env (RfHealth e))))"
  by (rule always_seq [where R = "cleaned None (Some h)",
          OF always_weaken [OF retry_cleanup_cleaned [of None "Some h"]] always_bind [OF with_health_cleaned]])
     (auto intro: stop_err_cleaned simp: cleaned_inv split: sum.split)

lemma receiver_tick_inv: "keeps rc_inv (receiver_tick env now)"
  unfolding receiver_tick_def
proof (rule always_rc_get_bind, goal_cases)
  case (1 r d)
  show ?case
  proof (cases "rc_failure r")
    case (Some f)
    have "keeps rc_inv (h_seq (retry_cleanup env) (h_err f) :: ('a, message option) receiver)"
      by (rule always_seq [OF retry_cleanup_inv]) auto
    with Some 1 show ?thesis by (auto elim: always_weaken)
  next
    case None
    then show ?thesis
    proof (cases "rc_held_since r")
      case (Some h)
      have "cleaned None (Some h) (r, d)"
        using inv_cleaned [OF 1] None Some by simp
      then show ?thesis
        using None Some by (auto intro: always_weaken [OF poll_held] always_weaken [OF stop_err_cleaned])
    next
      assume none: "rc_held_since r = None"
      have "rc_live (r, d)" using 1 None none by (simp add: rc_inv_modes)
      then show ?thesis
        using None none by (auto intro: always_weaken [OF always_seq [OF end_idle_gestures_live poll_live]])
    qed
  qed
qed

lemma release_injected_inv: "always rc_inv (\<lambda>_. rc_inv) E D (release_injected env)"
  by (rule always_weaken [OF release_injected_keeps [where J = rc_inv]])
     (auto simp: rc_inv_def rc_base_def shape_ok_def moves_ok_def aim_ok_def quiet_ok_def released_def calm_def all_up_release)

lemma inv_upd:
  assumes "\<And>r. rc_displays (g r) = rc_displays r \<and> rc_failure (g r) = rc_failure r \<and> rc_held_since (g r) = rc_held_since r
      \<and> rc_active (g r) = rc_active r \<and> rc_pending_move (g r) \<in> {None, rc_pending_move r} \<and> rc_cleanup_pending (g r) = rc_cleanup_pending r
      \<and> rc_keys (g r) = rc_keys r \<and> rc_buttons (g r) = rc_buttons r \<and> rc_open_gestures (g r) = rc_open_gestures r
      \<and> rc_shared (g r) = rc_shared r"
  shows "keeps rc_inv (rc_upd g)"
proof (rule always_rc_upd, goal_cases)
  case (1 r d)
  then show ?case
    using assms [of r] by (auto simp: rc_inv_def rc_base_def shape_ok_def moves_ok_def aim_ok_def quiet_ok_def released_def calm_def)
qed

lemma stop_err_from_inv: "always rc_inv Q (\<lambda>_. rc_inv) rc_inv (stop_err env failure)"
  by (rule always_weaken [OF stop_err_inv]) (auto simp: rc_inv_base)

lemma yield_to_local_inv: "keeps rc_inv (yield_to_local env generation)"
  unfolding yield_to_local_def Let_def
  by (intro keeps_get always_if always_ok always_seq [OF inv_upd] always_bind [OF release_injected_inv] stop_err_from_inv) auto

lemma receiver_take_back_inv: "keeps rc_inv (receiver_take_back env)"
  unfolding receiver_take_back_def
  by (intro keeps_get always_if always_ok always_seq [OF inv_upd]) (auto intro: yield_to_local_inv split: option.split)

lemma receiver_stop_keeps: "keeps rc_inv (receiver_stop env failure)"
  by (rule always_weaken [OF receiver_stop_inv]) (auto simp: rc_inv_base)

section \<open>Runs\<close>

text \<open>
  Any sequence of calls of the public methods, each with what the destination answers and what the
  capture callback does to the floor during it, and any change the other threads make to the gate
  between them.
\<close>

datatype 'k receiver_op =
    OpReceive receiver_env frame duration
  | OpTick receiver_env duration
  | OpFlush receiver_env
  | OpTakeBack receiver_env
  | OpYieldToLocal receiver_env u64
  | OpStop receiver_env receiver_failure
  | OpRetryCleanup receiver_env
  | OpGate "'k take_back_gate"

fun receiver_op_step :: "'k receiver_op \<Rightarrow> 'k input_receiver \<times> applied \<Rightarrow> 'k input_receiver \<times> applied" where
  "receiver_op_step (OpReceive env f now) s = snd (receiver_receive env f now s)"
| "receiver_op_step (OpTick env now) s = snd (receiver_tick env now s)"
| "receiver_op_step (OpFlush env) s = snd (receiver_flush env s)"
| "receiver_op_step (OpTakeBack env) s = snd (receiver_take_back env s)"
| "receiver_op_step (OpYieldToLocal env generation) s = snd (yield_to_local env generation s)"
| "receiver_op_step (OpStop env failure) s = snd (receiver_stop env failure s)"
| "receiver_op_step (OpRetryCleanup env) s = snd (retry_cleanup env s)"
| "receiver_op_step (OpGate g) (r, d) = (r\<lparr>rc_gate := g\<rparr>, d)"

lemma receiver_op_inv: "rc_inv s \<Longrightarrow> rc_inv (receiver_op_step op s)"
proof (cases op)
  case (OpGate g)
  then show "rc_inv s \<Longrightarrow> ?thesis"
    by (cases s) (simp add: rc_inv_def rc_base_def shape_ok_def moves_ok_def aim_ok_def quiet_ok_def released_def calm_def)
qed (auto intro: keeps_snd [OF receiver_receive_inv] keeps_snd [OF receiver_tick_inv] keeps_snd [OF receiver_flush_inv]
  keeps_snd [OF receiver_take_back_inv] keeps_snd [OF yield_to_local_inv] keeps_snd [OF receiver_stop_keeps]
  keeps_snd [OF retry_cleanup_inv])

text \<open>The receiver as its constructors build it: alone, or one of several in a slot of a shared gate.\<close>

record 'k receiver_config =
  cfg_slot :: "floor_peer option"
  cfg_gate :: "'k take_back_gate"
  cfg_local_lower :: bool
  cfg_enabled :: bool
  cfg_platform :: platform
  cfg_source :: "platform option"
  cfg_displays :: display_topology
  cfg_epoch :: session_epoch
  cfg_now :: duration

definition receiver_built :: "'k receiver_config \<Rightarrow> 'k input_receiver" where
  "receiver_built c =
     (let r = keyboard_from (cfg_source c) (with_floor (cfg_gate c) (cfg_local_lower c) (cfg_enabled c)
                (receiver_new (cfg_platform c) (cfg_displays c) (cfg_epoch c) (cfg_now c)))
      in case cfg_slot c of None \<Rightarrow> r | Some slot \<Rightarrow> receiver_shared slot r)"

lemma receiver_built_sel [simp]:
  "rc_displays (receiver_built c) = cfg_displays c" "rc_shared (receiver_built c) = (cfg_slot c \<noteq> None)"
  "rc_open_gestures (receiver_built c) = [False, False]"
  by (auto simp: receiver_built_def keyboard_from_def with_floor_def receiver_new_def receiver_shared_def Let_def split: option.split)

definition receiver_run :: "'k receiver_config \<Rightarrow> 'k receiver_op list \<Rightarrow> 'k input_receiver \<times> applied" where
  "receiver_run c ops = fold receiver_op_step ops (receiver_built c, [])"

lemma receiver_run_inv: "rc_inv (receiver_run c ops)"
proof -
  have "rc_inv s \<Longrightarrow> rc_inv (fold receiver_op_step ops s)" for s
    by (induction ops arbitrary: s) (simp_all add: receiver_op_inv)
  moreover have "rc_inv (receiver_built c, [])"
    by (cases "cfg_slot c")
       (simp_all add: receiver_built_def keyboard_from_def receiver_new_def with_floor_def receiver_shared_def rc_inv_def
          rc_base_def shape_ok_def moves_ok_def aim_ok_def quiet_ok_def)
  ultimately show ?thesis by (simp add: receiver_run_def)
qed

text \<open>The configuration, and so the displays, are those of the start throughout.\<close>

lemma receiver_run_config: "same_config (receiver_built c) (fst (receiver_run c ops))"
proof -
  have step: "same_config r0 (fst (receiver_op_step op s))" if "same_config r0 (fst s)" for r0 s and op :: "'a receiver_op"
  proof (cases op)
    case (OpGate g)
    with that show ?thesis by (cases s) (simp add: same_config_def)
  qed (use that in \<open>auto intro: keeps_snd [OF config.receive] keeps_snd [OF config.tick] keeps_snd [OF config.flush]
        keeps_snd [OF config.take_back] keeps_snd [OF config.yield] keeps_snd [OF config.stop] keeps_snd [OF config.retry_cleanupJ]\<close>)
  have "same_config r0 (fst s) \<Longrightarrow> same_config r0 (fst (fold receiver_op_step ops s))" for r0 s
    by (induction ops arbitrary: s) (simp_all add: step)
  from this [of "receiver_built c" "(receiver_built c, [])"] show ?thesis
    by (simp add: receiver_run_def same_config_def [of "receiver_built c" "receiver_built c"])
qed

end
