(* ===== verification/Receiver_Silence.thy ===== *)
theory Receiver_Silence
  imports Receiver_Safety
begin

section \<open>When the receiver injects nothing\<close>

text \<open>
  A receiver that has failed, is held or is yielding to the local user applies nothing to the
  destination but releases, whatever arrives.
\<close>

definition released_only :: "applied \<Rightarrow> 'k input_receiver \<times> applied \<Rightarrow> bool" where
  "released_only d0 s \<longleftrightarrow> (\<exists>es. snd s = es @ d0 \<and> list_all (\<lambda>e. is_release (fst e)) es)"

lemma released_only_refl: "released_only d (r, d)"
  by (simp add: released_only_def)

lemma released_only_release: "released_only d0 (r, d) \<Longrightarrow> is_release a \<Longrightarrow> released_only d0 (r, (a, ok) # d)"
  unfolding released_only_def by (elim exE, rule exI [of _ "(a, ok) # es" for es]) auto

interpretation ro: receiver_keeps env "released_only d0" "released_only d0" "released_only d0" for env d0
  by unfold_locales
     (auto intro!: released_only_release always_release_floor, auto simp: released_only_def)

subsection \<open>While yielding\<close>

definition yielding_only :: "applied \<Rightarrow> 'k input_receiver \<times> applied \<Rightarrow> bool" where
  "yielding_only d0 s \<longleftrightarrow> released_only d0 s \<and> rc_yielding (fst s)"

lemma yo_suppressed: "yielding_only d0 (r, d) \<Longrightarrow> suppress_injection r"
  by (simp add: yielding_only_def suppress_injection_def)

lemma yo_released: "yielding_only d0 s \<Longrightarrow> released_only d0 s"
  by (simp add: yielding_only_def)

lemma yo_upd: "(\<And>r. rc_yielding (g r) = rc_yielding r) \<Longrightarrow> always (yielding_only d0) (\<lambda>_. yielding_only d0) E D (rc_upd g)"
  by (rule always_rc_upd) (simp add: yielding_only_def released_only_def)

lemma yo_sequences: "always (yielding_only d0) (\<lambda>_. yielding_only d0) E D (with_sequences g)"
  by (rule always_with_sequences) (simp add: yielding_only_def released_only_def)

lemma yo_health: "always (yielding_only d0) (\<lambda>_. yielding_only d0) E D (with_health g)"
  by (rule always_with_health) (simp add: yielding_only_def released_only_def)

lemma yo_admit: "keeps (yielding_only d0) (admit_activation env)"
  by (rule always_admit_activation) (simp add: yielding_only_def released_only_def)

lemma yo_require: "keeps (yielding_only d0) require_active"
  by (rule always_require_active) auto

text \<open>What only runs when injection is not suppressed does not run.\<close>

lemma yo_when:
  "(\<And>r. always (yielding_only d0) Q E D (f r)) \<Longrightarrow>
     always (yielding_only d0) Q E D (h_bind rc_get (\<lambda>r. h_seq (h_when (\<not> suppress_injection r) m) (f r)))"
  by (auto simp: always_def rc_get_def handler_defs yielding_only_def suppress_injection_def split: prod.splits)

lemma yo_inject: "keeps (yielding_only d0) (inject_unless_suppressed m)"
  by (auto simp: always_def inject_unless_suppressed_def rc_get_def handler_defs yielding_only_def suppress_injection_def)

lemma yo_move: "keeps (yielding_only d0) (h_bind rc_get (\<lambda>r. h_when (\<not> suppress_injection r) m))"
  by (auto simp: always_def rc_get_def handler_defs yielding_only_def suppress_injection_def)

lemmas yo_steps = keeps_get always_if always_ok always_err keeps_seq yo_upd yo_inject yo_move
  keeps_bind [OF yo_health] keeps_bind [OF yo_sequences] keeps_bind [OF yo_require] keeps_bind [OF yo_admit] always_lift

lemma yo_pending_move: "keeps (yielding_only d0) (apply_pending_move env)"
  by (auto simp: always_def apply_pending_move_def rc_get_def rc_upd_def handler_defs yielding_only_def suppress_injection_def
        released_only_def split: option.splits)

lemma yo_key: "keeps (yielding_only d0) (receive_key env key)"
  unfolding receive_key_def Let_def by (intro yo_steps) auto

lemma yo_button: "keeps (yielding_only d0) (receive_button env b)"
proof -
  have skip: "keeps (yielding_only d0) (h_bind rc_get (\<lambda>r. if c r then h_err e else h_seq (h_when (\<not> suppress_injection r) (m r)) n))"
    if "keeps (yielding_only d0) n" for c e m and n :: "('k, message option) receiver"
    using that by (auto simp: always_def rc_get_def handler_defs yielding_only_def suppress_injection_def)
  show ?thesis
    unfolding receive_button_def Let_def by (intro keeps_bind [OF yo_require] skip yo_steps) auto
qed

lemma yo_scroll: "keeps (yielding_only d0) (receive_scroll env sc)"
  unfolding receive_scroll_def by (intro yo_steps) auto

lemma yo_gesture: "keeps (yielding_only d0) (receive_gesture env now g)"
  unfolding receive_gesture_def by (intro yo_steps) auto

lemma yo_motion: "keeps (yielding_only d0) (receive_motion motion)"
  unfolding receive_motion_def Let_def by (intro keeps_bind [OF yo_require]) (auto intro!: yo_steps)

lemma yo_activation: "keeps (yielding_only d0) (receive_activation env held f i p c)"
  unfolding receive_activation_def by (intro yo_steps) (auto intro!: yo_steps split: sum.split)

lemma yo_weaken:
  "keeps (released_only d0) m \<Longrightarrow>
     always (yielding_only d0) (\<lambda>_. released_only d0) (\<lambda>_. released_only d0) (released_only d0) m"
  "keeps (yielding_only d0) m \<Longrightarrow>
     always (yielding_only d0) (\<lambda>_. released_only d0) (\<lambda>_. released_only d0) (released_only d0) m"
  by (erule always_weaken; simp add: yo_released)+

lemma yo_message:
  "always (yielding_only d0) (\<lambda>_. released_only d0) (\<lambda>_. released_only d0) (released_only d0) (receive_message env False now m)"
  unfolding receive_message_def
  by (cases m) (auto simp: yo_released intro!: yo_weaken(1) [OF ro.release] yo_weaken(2) [OF yo_key] yo_weaken(2) [OF yo_button]
      yo_weaken(2) [OF yo_scroll] yo_weaken(2) [OF yo_gesture] yo_weaken(2) [OF yo_motion] yo_weaken(2)
      keeps_bind [OF yo_require] yo_inject)

lemma yo_sequenced:
  "always (yielding_only d0) (\<lambda>_. released_only d0) (\<lambda>_. released_only d0) (released_only d0) (receive_sequenced env False f now)"
  unfolding receive_sequenced_def Let_def
  by (intro keeps_get always_if always_ok always_err keeps_bind [OF yo_sequences])
     (auto simp: yo_released intro!: keeps_seq yo_message always_when always_weaken [OF yo_pending_move] split: sum.split)

lemma yo_frame:
  "always (yielding_only d0) (\<lambda>_. released_only d0) (\<lambda>_. released_only d0) (released_only d0) (receive_frame env False f now)"
  unfolding receive_frame_def
  by (intro keeps_get always_if always_err keeps_seq yo_upd)
     (auto simp: yo_released intro: yo_sequenced yo_weaken(1) [OF ro.heartbeat] yo_weaken(2) [OF yo_activation] split: message.split)

subsection \<open>Every method of a silent receiver\<close>

definition receiver_silent :: "'k input_receiver \<Rightarrow> bool" where
  "receiver_silent r \<longleftrightarrow> rc_failure r \<noteq> None \<or> rc_held_since r \<noteq> None \<or> rc_yielding r"

abbreviation (input) releasing :: "applied \<Rightarrow> ('k, 'a) receiver \<Rightarrow> 'k input_receiver \<Rightarrow> bool" where
  "releasing d m r \<equiv> always (\<lambda>t. t = (r, d)) (\<lambda>_. released_only d) (\<lambda>_. released_only d) (released_only d) m"

lemma releasingI: "keeps (released_only d) m \<Longrightarrow> releasing d m r"
  by (erule always_weaken) (auto simp: released_only_refl)

lemma yielding_releasingI:
  "rc_yielding r \<Longrightarrow> always (yielding_only d) (\<lambda>_. released_only d) (\<lambda>_. released_only d) (released_only d) m \<Longrightarrow> releasing d m r"
  by (erule always_weaken) (auto simp: yielding_only_def released_only_refl)

lemma silent_receive_active:
  assumes "rc_held_since r \<noteq> None \<or> rc_yielding r"
  shows "releasing d (receive_active env f now) r"
proof (cases "rc_held_since r")
  case None
  have hold: "keeps (released_only d) (h_seq (receiver_hold env now) (receive_frame env True f now))"
    by (intro keeps_seq ro.hold ro.frame_held)
  have "always (yielding_only d) (\<lambda>_. released_only d) (\<lambda>_. released_only d) (released_only d)
      (h_bind (with_health (health_check now)) (\<lambda>res. case res of
           Inr _ \<Rightarrow> receive_frame env False f now
         | Inl e \<Rightarrow> if e \<noteq> DeadlineExpired then h_err (RfHealth e)
             else h_seq (receiver_hold env now) (receive_frame env True f now)))"
    by (intro keeps_bind [OF yo_health]) (auto simp: yo_released intro: yo_frame yo_weaken(1) [OF hold] split: sum.split)
  then show ?thesis
    unfolding receive_active_def using None assms
    by (intro always_rc_get_bind) (auto intro: yielding_releasingI)
next
  case (Some h)
  then show ?thesis
    unfolding receive_active_def by (intro always_rc_get_bind) (auto intro: releasingI ro.frame_held)
qed

lemma silent_receive: "receiver_silent r \<Longrightarrow> releasing d (receiver_receive env f now) r"
  unfolding receiver_receive_def
proof (rule always_rc_get_bind, goal_cases)
  case (1 r' d')
  then show ?case
  proof (cases "rc_failure r")
    case None
    with 1 have "releasing d (receive_active env f now) r"
      by (intro silent_receive_active) (auto simp: receiver_silent_def)
    then have "releasing d (h_catch (receive_active env f now) (stop_err env)) r"
      by (rule always_catch) (rule ro.stop_err)
    with None 1 show ?thesis by simp
  qed (auto simp: released_only_refl)
qed

lemma silent_flush:
  assumes "rc_inv (r, d)" "receiver_silent r"
  shows "releasing d (receiver_flush env) r"
  unfolding receiver_flush_def
proof (rule always_rc_get_bind, goal_cases)
  case (1 r' d')
  have move: "releasing d (apply_pending_move env) r" if none: "rc_failure r = None"
  proof (cases "rc_yielding r")
    case True
    then show ?thesis by (rule yielding_releasingI) (rule yo_weaken(2) [OF yo_pending_move])
  next
    case False
    with assms none have "rc_pending_move r = None"
      by (auto simp: receiver_silent_def rc_inv_def quiet_ok_def)
    then show ?thesis
      by (auto simp: always_def apply_pending_move_def rc_get_def rc_upd_def handler_defs released_only_def)
  qed
  show ?case
  proof (cases "rc_failure r")
    case None
    have "releasing d (h_catch (apply_pending_move env) (stop_err env)) r"
      by (rule always_catch [OF move [OF None]]) (rule ro.stop_err)
    with None 1 show ?thesis by simp
  qed (use 1 in \<open>auto simp: released_only_refl\<close>)
qed

lemma releasing_run: "releasing d m r \<Longrightarrow> released_only d (snd (m (r, d)))"
  using alwaysD [of "\<lambda>t. t = (r, d)" "\<lambda>_. released_only d" "\<lambda>_. released_only d" "released_only d" m "(r, d)"
      "fst (m (r, d))" "snd (m (r, d))"]
  by (auto split: option.splits sum.splits)

lemma silent_step:
  assumes "rc_inv (r, d)" "receiver_silent r"
  shows "released_only d (receiver_op_step op (r, d))"
  by (cases op)
     (auto intro!: releasing_run [OF silent_receive] releasing_run [OF silent_flush] assms
        releasing_run [OF releasingI [OF ro.tick]] releasing_run [OF releasingI [OF ro.take_back]]
        releasing_run [OF releasingI [OF ro.yield]] releasing_run [OF releasingI [OF ro.stop]]
        releasing_run [OF releasingI [OF ro.retry_cleanupJ]] simp: released_only_refl)

end
