(* ===== verification/Receiver_Floor.thy ===== *)
theory Receiver_Floor
  imports Receiver_Silence
begin

section \<open>The receiver and the floor word\<close>

text \<open>
  What the two retry loops do to the floor word, which the capture callback changes under them: that
  they end, that a claim which was released no longer stands in the word, and that an activation which
  was admitted does.
\<close>

subsection \<open>The floor loops end\<close>

text \<open>The capture callback makes at most one floor change before each attempt, and none before the last.\<close>

definition races_end :: "receiver_env \<Rightarrow> bool" where
  "races_end env \<longleftrightarrow>
     (\<exists>rs. env_races env = rs @ [\<lambda>w. w] \<and> (\<forall>f \<in> set rs. \<forall>w. f w = w \<or> floor_step w (f w)))"

lemma reachable_step: "floor_reachable w \<Longrightarrow> f w = w \<or> floor_step w (f w) \<Longrightarrow> floor_reachable (f w)"
  unfolding floor_reachable_def by (auto intro: rtranclp.rtrancl_into_rtrancl)

lemma reachable_unpack: "floor_reachable w \<Longrightarrow> \<exists>s. floor_unpack w = Some s \<and> floor_well_formed s \<and> w = floor_pack s"
  using floor_reachable_well_formed floor_unpack_pack by blast

text \<open>An attempt that does not land reports the floor it met and changes nothing.\<close>

definition floor_attempt :: "(u64 \<Rightarrow> floor_answer \<times> u64) \<Rightarrow> bool" where
  "floor_attempt f \<longleftrightarrow> (\<forall>w. floor_reachable w \<longrightarrow>
     (\<exists>s w1. f w = (Some (Inr s), w1) \<and> floor_reachable w1) \<or> f w = (map_option Inl (floor_unpack w), w))"

lemma attemptI:
  assumes "\<And>w. f w = (map_option Inl (floor_unpack w), w) \<or> (\<exists>s w1. f w = (Some (Inr s), w1))"
    and "\<And>w s w1. f w = (Some (Inr s), w1) \<Longrightarrow> floor_step w w1"
  shows "floor_attempt f"
  unfolding floor_attempt_def floor_reachable_def by (metis assms rtranclp.rtrancl_into_rtrancl)

lemma swap_attempt:
  "floor_swap_exact a b w = (map_option Inl (floor_unpack w), w) \<or> (\<exists>s w1. floor_swap_exact a b w = (Some (Inr s), w1))"
  by (auto simp: floor_swap_exact_def compare_exchange_def)

lemma transition_attempt: "floor_attempt (floor_transition a b)"
  by (rule attemptI) (auto simp: floor_transition_def floor_refuse_def Let_def swap_attempt intro: step_transition)

lemma claim_attempt: "slot \<le> MAX_SLOT \<Longrightarrow> floor_attempt (floor_claim a b slot)"
  by (rule attemptI) (auto simp: floor_claim_def floor_refuse_def swap_attempt intro: step_claim)

lemma inbound_attempt: "rc_slot r \<le> MAX_SLOT \<Longrightarrow> floor_attempt (claim_inbound r fl)"
  unfolding claim_inbound_def using transition_attempt [of fl Receiving] claim_attempt [of "rc_slot r" fl Receiving]
  by (cases "rc_shared r") (simp_all cong: floor_attempt_def)

text \<open>Nobody in between: the attempt on the floor just read lands when the edge is allowed.\<close>

lemma transition_lands:
  assumes "floor_unpack w = Some s" "floor_well_formed s" "floor_allows (fl_state s) st"
  shows "\<exists>t w1. floor_transition s st w = (Some (Inr t), w1)"
  using assms floor_pack_unpack [OF assms(1)] floor_swap_exact_at [OF assms(2) assms(2)]
  by (auto simp: floor_transition_def Let_def)

lemma attempt_fails:
  "floor_attempt f \<Longrightarrow> floor_reachable w \<Longrightarrow> f w \<noteq> (map_option Inl (floor_unpack w), w) \<Longrightarrow>
     \<exists>s w1. f w = (Some (Inr s), w1) \<and> floor_reachable w1"
  by (auto simp: floor_attempt_def)

lemma release_inbound_returns:
  assumes "\<forall>f \<in> set rs. \<forall>w. f w = w \<or> floor_step w (f w)" "floor_reachable w" "floor_unpack w = Some cur"
  shows "\<exists>w1. release_inbound (rs @ [\<lambda>w. w]) g cur w = (Some (), w1) \<and> floor_reachable w1
    \<and> \<not> is_inbound_claim (the (floor_unpack w1)) g"
  using assms
proof (induction rs arbitrary: w cur)
  case Nil
  have allows: "floor_allows (fl_state cur) Free" if "is_inbound_claim cur g"
    using that by (cases "fl_state cur") (auto simp: is_inbound_claim_def)
  have wf: "floor_well_formed cur"
    using reachable_unpack [OF Nil(2)] Nil(3) by auto
  show ?case
  proof (cases "is_inbound_claim cur g")
    case True
    then obtain t w1 where lands: "floor_transition cur Free w = (Some (Inr t), w1)"
      using transition_lands [OF Nil(3) wf allows] by blast
    then have "floor_reachable w1"
      using Nil(2) step_transition [OF lands] by (auto simp: floor_reachable_def)
    then show ?thesis
      using lands transition_result [OF lands] True
      by (subst release_inbound.simps) (auto simp: is_inbound_claim_def)
  next
    case False
    then show ?thesis using Nil by (subst release_inbound.simps) auto
  qed
next
  case (Cons f rs)
  have fw: "floor_reachable (f w)"
    using Cons.prems(1,2) by (auto intro: reachable_step)
  then obtain cur1 where cur1: "floor_unpack (f w) = Some cur1"
    using reachable_unpack by blast
  have "f w = w \<or> floor_step w (f w)" using Cons.prems(1) by simp
  show ?case
  proof (cases "is_inbound_claim cur g")
    case True
    show ?thesis
    proof (cases "floor_transition cur Free (f w) = (map_option Inl (floor_unpack (f w)), f w)")
      case failed: True
      obtain w1 where "release_inbound (rs @ [\<lambda>w. w]) g cur1 (f w) = (Some (), w1)" "floor_reachable w1"
        "\<not> is_inbound_claim (the (floor_unpack w1)) g"
        using Cons.IH [OF _ fw cur1] Cons.prems(1) by auto
      then show ?thesis
        using True failed cur1 by (subst release_inbound.simps) auto
    next
      case False
      then obtain t w1 where lands: "floor_transition cur Free (f w) = (Some (Inr t), w1)" "floor_reachable w1"
        using attempt_fails [OF transition_attempt fw] by blast
      then show ?thesis
        using transition_result [OF lands(1)] True by (subst release_inbound.simps) (auto simp: is_inbound_claim_def)
    qed
  next
    case False
    then show ?thesis using Cons.prems by (subst release_inbound.simps) auto
  qed
qed

text \<open>One turn of the admission loop, by what the attempt to claim brings.\<close>

lemma admit_turn:
  assumes "floor_reachable (tb_floor (rc_gate r))" "floor_reachable (f (tb_floor (rc_gate r)))" "rc_slot r \<le> MAX_SLOT"
    and again: "admit_decision r (gate_snapshot (rc_gate r)) = None \<Longrightarrow>
      claim_inbound r (gate_snapshot (rc_gate r)) (f (tb_floor (rc_gate r)))
        = (map_option Inl (floor_unpack (f (tb_floor (rc_gate r)))), f (tb_floor (rc_gate r))) \<Longrightarrow>
      \<not> (rc_shared r \<and> floor_unpack (f (tb_floor (rc_gate r))) = Some (gate_snapshot (rc_gate r))) \<Longrightarrow>
      \<exists>a r1. admit_loop rs (r\<lparr>rc_gate := (rc_gate r)\<lparr>tb_floor := f (tb_floor (rc_gate r))\<rparr>\<rparr>) = (Some a, r1)
        \<and> floor_reachable (tb_floor (rc_gate r1))"
  shows "\<exists>a r1. admit_loop (f # rs) r = (Some a, r1) \<and> floor_reachable (tb_floor (rc_gate r1))"
proof (cases "admit_decision r (gate_snapshot (rc_gate r))")
  case (Some a)
  then show ?thesis using assms(1) by (subst admit_loop.simps) (auto simp: Let_def)
next
  case None
  let ?w = "f (tb_floor (rc_gate r))"
  obtain cur where cur: "floor_unpack ?w = Some cur"
    using reachable_unpack [OF assms(2)] by blast
  show ?thesis
  proof (cases "claim_inbound r (gate_snapshot (rc_gate r)) ?w = (map_option Inl (floor_unpack ?w), ?w)")
    case True
    then show ?thesis
      using again [OF None True] None cur assms(2) by (subst admit_loop.simps) (auto simp: Let_def)
  next
    case False
    then obtain t w1 where lands: "claim_inbound r (gate_snapshot (rc_gate r)) ?w = (Some (Inr t), w1)" "floor_reachable w1"
      using attempt_fails [OF inbound_attempt [OF assms(3)] assms(2)] by blast
    then show ?thesis
      using None by (subst admit_loop.simps) (auto simp: Let_def open_injection_def)
  qed
qed

lemma admit_loop_returns:
  assumes "\<forall>f \<in> set rs. \<forall>w. f w = w \<or> floor_step w (f w)" "floor_reachable (tb_floor (rc_gate r))" "rc_slot r \<le> MAX_SLOT"
  shows "\<exists>a r1. admit_loop (rs @ [\<lambda>w. w]) r = (Some a, r1) \<and> floor_reachable (tb_floor (rc_gate r1))"
  using assms
proof (induction rs arbitrary: r)
  case Nil
  obtain s where s: "floor_unpack (tb_floor (rc_gate r)) = Some s" "floor_well_formed s"
    using reachable_unpack [OF Nil(2)] by blast
  then have snap: "gate_snapshot (rc_gate r) = s"
    by (simp add: gate_snapshot_def)
  have stuck: False
    if "admit_decision r s = None" "\<not> rc_shared r"
      "claim_inbound r s (tb_floor (rc_gate r)) = (map_option Inl (floor_unpack (tb_floor (rc_gate r))), tb_floor (rc_gate r))"
  proof -
    have "floor_allows (fl_state s) Receiving"
      using that(1) by (cases "fl_state s") (auto simp: admit_decision_def split: if_splits)
    then show False
      using transition_lands [OF s, of Receiving] that(2,3) s(1) by (auto simp: claim_inbound_def)
  qed
  have "\<exists>a r1. admit_loop ((\<lambda>w. w) # []) r = (Some a, r1) \<and> floor_reachable (tb_floor (rc_gate r1))"
    by (rule admit_turn) (use Nil snap s stuck in auto)
  then show ?case by simp
next
  case (Cons f rs)
  have "floor_reachable (f (tb_floor (rc_gate r)))"
    using Cons.prems(1,2) by (auto intro: reachable_step)
  with Cons show ?case
    unfolding append_Cons by (intro admit_turn Cons.IH) simp_all
qed

subsection \<open>Claims in the floor word\<close>

abbreviation floor_word :: "'k input_receiver \<times> applied \<Rightarrow> u64" where
  "floor_word s \<equiv> tb_floor (rc_gate (fst s))"

text \<open>The claim made at a generation stands: receiving at it, or the yield a take-back made of it.\<close>

definition claim_stands :: "u64 \<Rightarrow> u64 \<Rightarrow> bool" where
  "claim_stands w g \<longleftrightarrow> (\<exists>fl. floor_unpack w = Some fl \<and>
     (fl_state fl = Receiving \<and> fl_generation fl = g \<or>
      fl_state fl = Yielding \<and> (fl_generation fl = g \<or> unat (fl_generation fl) = unat g + 1)))"

definition inbound_word :: "u64 \<Rightarrow> bool" where
  "inbound_word w \<longleftrightarrow> (\<exists>fl. floor_unpack w = Some fl \<and> (fl_state fl = Receiving \<or> fl_state fl = Yielding))"

lemma checked_add_next:
  fixes g h :: u64
  shows "checked_add g 1 = Some h \<longleftrightarrow> unat h = unat g + 1"
proof
  assume "unat h = unat g + 1"
  moreover have "unat h < 2 ^ 64" using unsigned_less [of h] by simp
  ultimately have "checked_add g 1 = Some (g + 1)" "h = g + 1"
    by (auto simp: checked_add_def word_unat_eq_iff unat_word_ariths)
  then show "checked_add g 1 = Some h" by simp
qed (use checked_add_Some [of g 1 h] in simp)

lemma claim_stands_iff: "floor_unpack w = Some fl \<Longrightarrow> claim_stands w g \<longleftrightarrow> is_inbound_claim fl g"
  by (cases "fl_state fl") (auto simp: claim_stands_def is_inbound_claim_def checked_add_next)

lemma inbound_owner: "floor_state_owner st = Some Inbound \<longleftrightarrow> st = Receiving \<or> st = Yielding"
  by (cases st) auto

text \<open>An attempt that fails answers with the floor it left.\<close>

lemma attempt_refused: "floor_transition a b w = (Some (Inl c), w1) \<Longrightarrow> floor_unpack w1 = Some c"
  "floor_claim a b p w = (Some (Inl c), w1) \<Longrightarrow> floor_unpack w1 = Some c"
  by (auto simp: floor_transition_def floor_claim_def floor_refuse_def floor_swap_exact_def compare_exchange_def Let_def
      split: if_splits)

lemma claim_result:
  assumes "floor_claim a st p w = (Some (Inr t), w1)" "p \<le> MAX_SLOT"
  shows "fl_state t = st \<and> fl_peer t = p \<and> floor_unpack w1 = Some t"
proof -
  have "fl_state t = st \<and> fl_peer t = p"
    using assms by (auto simp: floor_claim_def floor_refuse_def floor_swap_exact_Inr split: if_splits)
  moreover have "floor_unpack w1 = Some t"
    using floor_claim_Inr [OF assms] by (auto simp: floor_follows_def floor_unpack_pack)
  ultimately show ?thesis by simp
qed

lemma inbound_result:
  assumes "claim_inbound r fl w = (Some (Inr t), w1)" "rc_slot r \<le> MAX_SLOT"
  shows "fl_state t = Receiving \<and> (rc_shared r \<longrightarrow> fl_peer t = rc_slot r) \<and> floor_unpack w1 = Some t"
  using assms transition_result [of fl Receiving w t w1] claim_result [of fl Receiving "rc_slot r" w t w1]
  by (auto simp: claim_inbound_def split: if_splits)

lemma inbound_refused: "claim_inbound r fl w = (Some (Inl c), w1) \<Longrightarrow> floor_unpack w1 = Some c"
  by (auto simp: claim_inbound_def attempt_refused split: if_splits)

lemma release_inbound_ends:
  assumes "release_inbound races g cur w = (Some (), w1)" "floor_unpack w = Some cur"
  shows "floor_unpack w1 \<noteq> None \<and> \<not> claim_stands w1 g \<and> (claim_stands w g \<or> w1 = w)"
  using assms
proof (induction races arbitrary: cur w)
  case Nil
  then show ?case by (subst (asm) release_inbound.simps) (auto simp: claim_stands_iff split: if_splits)
next
  case (Cons f rs)
  show ?case
  proof (cases "is_inbound_claim cur g")
    case False
    then show ?thesis using Cons.prems by (subst (asm) release_inbound.simps) (auto simp: claim_stands_iff)
  next
    case True
    have run: "release_inbound (f # rs) g cur w = (Some (), w1)" by fact
    obtain out w2 where step: "floor_transition cur Free (f w) = (out, w2)" by fastforce
    have here: "claim_stands w g" using True Cons.prems(2) by (simp add: claim_stands_iff)
    from run True step consider t where "out = Some (Inr t)" "w1 = w2"
      | c where "out = Some (Inl c)" "release_inbound rs g c w2 = (Some (), w1)"
      by (subst (asm) release_inbound.simps) (auto split: option.splits sum.splits)
    then show ?thesis
    proof cases
      case 1
      then show ?thesis
        using transition_result [of cur Free "f w"] step here by (fastforce simp: claim_stands_def)
    next
      case 2
      then show ?thesis
        using Cons.IH [of c w2] attempt_refused(1) [of cur Free "f w"] step here by auto
    qed
  qed
qed

text \<open>
  What an admitted activation leaves. The claim was made in this call: the word is receiving at the
  generation recorded and admission is open for it. Or the floor was found inbound and the claim is the
  one recorded before; a receiver that shares the floor then checked that this claim stands.
\<close>

definition claim_held :: "u64 option \<Rightarrow> 'k input_receiver \<Rightarrow> bool" where
  "claim_held g0 r \<longleftrightarrow> (\<exists>g fl. rc_floor_generation r = Some g \<and> floor_unpack (tb_floor (rc_gate r)) = Some fl \<and>
     (rc_shared r \<longrightarrow> fl_peer fl = rc_slot r) \<and>
     (fl_state fl = Receiving \<and> fl_generation fl = g \<and> tb_admission (rc_gate r) = g \<or>
      g0 = Some g \<and> (fl_state fl = Receiving \<or> fl_state fl = Yielding) \<and>
        (rc_shared r \<longrightarrow> claim_stands (tb_floor (rc_gate r)) g)))"

lemma admit_decided:
  assumes "admit_decision r fl = Some (Inr ())" "floor_unpack (tb_floor (rc_gate r)) = Some fl"
  shows "claim_held (rc_floor_generation r) r"
proof -
  have "(fl_state fl = Receiving \<or> fl_state fl = Yielding) \<and> holds_floor r fl"
    using assms(1) by (cases "fl_state fl") (auto simp: admit_decision_def split: if_splits)
  then show ?thesis
    using assms(2) by (auto simp: claim_held_def holds_floor_def claim_stands_iff split: option.splits)
qed

lemma admit_loop_holds:
  assumes "admit_loop races r = (Some (Inr ()), r1)" "floor_unpack (tb_floor (rc_gate r)) \<noteq> None" "rc_slot r \<le> MAX_SLOT"
  shows "claim_held (rc_floor_generation r) r1"
  using assms
proof (induction races arbitrary: r)
  case Nil
  then show ?case
    by (subst (asm) admit_loop.simps) (auto simp: Let_def gate_snapshot_def intro: admit_decided split: option.splits)
next
  case (Cons f rs)
  obtain fl where fl: "floor_unpack (tb_floor (rc_gate r)) = Some fl" using Cons.prems(2) by auto
  then have snap: "gate_snapshot (rc_gate r) = fl" by (simp add: gate_snapshot_def)
  have run: "admit_loop (f # rs) r = (Some (Inr ()), r1)" by fact
  obtain claimed w where c: "claim_inbound r fl (f (tb_floor (rc_gate r))) = (claimed, w)" by fastforce
  show ?case
  proof (cases "admit_decision r fl")
    case (Some a)
    then show ?thesis using run fl snap by (subst (asm) admit_loop.simps) (auto simp: Let_def intro: admit_decided)
  next
    case None
    from run None snap c consider t where "claimed = Some (Inr t)"
        "r1 = r\<lparr>rc_floor_generation := Some (fl_generation t),
          rc_gate := open_injection (fl_generation t) ((rc_gate r)\<lparr>tb_floor := w\<rparr>)\<rparr>"
      | cur where "claimed = Some (Inl cur)" "admit_loop rs (r\<lparr>rc_gate := (rc_gate r)\<lparr>tb_floor := w\<rparr>\<rparr>) = (Some (Inr ()), r1)"
      by (subst (asm) admit_loop.simps) (auto simp: Let_def split: option.splits sum.splits if_splits)
    then show ?thesis
    proof cases
      case 1
      then show ?thesis
        using inbound_result [of r fl] c Cons.prems(3) by (fastforce simp: claim_held_def open_injection_def)
    next
      case 2
      then show ?thesis
        using Cons.IH [OF 2(2)] inbound_refused [of r fl] c Cons.prems(3) by simp
    qed
  qed
qed

end
