(* ===== verification/Receiver_Replies.thy ===== *)
theory Receiver_Replies
  imports Receiver_Floor
begin

section \<open>What the receiver answers, and that it answers\<close>

text \<open>
  Every method returns, since the retry loops on the floor end; the gestures reach the destination with
  their phases in order; and a reply to the source is given only when what it says is done, at the
  destination and in the floor word as well as in the receiver.
\<close>

subsection \<open>Every method returns\<close>

definition floor_in_order :: "'k input_receiver \<times> applied \<Rightarrow> bool" where
  "floor_in_order s \<longleftrightarrow> floor_reachable (tb_floor (rc_gate (fst s))) \<and> rc_slot (fst s) \<le> MAX_SLOT"

lemma release_floor_returns:
  assumes "races_end env"
  shows "always floor_in_order (\<lambda>_. floor_in_order) E (\<lambda>_. False) (release_floor env)"
  unfolding always_def
proof (intro allI impI, goal_cases)
  case (1 s)
  obtain rs where rs: "env_races env = rs @ [\<lambda>w. w]" "\<forall>f \<in> set rs. \<forall>w. f w = w \<or> floor_step w (f w)"
    using assms by (auto simp: races_end_def)
  obtain r d where s: "s = (r, d)" by fastforce
  obtain cur where cur: "floor_unpack (tb_floor (rc_gate r)) = Some cur"
    using reachable_unpack 1 by (auto simp: floor_in_order_def s)
  have reach: "floor_reachable (tb_floor (rc_gate r))" "rc_slot r \<le> MAX_SLOT"
    using 1 by (simp_all add: floor_in_order_def s)
  show ?case
  proof (cases "rc_floor_generation r")
    case None
    then show ?thesis using reach by (simp add: release_floor_def s floor_in_order_def)
  next
    case (Some g)
    obtain w1 where "release_inbound (rs @ [\<lambda>w. w]) g cur (tb_floor (rc_gate r)) = (Some (), w1)" "floor_reachable w1"
      using release_inbound_returns [OF rs(2) reach(1) cur, of g] by blast
    then show ?thesis
      using Some reach cur by (simp add: release_floor_def s floor_in_order_def rs(1) gate_snapshot_def)
  qed
qed

lemma admit_activation_returns:
  assumes "races_end env"
  shows "always floor_in_order (\<lambda>_. floor_in_order) E (\<lambda>_. False) (admit_activation env)"
  unfolding always_def
proof (intro allI impI, goal_cases)
  case (1 s)
  obtain rs where rs: "env_races env = rs @ [\<lambda>w. w]" "\<forall>f \<in> set rs. \<forall>w. f w = w \<or> floor_step w (f w)"
    using assms by (auto simp: races_end_def)
  obtain r d where s: "s = (r, d)" by fastforce
  obtain a r1 where run: "admit_loop (rs @ [\<lambda>w. w]) r = (Some a, r1)" "floor_reachable (tb_floor (rc_gate r1))"
    using admit_loop_returns [OF rs(2), of r] 1 by (auto simp: floor_in_order_def s)
  have "rc_slot r1 = rc_slot r"
    using admit_loop_frame [OF run(1)] by (metis input_receiver.select_convs(3) input_receiver.update_convs(1,2) input_receiver.surjective)
  then show ?case
    using 1 run by (auto simp: admit_activation_def s rs(1) floor_in_order_def)
qed

text \<open>Under \<open>races_end\<close> the methods keep the floor in order and none runs for ever.\<close>

definition bounded_env :: "receiver_env \<Rightarrow> receiver_env" where
  "bounded_env env = (if races_end env then env else env\<lparr>env_races := [\<lambda>w. w]\<rparr>)"

lemma bounded_env_races: "races_end (bounded_env env)"
  by (auto simp: bounded_env_def races_end_def)

interpretation returning: receiver_keeps_all "bounded_env env" floor_in_order floor_in_order "\<lambda>_. False" for env
  by unfold_locales
     (auto simp: floor_in_order_def benign_def same_config_def
        intro: always_weaken [OF release_floor_returns [OF bounded_env_races]] admit_activation_returns [OF bounded_env_races]
          apply_gesture_keeps)

lemma bounded_env_id: "races_end env \<Longrightarrow> bounded_env env = env"
  by (simp add: bounded_env_def)

lemma method_returns:
  assumes "always floor_in_order (\<lambda>_. floor_in_order) (\<lambda>_. floor_in_order) (\<lambda>_. False) m" "floor_in_order s"
  shows "\<exists>out t. m s = (Some out, t) \<and> floor_in_order t"
  using alwaysD [OF assms, of "fst (m s)" "snd (m s)"] by (cases "m s") (auto split: option.splits sum.splits)

subsection \<open>Gesture phases\<close>

text \<open>What a destination sees of one continuous kind: begun, changed any number of times, ended once.\<close>

fun phase_next :: "gesture_phase \<Rightarrow> bool \<Rightarrow> bool option" where
  "phase_next Began opened = (if opened then None else Some True)"
| "phase_next Changed opened = (if opened then Some True else None)"
| "phase_next Ended opened = (if opened then Some False else None)"
| "phase_next Cancelled opened = (if opened then Some False else None)"

fun phase_step :: "destination_action \<Rightarrow> bool \<times> bool \<Rightarrow> (bool \<times> bool) option" where
  "phase_step (DestGesture (Magnify phase _)) (m, t) = map_option (\<lambda>m1. (m1, t)) (phase_next phase m)"
| "phase_step (DestGesture (Rotate phase _)) (m, t) = map_option (\<lambda>t1. (m, t1)) (phase_next phase t)"
| "phase_step EndGestures _ = Some (False, False)"
| "phase_step DestReleaseAll _ = Some (False, False)"
| "phase_step _ s = Some s"

text \<open>The phases open after a log, or none if a phase came out of order.\<close>

fun phases_open :: "applied \<Rightarrow> (bool \<times> bool) option" where
  "phases_open [] = Some (False, False)"
| "phases_open ((a, _) # d) = Option.bind (phases_open d) (phase_step a)"

definition phases_kept :: "'k input_receiver \<times> applied \<Rightarrow> bool" where
  "phases_kept s \<longleftrightarrow> (rc_shared (fst s) \<or>
     (\<exists>m t. phases_open (snd s) = Some (m, t) \<and> rc_open_gestures (fst s) = [m, t]))"

definition phases_ordered :: "'k input_receiver \<times> applied \<Rightarrow> bool" where
  "phases_ordered s \<longleftrightarrow> rc_shared (fst s) \<or> phases_open (snd s) \<noteq> None"

lemma apply_gesture_phases: "always phases_kept (\<lambda>_. phases_kept) (\<lambda>_. phases_ordered) D (apply_gesture env g)"
proof (cases g)
  case (Magnify phase x)
  then show ?thesis
    by (cases phase)
       (auto simp: always_def apply_gesture_def gesture_repair_def deliver_def dest_apply_def note_normalization_def rc_get_def
          rc_upd_def handler_defs phases_kept_def phases_ordered_def split: if_splits)
next
  case (Rotate phase x)
  then show ?thesis
    by (cases phase)
       (auto simp: always_def apply_gesture_def gesture_repair_def deliver_def dest_apply_def note_normalization_def rc_get_def
          rc_upd_def handler_defs phases_kept_def phases_ordered_def split: if_splits)
qed (auto simp: always_def apply_gesture_def deliver_def dest_apply_def handler_defs phases_kept_def phases_ordered_def)

lemma phase_step_other: "\<not> is_release a \<Longrightarrow> \<not> is_gesture a \<Longrightarrow> phase_step a s = Some s"
  by (cases a; cases s) auto

lemma phases_admit: "always phases_kept (\<lambda>_. phases_kept) (\<lambda>_. phases_kept) phases_kept (admit_activation env)"
  by (rule always_admit_activation) (simp add: phases_kept_def)

interpretation phases: receiver_keeps_all env phases_kept phases_ordered phases_kept for env
  by unfold_locales
     (auto simp: phases_kept_def phases_ordered_def benign_def same_config_def phase_step_other apply_gesture_phases phases_admit
        intro!: always_release_floor)

subsection \<open>Replies\<close>

text \<open>
  A release is acknowledged only when nothing is down, no display is active, the claim made before, if
  any, no longer stands in the floor word, and both release actions were accepted last; a receiver that
  shares its destination may leave the release out while the floor is another's inbound claim. An
  activation is acknowledged only when the floor word is this receiver's claim and the pointer was put
  where the source said, unless the local user has taken the floor back.
\<close>

definition released_or_foreign :: "'k input_receiver \<times> applied \<Rightarrow> bool" where
  "released_or_foreign s \<longleftrightarrow>
     (\<exists>d. snd s = (DestReleaseAll, True) # (EndGestures, True) # d) \<or> rc_shared (fst s) \<and> inbound_word (floor_word s)"

definition claim_gone :: "u64 option \<Rightarrow> 'k input_receiver \<times> applied \<Rightarrow> bool" where
  "claim_gone g0 s \<longleftrightarrow> (\<forall>g. g0 = Some g \<longrightarrow> \<not> claim_stands (floor_word s) g)"

definition at_rest :: "u64 option \<Rightarrow> 'k input_receiver \<times> applied \<Rightarrow> bool" where
  "at_rest g0 s \<longleftrightarrow>
     calm (fst s) \<and> rc_active (fst s) = None \<and> rc_pending_move (fst s) = None \<and> rc_floor_generation (fst s) = None \<and>
     \<not> rc_yielding (fst s) \<and> rc_held_since (fst s) = None \<and> rc_failure (fst s) = None \<and>
     claim_gone g0 s \<and> released_or_foreign s"

definition engaged :: "u64 option \<Rightarrow> frame \<Rightarrow> display_id \<Rightarrow> 'k input_receiver \<times> applied \<Rightarrow> bool" where
  "engaged g0 f i s \<longleftrightarrow>
     (\<exists>p c. fr_message f = MsgActivateDisplayAt i p c \<and> rc_active (fst s) = Some (i, p) \<and> rc_pending_move (fst s) = None \<and>
        claim_held g0 (fst s) \<and>
        (rc_yielding (fst s) \<or> (\<exists>fl. floor_unpack (floor_word s) = Some fl \<and> fl_state fl = Yielding) \<or>
         (\<exists>d. snd s = (MoveTo p, True) # d)))"

definition reply_true :: "u64 option \<Rightarrow> frame \<Rightarrow> message option \<Rightarrow> 'k input_receiver \<times> applied \<Rightarrow> bool" where
  "reply_true g0 f m s \<longleftrightarrow>
     (m = Some MsgReleaseAck \<longrightarrow> at_rest g0 s) \<and> (\<forall>i. m = Some (MsgActivationAck i) \<longrightarrow> engaged g0 f i s)"

abbreviation (input) truthful ::
    "u64 option \<Rightarrow> frame \<Rightarrow> ('k input_receiver \<times> applied \<Rightarrow> bool) \<Rightarrow> ('k, message option) receiver \<Rightarrow> bool" where
  "truthful g0 f P m \<equiv> always P (reply_true g0 f) (\<lambda>_ _. True) (\<lambda>_. True) m"

lemma always_top: "always P (\<lambda>_ _. True) (\<lambda>_ _. True) (\<lambda>_. True) m"
  by (auto simp: always_def split: prod.split option.split sum.split)

lemma reply_true_simps [simp]:
  "reply_true g0 f None s" "reply_true g0 f (Some (MsgPong t)) s" "reply_true g0 f (Some (MsgActivationDeclined i reason)) s"
  by (simp_all add: reply_true_def)

lemma reply_other:
  "m \<noteq> Some MsgReleaseAck \<Longrightarrow> (\<And>i. m \<noteq> Some (MsgActivationAck i)) \<Longrightarrow> truthful g0 f P (h_ok m)"
  by (auto simp: reply_true_def)

lemmas quiet_steps = keeps_get always_if always_err always_seq [OF always_top] always_bind [OF always_top] reply_other

lemma quiet_inject: "truthful g0 f P (inject_unless_suppressed m)"
  unfolding inject_unless_suppressed_def by (intro quiet_steps) auto

lemma quiet_heartbeat: "truthful g0 f P (receive_heartbeat held fr now)"
  unfolding receive_heartbeat_def
  by (intro quiet_steps)
     (auto intro!: quiet_steps simp: always_def [of _ _ _ _ "\<lambda>s. (None, s)"] split: message.split)

lemma quiet_input: "truthful g0 f P (receive_key env key)" "truthful g0 f P (receive_button env b)"
  "truthful g0 f P (receive_scroll env sc)" "truthful g0 f P (receive_gesture env now g)" "truthful g0 f P (receive_motion motion)"
  unfolding receive_key_def receive_button_def receive_scroll_def receive_gesture_def receive_motion_def Let_def
  by (intro quiet_steps quiet_inject; auto intro!: quiet_steps)+

subsubsection \<open>The claim between the steps of a method\<close>

text \<open>
  A generation names one claim: where the floor word stands at the generation a receiver of several has
  recorded, it is that receiver's slot.
\<close>

definition own_claim :: "'k input_receiver \<Rightarrow> bool" where
  "own_claim r \<longleftrightarrow> (\<forall>g fl. rc_shared r \<and> rc_floor_generation r = Some g \<and> floor_unpack (tb_floor (rc_gate r)) = Some fl \<and>
     claim_stands (tb_floor (rc_gate r)) g \<longrightarrow> fl_peer fl = rc_slot r)"

definition tracked :: "u64 option \<Rightarrow> 'k input_receiver \<times> applied \<Rightarrow> bool" where
  "tracked g0 s \<longleftrightarrow>
     floor_unpack (floor_word s) \<noteq> None \<and> rc_slot (fst s) \<le> MAX_SLOT \<and> own_claim (fst s) \<and>
     (rc_floor_generation (fst s) = g0 \<or> rc_floor_generation (fst s) = None \<and> claim_gone g0 s)"

definition foreign :: "'k input_receiver \<times> applied \<Rightarrow> bool" where
  "foreign s \<longleftrightarrow> rc_shared (fst s) \<and> inbound_word (floor_word s) \<and>
     (\<forall>g. rc_floor_generation (fst s) = Some g \<longrightarrow> \<not> claim_stands (floor_word s) g)"

lemma own_claim_none [simp]: "rc_floor_generation r = None \<Longrightarrow> own_claim r"
  by (simp add: own_claim_def)

lemma own_claim_keep:
  assumes "tb_floor (rc_gate r1) = tb_floor (rc_gate r)" "rc_floor_generation r1 = rc_floor_generation r"
    "rc_shared r1 = rc_shared r" "rc_slot r1 = rc_slot r"
  shows "own_claim r1 \<longleftrightarrow> own_claim r"
  by (simp only: own_claim_def assms)

lemma tracked_keep:
  assumes "tracked g0 (r, d)" "tb_floor (rc_gate r1) = tb_floor (rc_gate r)" "rc_floor_generation r1 = rc_floor_generation r"
    "rc_shared r1 = rc_shared r" "rc_slot r1 = rc_slot r"
  shows "tracked g0 (r1, d1)"
  using assms own_claim_keep [OF assms(2-5)] by (simp add: tracked_def claim_gone_def)

lemma foreign_keep:
  assumes "foreign (r, d)" "tb_floor (rc_gate r1) = tb_floor (rc_gate r)" "rc_floor_generation r1 = rc_floor_generation r"
    "rc_shared r1 = rc_shared r"
  shows "foreign (r1, d1)"
  using assms unfolding foreign_def by simp

lemma tracked_upd:
  assumes "\<And>r. tb_floor (rc_gate (g r)) = tb_floor (rc_gate r) \<and> rc_floor_generation (g r) = rc_floor_generation r \<and>
    rc_shared (g r) = rc_shared r \<and> rc_slot (g r) = rc_slot r"
  shows "always (tracked g0) (\<lambda>_. tracked g0) E D (rc_upd g)"
  by (rule always_rc_upd) (erule tracked_keep; simp add: assms)

lemma not_may_release:
  assumes "\<not> may_release r" "tracked g0 (r, d)"
  shows "foreign (r, d)"
proof -
  obtain fl where fl: "floor_unpack (tb_floor (rc_gate r)) = Some fl" using assms(2) by (auto simp: tracked_def)
  then have "rc_shared r" "\<not> holds_floor r fl" "fl_state fl = Receiving \<or> fl_state fl = Yielding"
    using assms(1) by (auto simp: may_release_def gate_snapshot_def inbound_owner Let_def)
  then show ?thesis
    using assms(2) fl
    by (auto simp: foreign_def inbound_word_def tracked_def own_claim_def holds_floor_def claim_stands_iff split: option.splits)
qed

lemma release_floor_effect:
  assumes "release_floor env (r, d) = (Some (Inr ()), (r1, d1))" "tracked g0 (r, d)"
  shows "floor_unpack (tb_floor (rc_gate r1)) \<noteq> None \<and> claim_gone g0 (r1, d1) \<and> (foreign (r, d) \<longrightarrow> floor_word (r1, d1) = floor_word (r, d))"
proof (cases "rc_floor_generation r")
  case None
  then show ?thesis using assms by (auto simp: release_floor_def tracked_def claim_gone_def)
next
  case (Some g)
  obtain fl where fl: "floor_unpack (tb_floor (rc_gate r)) = Some fl" using assms(2) by (auto simp: tracked_def)
  have g0: "g0 = Some g" using assms(2) Some by (simp add: tracked_def)
  obtain w where w: "release_inbound (env_races env) g fl (tb_floor (rc_gate r)) = (Some (), w)" "tb_floor (rc_gate r1) = w"
    using assms(1) Some fl by (auto simp: release_floor_def gate_snapshot_def split: prod.splits option.splits)
  show ?thesis
    using release_inbound_ends [OF w(1) fl] w(2) g0 Some by (auto simp: claim_gone_def foreign_def)
qed

lemma always_release_claim:
  assumes "\<And>r d. P (r, d) \<Longrightarrow> tracked g0 (r, d)"
    and "\<And>r d gate. P (r, d) \<Longrightarrow> floor_unpack (tb_floor gate) \<noteq> None \<Longrightarrow> claim_gone g0 (r\<lparr>rc_gate := gate\<rparr>, d) \<Longrightarrow>
      (foreign (r, d) \<longrightarrow> tb_floor gate = tb_floor (rc_gate r)) \<Longrightarrow>
      Q (r\<lparr>rc_gate := gate, rc_floor_generation := None, rc_yielding := False\<rparr>, d)"
  shows "always P (\<lambda>_. Q) E (\<lambda>_. True) (release_floor env)"
  unfolding always_def
proof (intro allI impI)
  fix s assume "P s"
  obtain r d out r1 d1 where s: "s = (r, d)" and run: "release_floor env (r, d) = (out, (r1, d1))"
    by (metis surj_pair)
  note frame = release_floor_frame [OF run]
  have "Q (r1, d1)" if "out = Some (Inr ())"
  proof -
    have fx: "floor_unpack (tb_floor (rc_gate r1)) \<noteq> None" "claim_gone g0 (r\<lparr>rc_gate := rc_gate r1\<rparr>, d)"
        "foreign (r, d) \<longrightarrow> tb_floor (rc_gate r1) = tb_floor (rc_gate r)"
      using release_floor_effect [of env r d r1 d1 g0] run that assms(1) [of r d] \<open>P s\<close> by (auto simp: s claim_gone_def)
    have "r1 = r\<lparr>rc_gate := rc_gate r1, rc_floor_generation := None, rc_yielding := False\<rparr>" "d1 = d"
      using frame that by auto
    then show ?thesis using assms(2) [OF _ fx] \<open>P s\<close> s by metis
  qed
  then show "case release_floor env s of (None, t) \<Rightarrow> True | (Some (Inl e), t) \<Rightarrow> E e t | (Some (Inr x), t) \<Rightarrow> Q t"
    using frame by (auto simp: s run)
qed

text \<open>A hold keeps track of the claim.\<close>

lemma release_floor_tracked: "always (tracked g0) (\<lambda>_. tracked g0) E (\<lambda>_. True) (release_floor env)"
  by (rule always_release_claim [where ?g0.0 = g0]) (auto simp: tracked_def claim_gone_def)

lemma release_injected_tracked: "always (tracked g0) (\<lambda>_. tracked g0) E D (release_injected env)"
  by (rule always_release_injected) (erule tracked_keep; simp)

lemma gate_frame:
  "tb_floor (open_injection a g) = tb_floor g" "tb_floor (note_injected_released g) = tb_floor g"
  by (simp_all add: open_injection_def note_injected_released_def note_injection_change_def)

lemma retry_cleanup_tracked: "always (tracked g0) (\<lambda>_. tracked g0) E (\<lambda>_. True) (retry_cleanup env)"
  unfolding retry_cleanup_def
  by (intro keeps_get always_if always_ok always_bind [where R = "\<lambda>_. tracked g0"] release_injected_tracked keeps_seq tracked_upd
        always_when release_floor_tracked)
     (auto simp: gate_frame)

lemma close_native_tracked: "always (tracked g0) (\<lambda>_. tracked g0) E D close_native"
  unfolding close_native_def by (intro keeps_get keeps_seq always_when tracked_upd) (auto simp: gate_frame)

lemma stop_err_errs: "always P Q (\<lambda>_ _. True) (\<lambda>_. True) (stop_err env e)"
  by (auto simp: always_def stop_err_def h_bind_def h_err_def split: prod.splits option.splits sum.splits)

lemma receiver_hold_tracked:
  "always (tracked g0) (\<lambda>_. tracked g0) (\<lambda>_ _. True) (\<lambda>_. True) (receiver_hold env now)"
proof -
  have health: "always (tracked g0) (\<lambda>_. tracked g0) E D (with_health g)" for E D and g :: "peer_health \<Rightarrow> (health_error + 'b) \<times> peer_health"
    by (rule always_with_health) (erule tracked_keep; simp)
  show ?thesis
    unfolding receiver_hold_def
    by (intro keeps_seq close_native_tracked retry_cleanup_tracked keeps_bind [OF health])
       (auto intro!: stop_err_errs tracked_upd split: sum.split)
qed

subsubsection \<open>Releases\<close>

definition mode :: "bool \<Rightarrow> 'k input_receiver \<times> applied \<Rightarrow> bool" where
  "mode held s \<longleftrightarrow> rc_failure (fst s) = None \<and> (rc_held_since (fst s) \<noteq> None) = held"

text \<open>The claim as it was when the call began, or gone in the hold that began it.\<close>

definition ready :: "bool \<Rightarrow> u64 option \<Rightarrow> 'k input_receiver \<times> applied \<Rightarrow> bool" where
  "ready held g0 s \<longleftrightarrow> mode held s \<and> tracked g0 s \<and> (held \<or> rc_floor_generation (fst s) = g0)"

lemma ready_keep:
  assumes "ready held g0 (r, d)" "tb_floor (rc_gate r1) = tb_floor (rc_gate r)" "rc_floor_generation r1 = rc_floor_generation r"
    "rc_shared r1 = rc_shared r" "rc_slot r1 = rc_slot r" "rc_failure r1 = rc_failure r" "rc_held_since r1 = rc_held_since r"
  shows "ready held g0 (r1, d1)"
  using assms tracked_keep [of g0 r d r1 d1] unfolding ready_def mode_def by simp

lemma ready_upd:
  assumes "\<And>r. tb_floor (rc_gate (g r)) = tb_floor (rc_gate r) \<and> rc_floor_generation (g r) = rc_floor_generation r \<and>
    rc_shared (g r) = rc_shared r \<and> rc_slot (g r) = rc_slot r \<and> rc_failure (g r) = rc_failure r \<and> rc_held_since (g r) = rc_held_since r"
  shows "always (ready held g0) (\<lambda>_. ready held g0) E D (rc_upd g)"
  by (rule always_rc_upd) (erule ready_keep; simp add: assms)

lemma with_sequences_ready: "always (ready held g0) (\<lambda>_. ready held g0) E D (with_sequences g)"
  by (rule always_with_sequences) (erule ready_keep; simp)

definition calm_released :: "u64 option \<Rightarrow> 'k input_receiver \<times> applied \<Rightarrow> bool" where
  "calm_released g0 s \<longleftrightarrow>
     calm (fst s) \<and> rc_active (fst s) = None \<and> rc_pending_move (fst s) = None \<and> rc_floor_generation (fst s) = None \<and>
     \<not> rc_yielding (fst s) \<and> rc_failure (fst s) = None \<and> claim_gone g0 s \<and> released_or_foreign s"

lemma receiver_resume_replies:
  "always (calm_released g0) (\<lambda>_. at_rest g0) (\<lambda>_ _. True) (\<lambda>_. True) (receiver_resume now)"
  unfolding receiver_resume_def
  by (rule always_seq [where R = "at_rest g0"], rule always_rc_upd)
     (auto simp: at_rest_def calm_released_def calm_def claim_gone_def released_or_foreign_def split: option.split
        intro!: always_bind [where R = "\<lambda>_. at_rest g0", OF always_with_health] always_or_health)

text \<open>The destination released, or left to the inbound claim of another; then the claim given up.\<close>

definition accepted_last :: "applied \<Rightarrow> bool" where
  "accepted_last d \<longleftrightarrow> (\<exists>d1. d = (DestReleaseAll, True) # (EndGestures, True) # d1)"

definition settled :: "bool \<Rightarrow> u64 option \<Rightarrow> 'k input_receiver \<times> applied \<Rightarrow> bool" where
  "settled held g0 s \<longleftrightarrow> ready held g0 s \<and> rc_open_gestures (fst s) = [False, False] \<and> (accepted_last (snd s) \<or> foreign s)"

definition given_up :: "bool \<Rightarrow> u64 option \<Rightarrow> 'k input_receiver \<times> applied \<Rightarrow> bool" where
  "given_up held g0 s \<longleftrightarrow> mode held s \<and> rc_open_gestures (fst s) = [False, False] \<and>
     rc_floor_generation (fst s) = None \<and> \<not> rc_yielding (fst s) \<and> claim_gone g0 s \<and> released_or_foreign s"

lemma release_settles:
  assumes "may_release r \<or> foreign (r, [])"
  shows "always (\<lambda>s. ready held g0 s \<and> (foreign (r, []) \<longrightarrow> foreign s)) (\<lambda>_. settled held g0) (\<lambda>_ _. True) (\<lambda>_. True)
    (if may_release r then h_bind (release_injected env) (\<lambda>ok.
         if ok then rc_upd (\<lambda>r1. r1\<lparr>rc_gate := note_injected_released (rc_gate r1)\<rparr>) else h_err RfNativeDelivery)
     else rc_upd (\<lambda>r1. r1\<lparr>rc_open_gestures := [False, False]\<rparr>))"
proof (cases "may_release r")
  case True
  have release: "always (ready held g0) (\<lambda>ok s. ready held g0 s \<and> rc_open_gestures (fst s) = [False, False] \<and> (ok \<longrightarrow> accepted_last (snd s)))
      (\<lambda>_ _. True) (\<lambda>_. True) (release_injected env)"
    by (rule always_release_injected) (auto elim: ready_keep simp: accepted_last_def)
  have note_up: "always (\<lambda>s. ready held g0 s \<and> rc_open_gestures (fst s) = [False, False] \<and> accepted_last (snd s)) (\<lambda>_. settled held g0)
      (\<lambda>_ _. True) (\<lambda>_. True) (rc_upd (\<lambda>r1. r1\<lparr>rc_gate := note_injected_released (rc_gate r1)\<rparr>))"
    by (rule always_rc_upd) (auto elim: ready_keep simp: gate_frame settled_def)
  have "always (ready held g0) (\<lambda>_. settled held g0) (\<lambda>_ _. True) (\<lambda>_. True) (h_bind (release_injected env) (\<lambda>ok.
         if ok then rc_upd (\<lambda>r1. r1\<lparr>rc_gate := note_injected_released (rc_gate r1)\<rparr>) else h_err RfNativeDelivery))"
    by (rule always_bind [OF release]) (auto intro: always_weaken [OF note_up])
  then show ?thesis using True by (auto intro: always_weaken)
next
  case False
  have "always (\<lambda>s. ready held g0 s \<and> foreign s) (\<lambda>_. settled held g0) (\<lambda>_ _. True) (\<lambda>_. True)
      (rc_upd (\<lambda>r1. r1\<lparr>rc_open_gestures := [False, False]\<rparr>))"
    by (rule always_rc_upd) (auto elim: ready_keep simp: settled_def foreign_def)
  then show ?thesis using False assms by (auto intro: always_weaken)
qed

lemma settled_gives_up: "always (settled held g0) (\<lambda>_. given_up held g0) E (\<lambda>_. True) (release_floor env)"
proof (rule always_release_claim [where ?g0.0 = g0], goal_cases)
  case (1 r d)
  then show ?case by (simp add: settled_def ready_def)
next
  case (2 r d gate)
  then show ?case
    by (auto simp: settled_def given_up_def ready_def mode_def claim_gone_def released_or_foreign_def accepted_last_def foreign_def)
qed

lemma given_up_ends:
  "truthful g0 f (given_up held g0)
     (h_seq (rc_upd (\<lambda>r1. r1\<lparr>rc_keys := replicate 256 False, rc_keyboard := translator_clear (rc_keyboard r1),
         rc_buttons := replicate 5 False, rc_active := None, rc_pending_move := None\<rparr>))
       (h_seq (h_when held (h_seq (rc_upd (\<lambda>r1. r1\<lparr>rc_cleanup_pending := False\<rparr>)) (receiver_resume now)))
         (h_ok (Some MsgReleaseAck))))"
proof -
  let ?C = "\<lambda>s. calm_released g0 s \<and> mode held s"
  have clear: "always (given_up held g0) (\<lambda>_. ?C) (\<lambda>_ _. True) (\<lambda>_. True) (rc_upd (\<lambda>r1. r1\<lparr>rc_keys := replicate 256 False,
      rc_keyboard := translator_clear (rc_keyboard r1), rc_buttons := replicate 5 False, rc_active := None, rc_pending_move := None\<rparr>))"
    by (rule always_rc_upd) (auto simp: given_up_def mode_def calm_def calm_released_def claim_gone_def released_or_foreign_def)
  have drop: "always ?C (\<lambda>_. calm_released g0) (\<lambda>_ _. True) (\<lambda>_. True) (rc_upd (\<lambda>r1. r1\<lparr>rc_cleanup_pending := False\<rparr>))"
    by (rule always_rc_upd) (auto simp: calm_def calm_released_def claim_gone_def released_or_foreign_def)
  have resumed: "always ?C (\<lambda>_. at_rest g0) (\<lambda>_ _. True) (\<lambda>_. True)
      (h_when held (h_seq (rc_upd (\<lambda>r1. r1\<lparr>rc_cleanup_pending := False\<rparr>)) (receiver_resume now)))"
    by (rule always_when, rule always_seq [OF drop receiver_resume_replies]) (auto simp: mode_def at_rest_def calm_released_def)
  show ?thesis by (rule always_seq [OF clear always_seq [OF resumed always_ok]]) (simp add: reply_true_def)
qed

lemma receive_release_truthful: "truthful g0 f (ready held g0) (receive_release env held now)"
  unfolding receive_release_def
proof (rule always_rc_get_bind, goal_cases)
  case (1 r d)
  let ?G = "\<lambda>s. ready held g0 s \<and> (foreign (r, []) \<longrightarrow> foreign s)"
  have gate: "always ?G (\<lambda>_. ?G) (\<lambda>_ _. True) (\<lambda>_. True) (h_when b (rc_upd (\<lambda>r1. r1\<lparr>rc_gate := open_injection CLOSED (rc_gate r1)\<rparr>)))" for b
    by (intro always_when always_rc_upd) (auto elim: ready_keep foreign_keep simp: gate_frame)
  have "may_release r \<or> foreign (r, [])"
    using not_may_release [of r g0 d] 1 by (auto simp: ready_def foreign_def)
  note body = always_seq [OF gate always_seq [OF release_settles [OF this] always_seq [OF settled_gives_up given_up_ends]]]
  show ?case by (rule always_weaken [OF body]) (use 1 in \<open>auto simp: foreign_def\<close>)
qed

subsubsection \<open>Activations\<close>

lemma admit_activation_claims:
  "always (ready False g0) (\<lambda>a s. a = Inr () \<longrightarrow> claim_held g0 (fst s)) (\<lambda>_ _. True) (\<lambda>_. True) (admit_activation env)"
  using admit_loop_holds
  by (fastforce simp: always_def admit_activation_def ready_def tracked_def split: prod.split option.split)

lemma claim_held_keep: "claim_held g0 r \<Longrightarrow> claim_held g0 (r\<lparr>rc_active := a\<rparr>)" "claim_held g0 r \<Longrightarrow> claim_held g0 (r\<lparr>rc_pending_move := m\<rparr>)"
  by (simp_all add: claim_held_def)

text \<open>Where the claim is held, only a take-back suppresses injection.\<close>

lemma suppressed_when_held:
  assumes "claim_held g0 r" "suppress_injection r"
  shows "rc_yielding r \<or> (\<exists>fl. floor_unpack (tb_floor (rc_gate r)) = Some fl \<and> fl_state fl = Yielding)"
proof -
  obtain g fl where fl: "rc_floor_generation r = Some g" "floor_unpack (tb_floor (rc_gate r)) = Some fl"
      "rc_shared r \<longrightarrow> fl_peer fl = rc_slot r"
      "fl_state fl = Receiving \<and> fl_generation fl = g \<or> (rc_shared r \<longrightarrow> claim_stands (tb_floor (rc_gate r)) g)"
    using assms(1) by (auto simp: claim_held_def)
  then have "rc_shared r \<longrightarrow> holds_floor r fl"
    by (auto simp: holds_floor_def claim_stands_iff is_inbound_claim_def)
  then show ?thesis
    using assms(2) fl(2) by (auto simp: suppress_injection_def gate_snapshot_def Let_def)
qed

lemma receive_activation_truthful:
  assumes "fr_message f = MsgActivateDisplayAt i p c"
  shows "truthful g0 f (ready False g0) (receive_activation env False f i p c)"
proof -
  let ?C = "\<lambda>s. claim_held g0 (fst s)"
  let ?N = "\<lambda>s. ?C s \<and> rc_pending_move (fst s) = None"
  let ?M = "\<lambda>s. ?N s \<and> (suppress_injection (fst s) \<or> (\<exists>d. snd s = (MoveTo p, True) # d))"
  have move: "always ?N (\<lambda>_. ?M) (\<lambda>_ _. True) (\<lambda>_. True)
      (h_bind rc_get (\<lambda>r1. h_when (\<not> suppress_injection r1) (deliver env (MoveTo p))))"
    by (auto simp: always_def rc_get_def deliver_def dest_apply_def handler_defs)
  have pend: "always ?C (\<lambda>_. ?N) (\<lambda>_ _. True) (\<lambda>_. True) (rc_upd (\<lambda>r1. r1\<lparr>rc_pending_move := None\<rparr>))"
    by (rule always_rc_upd) (simp add: claim_held_keep)
  have act: "always ?M (\<lambda>_. engaged g0 f i) (\<lambda>_ _. True) (\<lambda>_. True) (rc_upd (\<lambda>r1. r1\<lparr>rc_active := Some (i, p)\<rparr>))"
  proof (rule always_rc_upd)
    fix r d assume "?M (r, d)"
    then show "engaged g0 f i (r\<lparr>rc_active := Some (i, p)\<rparr>, d)"
      using suppressed_when_held [of g0 r] claim_held_keep(1) [of g0 r "Some (i, p)"] unfolding engaged_def assms by auto
  qed
  have acked: "truthful g0 f ?C (h_seq (rc_upd (\<lambda>r1. r1\<lparr>rc_pending_move := None\<rparr>))
      (h_seq (h_bind rc_get (\<lambda>r1. h_when (\<not> suppress_injection r1) (deliver env (MoveTo p))))
        (h_seq (rc_upd (\<lambda>r1. r1\<lparr>rc_active := Some (i, p)\<rparr>)) (h_ok (Some (MsgActivationAck i))))))"
    by (intro always_seq [OF pend] always_seq [OF move] always_seq [OF act] always_ok) (simp add: reply_true_def)
  have lift: "always (ready False g0) (\<lambda>_. ready False g0) (\<lambda>_ _. True) (\<lambda>_. True) (h_lift res)" for res :: "receiver_failure + unit"
    by (rule always_lift) auto
  show ?thesis
    unfolding receive_activation_def
    by (intro keeps_get always_if always_err keeps_seq [OF lift] keeps_bind [OF with_sequences_ready] keeps_seq [OF ready_upd]
          reply_other always_bind [OF admit_activation_claims])
       (auto split: sum.split intro: always_weaken [OF acked])
qed

lemma receive_activation_held: "truthful g0 f P (receive_activation env True fr i p c)"
  unfolding receive_activation_def by (simp, intro quiet_steps) auto

subsubsection \<open>Frames\<close>

lemma receive_message_truthful: "truthful g0 f (ready held g0) (receive_message env held now m)"
proof (cases m)
  case (MsgSystemGesture g)
  then show ?thesis
    unfolding receive_message_def by (auto intro!: always_bind [OF always_top] quiet_inject reply_other)
qed (auto simp: receive_message_def intro: receive_release_truthful quiet_input)

lemma apply_pending_move_ready: "always (ready held g0) (\<lambda>_. ready held g0) (\<lambda>_ _. True) (\<lambda>_. True) (apply_pending_move env)"
  unfolding apply_pending_move_def
proof (rule keeps_seq, goal_cases)
  case 1
  show ?case by (rule ready_upd) simp
next
  case 2
  have deliver: "always (ready held g0) (\<lambda>_. ready held g0) (\<lambda>_ _. True) (\<lambda>_. True) (deliver env a)" for a
    by (rule always_deliver) (auto elim: ready_keep)
  show ?case by (rule keeps_get) (auto intro!: keeps_seq deliver ready_upd split: option.split)
qed

lemma receive_sequenced_truthful: "truthful g0 f (ready held g0) (receive_sequenced env held fr now)"
  unfolding receive_sequenced_def Let_def
  by (intro keeps_get always_if always_err reply_other keeps_bind [OF with_sequences_ready])
     (auto intro!: keeps_seq always_when apply_pending_move_ready receive_message_truthful split: sum.split)

lemma receive_frame_truthful: "truthful g0 f (ready held g0) (receive_frame env held f now)"
proof -
  have "truthful g0 f (ready held g0) (receive_activation env held f i p c)" if "fr_message f = MsgActivateDisplayAt i p c" for i p c
    using receive_activation_truthful [OF that] receive_activation_held by (cases held) auto
  then show ?thesis
    unfolding receive_frame_def
    by (intro keeps_get keeps_seq [OF ready_upd] always_if always_err)
       (auto intro: quiet_heartbeat receive_sequenced_truthful split: message.split)
qed

lemma receive_active_truthful:
  "truthful g0 f (\<lambda>s. rc_inv s \<and> rc_failure (fst s) = None \<and> tracked g0 s \<and> rc_floor_generation (fst s) = g0) (receive_active env f now)"
  unfolding receive_active_def
proof (rule always_rc_get_bind, rule always_if, goal_cases)
  case (1 r d)
  then show ?case by (intro always_weaken [OF receive_frame_truthful [where held = True]]) (auto simp: ready_def mode_def)
next
  case (2 r d)
  let ?L = "\<lambda>s. rc_live s \<and> ready False g0 s"
  have live: "?L (r, d)" using 2 by (auto intro: rc_inv_modes simp: ready_def mode_def)
  have health: "always ?L (\<lambda>_. ?L) (\<lambda>_ _. True) (\<lambda>_. True) (with_health g)"
    for g :: "peer_health \<Rightarrow> (health_error + unit) \<times> peer_health"
    by (rule always_with_health)
       (auto elim: ready_keep simp: rc_live_def rc_base_def shape_ok_def moves_ok_def aim_ok_def)
  have "always ?L (\<lambda>_ s. rc_held s \<and> tracked g0 s) (\<lambda>_ _. True) (\<lambda>_. True) (receiver_hold env now)"
    by (rule always_weaken [OF always_conj [OF receiver_hold_inv receiver_hold_tracked [of g0]]]) (auto simp: rc_live_def ready_def)
  then have held: "always ?L (\<lambda>_. ready True g0) (\<lambda>_ _. True) (\<lambda>_. True) (receiver_hold env now)"
    by (rule always_weaken) (auto simp: rc_held_def ready_def mode_def)
  have ok: "truthful g0 f ?L (receive_frame env False f now)"
    by (rule always_weaken [OF receive_frame_truthful]) auto
  show ?case
    by (rule always_weaken [where P = ?L and Q = "reply_true g0 f" and E = "\<lambda>_ _. True" and D = "\<lambda>_. True",
            OF always_bind [OF health]])
       (use live in \<open>auto intro: always_seq [OF held receive_frame_truthful] ok split: sum.split\<close>)
qed

lemma receive_truthful:
  "truthful g0 f (\<lambda>s. rc_inv s \<and> tracked g0 s \<and> rc_floor_generation (fst s) = g0) (receiver_receive env f now)"
  unfolding receiver_receive_def
proof (rule always_rc_get_bind, goal_cases)
  case (1 r d)
  have "truthful g0 f (\<lambda>s. rc_inv s \<and> rc_failure (fst s) = None \<and> tracked g0 s \<and> rc_floor_generation (fst s) = g0)
      (h_catch (receive_active env f now) (stop_err env))"
    by (rule always_catch [OF receive_active_truthful stop_err_errs])
  then show ?case using 1 by (cases "rc_failure r") (auto elim: always_weaken)
qed

section \<open>Properties\<close>

lemma phases_step: "phases_kept s \<Longrightarrow> phases_kept (receiver_op_step op s)"
proof (cases op)
  case (OpGate g)
  then show "phases_kept s \<Longrightarrow> ?thesis" by (cases s) (simp add: phases_kept_def)
qed (auto intro: keeps_snd [OF phases.receive] keeps_snd [OF phases.tick] keeps_snd [OF phases.flush]
  keeps_snd [OF phases.take_back] keeps_snd [OF phases.yield] keeps_snd [OF phases.retry_cleanupJ]
  keeps_snd [OF always_weaken [OF phases.stop]] phases.weak)

text \<open>What a cleanup that gets done has done at the destination.\<close>

definition lifted :: "'k input_receiver \<Rightarrow> applied \<Rightarrow> applied \<Rightarrow> bool" where
  "lifted r d d1 \<longleftrightarrow> d1 = (DestReleaseAll, True) # (EndGestures, True) # d \<or>
     rc_shared r \<and> d1 = d \<and> (\<forall>fl. floor_unpack (tb_floor (rc_gate r)) = Some fl \<longrightarrow> fl_state fl = Receiving \<or> fl_state fl = Yielding)"

lemma retry_cleanup_lifts:
  assumes "rc_cleanup_pending r"
  shows "always (\<lambda>t. t = (r, d)) (\<lambda>_ s. rc_cleanup_pending (fst s) \<or> lifted r d (snd s)) E (\<lambda>_. True) (retry_cleanup env)"
proof -
  let ?R = "\<lambda>ok s. if ok then lifted r d (snd s) else rc_cleanup_pending (fst s)"
  have release: "always (\<lambda>t. t = (r, d)) ?R E (\<lambda>_. True) (release_injected env)"
    by (rule always_release_injected) (use assms in \<open>auto simp: lifted_def\<close>)
  have skip: "lifted r d d" if "\<not> may_release r"
    using that by (auto simp: lifted_def may_release_def gate_snapshot_def inbound_owner Let_def)
  have first: "always (\<lambda>t. t = (r, d)) ?R E (\<lambda>_. True) (if may_release r then release_injected env else h_ok True)"
    using release skip by auto
  have rest: "always (\<lambda>s. lifted r d (snd s)) (\<lambda>_ s. lifted r d (snd s)) E (\<lambda>_. True) (h_seq (rc_upd g1) (h_seq (h_when b (rc_upd g2)) (release_floor env)))"
    for g1 g2 b
    by (intro keeps_seq always_when always_rc_upd always_release_floor) auto
  have body: "always (\<lambda>t. t = (r, d)) (\<lambda>_ s. rc_cleanup_pending (fst s) \<or> lifted r d (snd s)) E (\<lambda>_. True)
      (h_bind (if may_release r then release_injected env else h_ok True) (\<lambda>ok. if \<not> ok then h_ok ()
         else h_seq (rc_upd g1) (h_seq (h_when (may_release r) (rc_upd g2)) (release_floor env))))" for g1 g2
    by (rule always_bind [OF first]) (auto intro: always_weaken [OF rest])
  show ?thesis
    unfolding retry_cleanup_def by (rule always_rc_get_bind) (use body assms in auto)
qed

text \<open>
  C5: In every run of a receiver, whatever frames arrive, whatever the destination answers and however
  the capture callback changes the floor, the pointer is only ever moved to a point inside one of the
  displays of the session. A receiver that has stopped or is held has no active display and no pending
  move, and unless its cleanup is still due its own record is clear and, when it is the only receiver of
  its destination, nothing may be down there: every press and gesture applied since, accepted or not,
  was followed by an accepted release. A cleanup that gets done has had both release actions accepted,
  or belongs to a receiver that shares the destination while the floor is held inbound, and then
  touches nothing.
\<close>

theorem receiver_aims_and_cleans:
  assumes "receiver_run c ops = (r, d)"
  shows "(\<forall>p ok. (MoveTo p, ok) \<in> set d \<longrightarrow> on_some_display (cfg_displays c) p)
    \<and> (rc_failure r \<noteq> None \<or> rc_held_since r \<noteq> None \<longrightarrow>
        rc_active r = None \<and> rc_pending_move r = None \<and> (rc_cleanup_pending r \<or> calm r)
        \<and> (cfg_slot c = None \<longrightarrow> rc_cleanup_pending r \<or> all_up d))
    \<and> (\<forall>env r1 d1. rc_cleanup_pending r \<and> retry_cleanup env (r, d) = (Some (Inr ()), (r1, d1)) \<and> \<not> rc_cleanup_pending r1 \<longrightarrow>
        d1 = (DestReleaseAll, True) # (EndGestures, True) # d
        \<or> rc_shared r \<and> d1 = d \<and> (\<forall>fl. floor_unpack (tb_floor (rc_gate r)) = Some fl \<longrightarrow> fl_state fl = Receiving \<or> fl_state fl = Yielding))"
proof -
  have config: "rc_displays r = cfg_displays c" "rc_shared r \<longleftrightarrow> cfg_slot c \<noteq> None"
    using receiver_run_config [of c ops] assms by (simp_all add: same_config_def)
  have "lifted r d d1" if "rc_cleanup_pending r" "retry_cleanup env (r, d) = (Some (Inr ()), (r1, d1))" "\<not> rc_cleanup_pending r1" for env r1 d1
    using alwaysD [OF retry_cleanup_lifts [OF that(1)] refl that(2)] that(3) by simp
  then show ?thesis
    using receiver_run_inv [of c ops] assms config
    by (auto simp: rc_inv_def rc_base_def moves_ok_def quiet_ok_def released_def lifted_def)
qed

text \<open>
  C4: Once a receiver has failed, is held for a stalled link or yields to the local user, no method applies
  anything to the destination but the two release actions, whatever it is given.
\<close>

theorem receiver_silent_injects_nothing:
  assumes "receiver_run c ops = (r, d)" "rc_failure r \<noteq> None \<or> rc_held_since r \<noteq> None \<or> rc_yielding r"
  shows "\<exists>es. snd (receiver_op_step op (r, d)) = es @ d \<and> list_all (\<lambda>e. is_release (fst e)) es"
  using silent_step [of r d op] receiver_run_inv [of c ops] assms
  by (simp add: receiver_silent_def released_only_def)

text \<open>
  C6: A reply tells the source the truth, of the destination and of the floor word. With the floor word one
  that the floor writes, and a generation naming one claim, a release is acknowledged only in a state
  with no key, button or gesture recorded down, no active display, no hold and no failure, in which the
  claim the receiver had no longer stands in the floor word, and the last two actions were both release
  actions and were accepted - or, for a receiver that shares its destination, the floor is held inbound.
  An activation is acknowledged only with that display active at the position the source gave, with the
  floor word receiving at the generation recorded and admission open for it, or inbound under the claim
  recorded before, for this receiver's slot when it shares the floor, and with the pointer moved there as
  the last action and accepted, unless the local user has taken the floor back.
\<close>

theorem receiver_replies_truthfully:
  assumes "receiver_run c ops = (r, d)" "floor_in_order (r, d)" "own_claim r"
    and "receiver_receive env f now (r, d) = (Some (Inr reply), t)"
  shows "(reply = Some MsgReleaseAck \<longrightarrow> at_rest (rc_floor_generation r) t) \<and>
    (\<forall>i. reply = Some (MsgActivationAck i) \<longrightarrow> engaged (rc_floor_generation r) f i t)"
proof -
  have "tracked (rc_floor_generation r) (r, d)"
    using assms(2,3) reachable_unpack by (fastforce simp: tracked_def floor_in_order_def)
  then show ?thesis
    using alwaysD [OF receive_truthful [of "rc_floor_generation r" f env now] _ assms(4)] receiver_run_inv [of c ops] assms(1)
    by (simp add: reply_true_def)
qed

text \<open>
  C7: The gestures a receiver that owns its destination applies keep the contract of the destination: of each
  continuous kind a begin, any number of changes and one end, in that order, over every run, with missing
  begins and ends supplied and stray ends dropped, and the open gestures the receiver records are those
  open at the destination.
\<close>

theorem gesture_phases_in_order:
  assumes "cfg_slot c = None"
  shows "\<exists>m t. phases_open (snd (receiver_run c ops)) = Some (m, t) \<and> rc_open_gestures (fst (receiver_run c ops)) = [m, t]"
proof -
  have "phases_kept s \<Longrightarrow> phases_kept (fold receiver_op_step ops s)" for s
    by (induction ops arbitrary: s) (simp_all add: phases_step)
  moreover have start: "phases_kept (receiver_built c, [])" "\<not> rc_shared (receiver_built c)"
    using assms by (auto simp: phases_kept_def)
  ultimately have "phases_kept (receiver_run c ops)"
    by (simp add: receiver_run_def)
  moreover have "\<not> rc_shared (fst (receiver_run c ops))"
    using receiver_run_config [of c ops] start(2) by (simp add: same_config_def)
  ultimately show ?thesis by (simp add: phases_kept_def)
qed

text \<open>
  C8: Every method returns. Whatever frame, time and state, if the floor word is one the floor writes and the
  capture callback makes at most one change of the floor before each attempt and leaves the last attempt
  alone, the retry loops end, the method returns a result, and the floor is in order afterwards.
\<close>

theorem receiver_methods_return:
  assumes "races_end env" "floor_in_order s"
  shows "(\<exists>out t. receiver_receive env f now s = (Some out, t) \<and> floor_in_order t)
    \<and> (\<exists>out t. receiver_tick env now s = (Some out, t) \<and> floor_in_order t)
    \<and> (\<exists>out t. receiver_flush env s = (Some out, t) \<and> floor_in_order t)
    \<and> (\<exists>out t. receiver_take_back env s = (Some out, t) \<and> floor_in_order t)
    \<and> (\<exists>out t. receiver_stop env failure s = (Some out, t) \<and> floor_in_order t)"
  using assms(2) returning.receive [of env f now] returning.tick [of env now] returning.flush [of env]
    returning.take_back [of env] returning.stop [where env = env and E = "\<lambda>_. floor_in_order" and failure = failure]
  unfolding bounded_env_id [OF assms(1)] by (blast intro: method_returns)

section \<open>A sample session\<close>

definition sample_env :: receiver_env where
  "sample_env = \<lparr>env_answer = \<lambda>_ _. True, env_races = [\<lambda>w. w]\<rparr>"

definition sample_point :: point where
  "sample_point = point_new 0x3FF0000000000000 0x3FF0000000000000"

definition sample_screen :: display_description where
  "sample_screen =
     \<lparr>dd_id = 1, dd_name = [], dd_native_width = 8, dd_native_height = 8, dd_logical_origin = point_new 0 0,
      dd_logical_size = point_new 0x4020000000000000 0x4020000000000000, dd_scale_factor = 0x3F800000, dd_is_primary = True,
      dd_monitor = None\<rparr>"

definition sample_config :: "unit receiver_config" where
  "sample_config =
     \<lparr>cfg_slot = None, cfg_gate = gate_new floor_new, cfg_local_lower = False, cfg_enabled = True, cfg_platform = MacOs,
      cfg_source = None, cfg_displays = [sample_screen], cfg_epoch = 1, cfg_now = 0\<rparr>"

lemma sample_point_ok: "check_point [sample_screen] 1 sample_point = Inr ()"
  by (simp add: check_point_def sample_screen_def sample_point_def logical_bounds_def rect_contains_half_open_def max_x_def
      max_y_def point_new_def point_is_finite_def sample_eight) (simp add: f64_compute)

lemma sample_floor: "floor_unpack floor_new = Some \<lparr>fl_state = Free, fl_generation = 1, fl_peer = FLOOR_NONE\<rparr>"
  by (simp add: floor_new_def floor_unpack_pack floor_new_well_formed)

lemma sample_claim:
  "floor_transition \<lparr>fl_state = Free, fl_generation = 1, fl_peer = FLOOR_NONE\<rparr> Receiving floor_new =
     (Some (Inr \<lparr>fl_state = Receiving, fl_generation = 2, fl_peer = FLOOR_SOLE\<rparr>), 
      floor_pack \<lparr>fl_state = Receiving, fl_generation = 2, fl_peer = FLOOR_SOLE\<rparr>)"
  using floor_new_well_formed floor_swap_exact_at [OF floor_new_well_formed floor_new_well_formed]
  by (simp add: floor_transition_def floor_new_def floor_next_def MAX_GENERATION_eq word_le_nat_alt)

lemmas receiver_eval = receiver_receive_def receive_active_def receive_frame_def receive_activation_def receive_sequenced_def
  receive_message_def receive_release_def receiver_stop_def stop_err_def close_native_def retry_cleanup_def release_injected_def
  release_floor_def admit_activation_def with_health_def with_sequences_def dest_apply_def deliver_def rc_get_def rc_upd_def
  handler_defs owns_native_def may_release_def holds_floor_def suppress_injection_def gate_snapshot_def

lemma sample_fields:
  "receiver_built sample_config =
     \<lparr>rc_gate = gate_new floor_new, rc_floor_generation = None, rc_slot = FLOOR_SOLE, rc_shared = False,
      rc_local_lower = False, rc_enabled = True, rc_yielding = False, rc_displays = [sample_screen], rc_epoch = 1,
      rc_sequences = \<lparr>sg_active_epoch = Some 1, sg_reliable_sequence = None, sg_motion_sequence = None, sg_heartbeat_sequence = None\<rparr>,
      rc_control_epoch = 1,
      rc_control_sequences = \<lparr>sg_active_epoch = Some 1, sg_reliable_sequence = None, sg_motion_sequence = None, sg_heartbeat_sequence = None\<rparr>,
      rc_limiter = \<lparr>rl_rate_per_second = 20000, rl_credits_milli = 20000000, rl_last_timestamp_ms = None\<rparr>,
      rc_health = peer_health_new 0, rc_active = None,
      rc_pending_move = None, rc_keys = replicate 256 False, rc_buttons = replicate 5 False, rc_failure = None,
      rc_cleanup_pending = False, rc_held_since = None, rc_holds = 0, rc_held_max = 0,
      rc_open_gestures = [False, False], rc_gesture_seen = 0, rc_gesture_normalizations = 0,
      rc_local_platform = Some MacOs, rc_source_platform = None, rc_control_as_command = False,
      rc_keyboard = translator_default\<rparr>"
  by (simp add: receiver_built_def sample_config_def keyboard_from_def with_floor_def receiver_new_def activate_epoch_def
      sequence_gate_default_def rate_limiter_new_def word_less_nat_alt)

lemma sample_healthy: "health_check 0 (peer_health_new 0) = (Inr (), peer_health_new 0)"
  by (simp add: health_check_def peer_health_new_def)

lemma sample_claimed:
  "floor_unpack (floor_pack \<lparr>fl_state = Receiving, fl_generation = 2, fl_peer = FLOOR_SOLE\<rparr>) =
     Some \<lparr>fl_state = Receiving, fl_generation = 2, fl_peer = FLOOR_SOLE\<rparr>"
  by (rule floor_unpack_pack) (simp add: floor_well_formed_def MAX_GENERATION_eq word_le_nat_alt)

definition sample_active :: "unit input_receiver" where
  "sample_active = (receiver_built sample_config)\<lparr>
     rc_gate := (gate_new floor_new)\<lparr>tb_floor := floor_pack \<lparr>fl_state = Receiving, fl_generation = 2, fl_peer = FLOOR_SOLE\<rparr>,
       tb_admission := 2\<rparr>,
     rc_floor_generation := Some 2, rc_epoch := 2,
     rc_sequences := \<lparr>sg_active_epoch = Some 2, sg_reliable_sequence = Some 0, sg_motion_sequence = None, sg_heartbeat_sequence = None\<rparr>,
     rc_limiter := \<lparr>rl_rate_per_second = 20000, rl_credits_milli = 19999000, rl_last_timestamp_ms = Some 0\<rparr>,
     rc_active := Some (1, sample_point)\<rparr>"

lemmas session_eval = receiver_eval sample_fields sample_healthy sample_point_ok gate_new_def sample_floor sample_claim sample_claimed
  frame_new_def sample_env_def millis_u64_def allow_at_def rate_spend_def rate_refill_def checked_add_def activate_epoch_def
  gate_accept_def check_epoch_def frame_delivery_def gate_advance_def word_less_nat_alt word_le_nat_alt
  admit_loop.simps [of "[_]"] admit_decision_def claim_inbound_def open_injection_def

abbreviation (input) sample_activate :: frame where
  "sample_activate \<equiv> frame_new 2 0 (MsgActivateDisplayAt 1 sample_point False)"

lemma sample_activation:
  "receiver_receive sample_env sample_activate 0 (receiver_built sample_config, []) =
     (Some (Inr (Some (MsgActivationAck 1))), (sample_active, [(MoveTo sample_point, True)]))"
  by (simp add: session_eval sample_active_def)

text \<open>A change with no begin, as after a crossing: the begin is supplied.\<close>

abbreviation (input) sample_pinch :: frame where
  "sample_pinch \<equiv> frame_new 2 1 (MsgGesture (Magnify Changed 0x3FE0000000000000))"

lemma sample_pinch_valid: "gesture_validate (Magnify Changed 0x3FE0000000000000) = Inr ()"
  by (simp add: gesture_validate_def gesture_from_parts_def f64_of_int_def f64_compute)

lemma sample_pinched:
  "snd (snd (receiver_receive sample_env sample_pinch 0 (sample_active, [(MoveTo sample_point, True)]))) =
     [(DestGesture (Magnify Changed 0x3FE0000000000000), True), (DestGesture (Magnify Began f64_zero), True),
      (MoveTo sample_point, True)]"
  by (simp add: session_eval sample_active_def receive_gesture_def require_active_def inject_unless_suppressed_def
      apply_pending_move_def is_motion_def apply_gesture_def gesture_repair_def note_normalization_def sample_pinch_valid
      ok_or_def saturating_mul_def saturating_add_def saturating_sub_def)

lemma sample_stopped:
  "snd (receiver_stop sample_env RfPeerStopped (receiver_built sample_config, [])) =
     ((receiver_built sample_config)\<lparr>rc_gate := note_injected_released (gate_new floor_new), rc_failure := Some RfPeerStopped,
        rc_keyboard := translator_clear translator_default\<rparr>, [(DestReleaseAll, True), (EndGestures, True)])"
  by (simp add: session_eval translator_clear_def)

lemma sample_stop_run:
  "receiver_run sample_config [OpStop sample_env RfPeerStopped] =
     ((receiver_built sample_config)\<lparr>rc_gate := note_injected_released (gate_new floor_new), rc_failure := Some RfPeerStopped,
        rc_keyboard := translator_clear translator_default\<rparr>, [(DestReleaseAll, True), (EndGestures, True)])"
  by (simp add: receiver_run_def sample_stopped)

theorem receiver_aims_and_cleans_witness:
  "snd (receiver_run sample_config [OpReceive sample_env sample_activate 0]) = [(MoveTo sample_point, True)]
    \<and> on_some_display (cfg_displays sample_config) sample_point
    \<and> rc_failure (fst (receiver_run sample_config [OpStop sample_env RfPeerStopped])) = Some RfPeerStopped
    \<and> calm (fst (receiver_run sample_config [OpStop sample_env RfPeerStopped]))
    \<and> all_up (snd (receiver_run sample_config [OpStop sample_env RfPeerStopped]))"
proof -
  have run: "receiver_run sample_config [OpReceive sample_env sample_activate 0] = (sample_active, [(MoveTo sample_point, True)])"
    by (simp add: receiver_run_def sample_activation)
  have slot: "cfg_slot sample_config = None" "\<not> rc_cleanup_pending (receiver_built sample_config)"
    by (simp add: sample_config_def) (simp add: sample_fields)
  show ?thesis
    using conjunct1 [OF receiver_aims_and_cleans [OF run], rule_format, of sample_point True]
      receiver_aims_and_cleans [OF sample_stop_run] slot
    unfolding sample_stop_run run by simp
qed

theorem receiver_silent_injects_nothing_witness:
  "\<exists>es. snd (receiver_op_step (OpStop sample_env RfPeerStopped) (receiver_run sample_config [OpStop sample_env RfPeerStopped]))
      = es @ [(DestReleaseAll, True), (EndGestures, True)] \<and> list_all (\<lambda>e. is_release (fst e)) es"
proof -
  show ?thesis
    using receiver_silent_injects_nothing [OF sample_stop_run, of "OpStop sample_env RfPeerStopped"] unfolding sample_stop_run by simp
qed

abbreviation (input) sample_release :: frame where
  "sample_release \<equiv> frame_new 2 1 MsgReleaseAll"

lemma sample_unclaim:
  "floor_transition \<lparr>fl_state = Receiving, fl_generation = 2, fl_peer = FLOOR_SOLE\<rparr> Free
       (floor_pack \<lparr>fl_state = Receiving, fl_generation = 2, fl_peer = FLOOR_SOLE\<rparr>) =
     (Some (Inr \<lparr>fl_state = Free, fl_generation = 3, fl_peer = FLOOR_NONE\<rparr>),
      floor_pack \<lparr>fl_state = Free, fl_generation = 3, fl_peer = FLOOR_NONE\<rparr>)"
proof -
  have wf: "floor_well_formed \<lparr>fl_state = Receiving, fl_generation = 2, fl_peer = FLOOR_SOLE\<rparr>"
    by (simp add: floor_well_formed_def MAX_GENERATION_eq word_le_nat_alt)
  show ?thesis
    using wf floor_swap_exact_at [OF wf wf] by (simp add: floor_transition_def floor_next_def MAX_GENERATION_eq word_le_nat_alt)
qed

lemma sample_released:
  "fst (receiver_receive sample_env sample_release 0 (sample_active, [(MoveTo sample_point, True)])) = Some (Inr (Some MsgReleaseAck))"
  by (simp add: session_eval sample_active_def release_inbound.simps is_inbound_claim_def sample_unclaim gate_frame apply_pending_move_def is_motion_def
      saturating_mul_def saturating_add_def saturating_sub_def)

lemma sample_claim_reachable:
  "floor_reachable (floor_pack \<lparr>fl_state = Receiving, fl_generation = 2, fl_peer = FLOOR_SOLE\<rparr>)"
  using step_transition [OF sample_claim] by (simp add: floor_reachable_def)

theorem receiver_replies_truthfully_witness:
  "fst (receiver_receive sample_env sample_activate 0 (receiver_run sample_config [])) = Some (Inr (Some (MsgActivationAck 1)))
    \<and> engaged None sample_activate 1 (snd (receiver_receive sample_env sample_activate 0 (receiver_run sample_config [])))
    \<and> fst (receiver_receive sample_env sample_release 0 (receiver_run sample_config [OpReceive sample_env sample_activate 0]))
        = Some (Inr (Some MsgReleaseAck))
    \<and> at_rest (Some 2) (snd (receiver_receive sample_env sample_release 0 (receiver_run sample_config [OpReceive sample_env sample_activate 0])))"
proof -
  let ?s = "receiver_receive sample_env sample_release 0 (sample_active, [(MoveTo sample_point, True)])"
  have run: "receiver_run sample_config [] = (receiver_built sample_config, [])"
      "receiver_run sample_config [OpReceive sample_env sample_activate 0] = (sample_active, [(MoveTo sample_point, True)])"
    by (simp_all add: receiver_run_def sample_activation)
  have order: "floor_in_order (receiver_built sample_config, [])" "floor_in_order (sample_active, [(MoveTo sample_point, True)])"
    by (simp_all add: floor_in_order_def sample_active_def sample_fields gate_new_def floor_reachable_def sample_claim_reachable [unfolded floor_reachable_def])
  have own: "own_claim (receiver_built sample_config)" "own_claim sample_active"
    by (simp_all add: own_claim_def sample_active_def sample_fields)
  have gen: "rc_floor_generation (receiver_built sample_config) = None" "rc_floor_generation sample_active = Some 2"
    by (simp_all add: sample_active_def sample_fields)
  have ack: "?s = (Some (Inr (Some MsgReleaseAck)), snd ?s)"
    using sample_released by (metis prod.collapse)
  show ?thesis
    using receiver_replies_truthfully [OF run(1) order(1) own(1) sample_activation]
      receiver_replies_truthfully [OF run(2) order(2) own(2) ack] sample_released
    unfolding run gen by (simp add: sample_activation)
qed

theorem gesture_phases_in_order_witness:
  "phases_open (snd (receiver_run sample_config [OpReceive sample_env sample_activate 0, OpReceive sample_env sample_pinch 0]))
     = Some (True, False)
   \<and> rc_open_gestures (fst (receiver_run sample_config [OpReceive sample_env sample_activate 0, OpReceive sample_env sample_pinch 0]))
     = [True, False]"
proof -
  let ?s = "receiver_run sample_config [OpReceive sample_env sample_activate 0, OpReceive sample_env sample_pinch 0]"
  have "phases_open (snd ?s) = Some (True, False)"
    by (simp add: receiver_run_def sample_activation sample_pinched)
  moreover have "cfg_slot sample_config = None"
    by (simp add: sample_config_def)
  ultimately show ?thesis
    using gesture_phases_in_order [of sample_config "[OpReceive sample_env sample_activate 0, OpReceive sample_env sample_pinch 0]"]
    by auto
qed

theorem receiver_methods_return_witness:
  "\<exists>out t. receiver_receive sample_env sample_activate 0 (receiver_built sample_config, []) = (Some out, t) \<and> floor_in_order t"
proof -
  have "races_end sample_env"
    by (auto simp: races_end_def sample_env_def)
  moreover have "floor_in_order (receiver_built sample_config, [])"
    by (simp add: floor_in_order_def sample_fields gate_new_def floor_reachable_def)
  ultimately show ?thesis
    using receiver_methods_return [of sample_env "(receiver_built sample_config, [])" sample_activate 0] by blast
qed

end
