(* ===== verification/Session_Startup.thy ===== *)
theory Session_Startup
  imports Input_Receiver
begin

section \<open>Control-only startup: \<open>monhop-transport/src/session_startup.rs\<close>\<close>

text \<open>
  Before any input flows each half of a session, the source and the receiver, exchanges heartbeats and
  announces that it is ready, the receiver first. \<open>StartupControl\<close> is one half; its methods are
  handlers that always return. Once ready it hands its health, limiter and counters to the session.
\<close>

abbreviation (input) STARTUP_DEADLINE :: duration where "STARTUP_DEADLINE \<equiv> from_secs 3"

datatype startup_error =
  SuHealth health_error | SuDeadline | SuSequence | SuUnexpectedMessage | SuRateLimited | SuNotReady

record ready_control =
  rdy_epoch :: session_epoch
  rdy_next_incoming :: u64
  rdy_next_outgoing :: u64
  rdy_next_heartbeat_out :: u64
  rdy_last_heartbeat_in :: "u64 option"
  rdy_health :: peer_health
  rdy_limiter :: rate_limiter
  rdy_now :: duration

record startup_control =
  su_control :: ready_control
  su_heartbeats :: sequence_gate
  su_started_at :: duration
  su_local_is_source :: bool
  su_local_ready :: bool
  su_peer_ready :: bool
  su_failure :: "startup_error option"

type_synonym 'a startup = "(startup_control, startup_error, 'a) handler"

definition startup_new :: "session_epoch \<Rightarrow> u64 \<Rightarrow> bool \<Rightarrow> duration \<Rightarrow> startup_control" where
  "startup_new epoch next_sequence local_is_source now =
     \<lparr>su_control = \<lparr>rdy_epoch = epoch, rdy_next_incoming = next_sequence, rdy_next_outgoing = next_sequence,
        rdy_next_heartbeat_out = 0, rdy_last_heartbeat_in = None, rdy_health = peer_health_new now,
        rdy_limiter = projr (rate_limiter_new 20000), rdy_now = now\<rparr>,
      su_heartbeats = snd (activate_epoch epoch sequence_gate_default), su_started_at = now,
      su_local_is_source = local_is_source, su_local_ready = False, su_peer_ready = False, su_failure = None\<rparr>"

text \<open>Updating the control inside, and a health operation on it.\<close>

definition su_upd :: "(ready_control \<Rightarrow> ready_control) \<Rightarrow> unit startup" where
  "su_upd g = h_upd (\<lambda>s. s\<lparr>su_control := g (su_control s)\<rparr>)"

definition su_health :: "(peer_health \<Rightarrow> (health_error + 'a) \<times> peer_health) \<Rightarrow> (health_error + 'a) startup" where
  "su_health f =
     h_bind h_get (\<lambda>s. h_seq (su_upd (\<lambda>c. c\<lparr>rdy_health := snd (f (rdy_health c))\<rparr>))
       (h_ok (fst (f (rdy_health (su_control s))))))"

definition startup_fail :: "startup_error \<Rightarrow> 'a startup" where
  "startup_fail failure =
     h_bind h_get (\<lambda>s.
       let first = (case su_failure s of Some f \<Rightarrow> f | None \<Rightarrow> failure)
       in h_seq (h_upd (\<lambda>s1. s1\<lparr>su_failure := Some first\<rparr>)) (h_err first))"

definition or_startup_fail :: "health_error + 'a \<Rightarrow> 'a startup" where
  "or_startup_fail res = (case res of Inl e \<Rightarrow> startup_fail (SuHealth e) | Inr x \<Rightarrow> h_ok x)"

definition startup_check :: "duration \<Rightarrow> unit startup" where
  "startup_check now =
     h_bind h_get (\<lambda>s. case su_failure s of
         Some failure \<Rightarrow> h_err failure
       | None \<Rightarrow>
           h_bind (su_health (health_check now)) (\<lambda>res.
           h_seq (or_startup_fail res)
          (if STARTUP_DEADLINE \<le> now - su_started_at s then startup_fail SuDeadline
           else su_upd (\<lambda>c. c\<lparr>rdy_now := now\<rparr>))))"

definition startup_outgoing :: "message \<Rightarrow> frame startup" where
  "startup_outgoing m =
     h_bind h_get (\<lambda>s.
       let c = su_control s;
           sequence = (if is_heartbeat m then rdy_next_heartbeat_out c else rdy_next_outgoing c)
       in case checked_add sequence 1 of
            None \<Rightarrow> startup_fail SuSequence
          | Some next \<Rightarrow>
              h_seq (su_upd (\<lambda>c1. if is_heartbeat m then c1\<lparr>rdy_next_heartbeat_out := next\<rparr> else c1\<lparr>rdy_next_outgoing := next\<rparr>))
                (h_ok (frame_new (rdy_epoch c) sequence m)))"

definition startup_poll :: "duration \<Rightarrow> frame option startup" where
  "startup_poll now =
     h_seq (startup_check now)
    (h_bind (su_health (health_poll now)) (\<lambda>res.
     h_bind (or_startup_fail res) (\<lambda>token. case token of
         None \<Rightarrow> h_ok None
       | Some t \<Rightarrow> h_bind (startup_outgoing (MsgPing t)) (\<lambda>f. h_ok (Some f)))))"

definition startup_message :: "message \<Rightarrow> duration \<Rightarrow> frame option startup" where
  "startup_message m now =
     h_bind h_get (\<lambda>s. case m of
         MsgPing token \<Rightarrow> h_bind (startup_outgoing (MsgPong token)) (\<lambda>f. h_ok (Some f))
       | MsgPong token \<Rightarrow>
           h_bind (su_health (receive_pong token now)) (\<lambda>res. h_seq (or_startup_fail res) (h_ok None))
       | MsgSessionReady \<Rightarrow>
           if su_peer_ready s then startup_fail SuUnexpectedMessage
           else if \<not> su_local_is_source s \<and> \<not> su_local_ready s then startup_fail SuNotReady
           else h_seq (h_upd (\<lambda>s1. s1\<lparr>su_peer_ready := True\<rparr>)) (h_ok None)
       | _ \<Rightarrow> startup_fail SuUnexpectedMessage)"

definition startup_receive :: "frame \<Rightarrow> duration \<Rightarrow> frame option startup" where
  "startup_receive f now =
     h_seq (startup_check now)
    (h_bind h_get (\<lambda>s.
       let c = su_control s; (allowed, limiter) = allow_at (millis_u64 now) (rdy_limiter c)
       in h_seq (su_upd (\<lambda>c1. c1\<lparr>rdy_limiter := limiter\<rparr>))
         (if \<not> is_ok allowed then startup_fail SuRateLimited
          else if is_heartbeat (fr_message f) then
            (let (accepted, heartbeats) = gate_accept_heartbeat f (su_heartbeats s)
             in h_seq (h_upd (\<lambda>s1. s1\<lparr>su_heartbeats := heartbeats\<rparr>))
                  (if is_ok accepted then startup_message (fr_message f) now else h_ok None))
          else if fr_epoch f \<noteq> rdy_epoch c \<or> fr_sequence f \<noteq> rdy_next_incoming c \<or> frame_delivery f \<noteq> Reliable
          then startup_fail SuSequence
          else case checked_add (rdy_next_incoming c) 1 of
              None \<Rightarrow> startup_fail SuSequence
            | Some next \<Rightarrow>
                h_seq (su_upd (\<lambda>c1. c1\<lparr>rdy_next_incoming := next\<rparr>)) (startup_message (fr_message f) now))))"

definition health_confirmed :: "duration \<Rightarrow> bool startup" where
  "health_confirmed now =
     h_seq (startup_check now) (h_bind h_get (\<lambda>s. h_ok (is_confirmed (rdy_health (su_control s)))))"

definition can_announce_ready :: "duration \<Rightarrow> bool startup" where
  "can_announce_ready now =
     h_seq (startup_check now) (h_bind h_get (\<lambda>s.
       h_ok (\<not> su_local_ready s \<and> is_confirmed (rdy_health (su_control s)) \<and> (\<not> su_local_is_source s \<or> su_peer_ready s))))"

definition announce_ready :: "duration \<Rightarrow> frame startup" where
  "announce_ready now =
     h_bind (can_announce_ready now) (\<lambda>able.
       if \<not> able then startup_fail SuNotReady
       else h_seq (h_upd (\<lambda>s. s\<lparr>su_local_ready := True\<rparr>)) (startup_outgoing MsgSessionReady))"

definition startup_is_ready :: "duration \<Rightarrow> bool startup" where
  "startup_is_ready now =
     h_seq (startup_check now) (h_bind h_get (\<lambda>s.
       h_ok (su_local_ready s \<and> su_peer_ready s \<and> is_confirmed (rdy_health (su_control s)))))"

definition into_ready :: "duration \<Rightarrow> ready_control startup" where
  "into_ready now =
     h_bind (startup_is_ready now) (\<lambda>ready.
       if \<not> ready then startup_fail SuNotReady
       else h_seq (h_upd (\<lambda>s. s\<lparr>su_control := (su_control s)\<lparr>rdy_last_heartbeat_in := sg_heartbeat_sequence (su_heartbeats s)\<rparr>\<rparr>))
         (h_bind h_get (\<lambda>s. h_ok (su_control s))))"

text \<open>The receiver a ready control becomes (\<open>InputReceiver::after_startup\<close>).\<close>

definition after_startup ::
    "platform \<Rightarrow> display_topology \<Rightarrow> ready_control \<Rightarrow> duration \<Rightarrow> receiver_failure + 'k input_receiver" where
  "after_startup this_platform displays control now =
     (let (res, health) = health_check now (rdy_health control);
          r = receiver_new this_platform displays (rdy_epoch control) now
      in rbind (map_err RfHealth res) (\<lambda>_.
           Inr (r\<lparr>rc_control_sequences := seed_heartbeat (rdy_last_heartbeat_in control) (rc_control_sequences r),
                  rc_health := health, rc_limiter := rdy_limiter control\<rparr>)))"

section \<open>What the methods of one half do\<close>

text \<open>Failures that come from time or load, never from a well-behaved peer.\<close>

fun timely_health :: "health_error \<Rightarrow> bool" where
  "timely_health ClockRegression = True"
| "timely_health DeadlineExpired = True"
| "timely_health _ = False"

fun timely :: "startup_error \<Rightarrow> bool" where
  "timely (SuHealth e) = timely_health e"
| "timely SuDeadline = True"
| "timely SuRateLimited = True"
| "timely _ = False"

lemma health_check_timely:
  assumes "health_check now h = (r, h1)" "ph_failure h = None"
  shows "ph_next_token h1 = ph_next_token h \<and> ph_confirmed h1 = ph_confirmed h \<and>
    (case r of Inl e \<Rightarrow> timely_health e | Inr _ \<Rightarrow> ph_failure h1 = None)"
  using assms by (auto simp: health_check_def health_fail_def Let_def split: if_splits)

lemma health_poll_timely:
  assumes "health_poll now h = (r, h1)" "ph_failure h = None" "unat (ph_next_token h) < 2 ^ 64 - 1"
  shows "ph_confirmed h1 = ph_confirmed h \<and> (case r of
      Inl e \<Rightarrow> timely_health e \<and> ph_next_token h1 = ph_next_token h
    | Inr None \<Rightarrow> ph_failure h1 = None \<and> ph_next_token h1 = ph_next_token h
    | Inr (Some t) \<Rightarrow> ph_failure h1 = None \<and> t = ph_next_token h \<and> ph_next_token h1 = t + 1)"
  using assms
  by (auto simp: health_poll_def health_check_def health_fail_def health_challenge_def checked_add_def Let_def
        unat_word_ariths split: if_splits option.splits)

lemma receive_pong_timely:
  assumes "receive_pong token now h = (r, h1)" "ph_failure h = None" "token < ph_next_token h"
  shows "ph_next_token h1 = ph_next_token h \<and>
    (case r of Inl e \<Rightarrow> timely_health e \<and> ph_confirmed h1 = ph_confirmed h | Inr _ \<Rightarrow> ph_failure h1 = None)"
  using assms
  by (auto simp: receive_pong_def health_check_def health_fail_def health_answer_def Let_def rbind_def split: if_splits)

text \<open>
  What a half has promised and counted, without its clock, limiter and replay gate: the contract the
  other half relies on.
\<close>

record half_view =
  hv_source :: bool
  hv_local_ready :: bool
  hv_peer_ready :: bool
  hv_epoch :: session_epoch
  hv_incoming :: u64
  hv_outgoing :: u64
  hv_heartbeat :: u64
  hv_token :: u64
  hv_confirmed :: bool

definition half_view :: "startup_control \<Rightarrow> half_view" where
  "half_view s = (let c = su_control s in
     \<lparr>hv_source = su_local_is_source s, hv_local_ready = su_local_ready s, hv_peer_ready = su_peer_ready s,
      hv_epoch = rdy_epoch c, hv_incoming = rdy_next_incoming c, hv_outgoing = rdy_next_outgoing c,
      hv_heartbeat = rdy_next_heartbeat_out c, hv_token = ph_next_token (rdy_health c),
      hv_confirmed = ph_confirmed (rdy_health c)\<rparr>)"

text \<open>A half at a view that works on, and one that failed there for a timely reason.\<close>

definition su_in :: "half_view \<Rightarrow> startup_control \<Rightarrow> bool" where
  "su_in v s \<longleftrightarrow> half_view s = v \<and> su_failure s = None \<and> ph_failure (rdy_health (su_control s)) = None"

definition su_out :: "half_view \<Rightarrow> startup_control \<Rightarrow> bool" where
  "su_out v s \<longleftrightarrow> half_view s = v \<and> (case su_failure s of None \<Rightarrow> False | Some e \<Rightarrow> timely e)"

abbreviation (input) half_step ::
    "half_view \<Rightarrow> ('a \<Rightarrow> startup_control \<Rightarrow> bool) \<Rightarrow> 'a startup \<Rightarrow> bool" where
  "half_step v Q m \<equiv> always (su_in v) Q (\<lambda>_. su_out v) (\<lambda>_. False) m"

lemmas half_defs = su_in_def su_out_def half_view_def Let_def

lemma su_in_kept [simp]:
  "su_in v (s\<lparr>su_control := (su_control s)\<lparr>rdy_limiter := l\<rparr>\<rparr>) = su_in v s"
  "su_in v (s\<lparr>su_heartbeats := g\<rparr>) = su_in v s"
  by (simp_all add: half_defs)

lemma su_in_moved [intro]:
  "su_in v s \<Longrightarrow> su_in (v\<lparr>hv_local_ready := True\<rparr>) (s\<lparr>su_local_ready := True\<rparr>)"
  "su_in v s \<Longrightarrow> su_in (v\<lparr>hv_incoming := n\<rparr>) (s\<lparr>su_control := (su_control s)\<lparr>rdy_next_incoming := n\<rparr>\<rparr>)"
  by (auto simp: half_defs)

lemma startup_fail_step: "timely e \<Longrightarrow> half_step v Q (startup_fail e)"
  by (auto simp: always_def startup_fail_def handler_defs half_defs split: option.split)

lemma su_upd_step:
  "(\<And>s. su_in v s \<Longrightarrow> su_in w (s\<lparr>su_control := g (su_control s)\<rparr>)) \<Longrightarrow> half_step v (\<lambda>_. su_in w) (su_upd g)"
  unfolding su_upd_def by (rule always_upd)

text \<open>A health operation followed by the failure of the half when it fails.\<close>

lemma su_health_step:
  assumes "\<And>h r h1. f h = (r, h1) \<Longrightarrow> ph_failure h = None \<Longrightarrow> ph_next_token h = hv_token v \<Longrightarrow>
      ph_confirmed h = hv_confirmed v \<Longrightarrow>
      (case r of Inl e \<Rightarrow> timely_health e \<and> ph_next_token h1 = ph_next_token h \<and> ph_confirmed h1 = ph_confirmed h
       | Inr x \<Rightarrow> ph_failure h1 = None \<and> R x (ph_next_token h1) (ph_confirmed h1))"
  shows "half_step v (\<lambda>x s. \<exists>t c. R x t c \<and> su_in (v\<lparr>hv_token := t, hv_confirmed := c\<rparr>) s)
    (h_bind (su_health f) or_startup_fail)"
  unfolding always_def
proof (intro allI impI)
  fix s assume s: "su_in v s"
  obtain r h1 where f: "f (rdy_health (su_control s)) = (r, h1)"
    by fastforce
  show "case h_bind (su_health f) or_startup_fail s of (None, t) \<Rightarrow> False | (Some (Inl e), t) \<Rightarrow> su_out v t
      | (Some (Inr x), t) \<Rightarrow> \<exists>u c. R x u c \<and> su_in (v\<lparr>hv_token := u, hv_confirmed := c\<rparr>) t"
    using assms [OF f] f s
    by (cases r) (auto simp: su_health_def or_startup_fail_def startup_fail_def su_upd_def handler_defs half_defs)
qed

lemma h_bind_assoc: "h_bind (h_bind m f) g = h_bind m (\<lambda>x. h_bind (f x) g)"
  by (rule ext) (auto simp: h_bind_def split: prod.splits option.splits sum.splits)

lemma always_at: "always P Q E D m \<Longrightarrow> P s \<Longrightarrow> always (\<lambda>t. t = s) Q E D m"
  by (simp add: always_def)

lemma su_health_same_step:
  assumes "\<And>h r h1. f h = (r, h1) \<Longrightarrow> ph_failure h = None \<Longrightarrow> 
      ph_next_token h1 = ph_next_token h \<and> ph_confirmed h1 = ph_confirmed h \<and>
      (case r of Inl e \<Rightarrow> timely_health e | Inr x \<Rightarrow> ph_failure h1 = None)"
  shows "half_step v (\<lambda>_. su_in v) (h_bind (su_health f) or_startup_fail)"
  by (rule always_weaken [OF su_health_step [where R = "\<lambda>_ t c. t = hv_token v \<and> c = hv_confirmed v"]])
     (auto dest!: assms split: sum.splits)

lemma startup_check_step: "half_step v (\<lambda>_. su_in v) (startup_check now)"
proof -
  have eq: "h_bind (su_health (health_check now)) (\<lambda>res. h_seq (or_startup_fail res) n)
      = h_bind (h_bind (su_health (health_check now)) or_startup_fail) (\<lambda>_. n)" for n :: "unit startup"
    by (simp add: h_seq_def h_bind_assoc)
  have "half_step v (\<lambda>_. su_in v) (h_bind (su_health (health_check now)) (\<lambda>res. h_seq (or_startup_fail res)
      (if STARTUP_DEADLINE \<le> now - t0 then startup_fail SuDeadline else su_upd (\<lambda>c. c\<lparr>rdy_now := now\<rparr>))))" for t0
    unfolding eq
    by (intro always_bind [where R = "\<lambda>_. su_in v"] always_if su_health_same_step startup_fail_step su_upd_step)
       (use health_check_timely in \<open>auto simp: half_defs\<close>)
  from always_at [OF this] show ?thesis
    unfolding startup_check_def by (intro always_get_bind) (simp only: su_in_def option.case)
qed

text \<open>Sending never fails while the counter has room, whatever the caller asks of failures.\<close>

lemma startup_outgoing_step:
  "is_heartbeat m \<Longrightarrow> unat (hv_heartbeat v) < 2 ^ 64 - 1 \<Longrightarrow>
     always (su_in v) (\<lambda>f s. f = frame_new (hv_epoch v) (hv_heartbeat v) m \<and>
       su_in (v\<lparr>hv_heartbeat := hv_heartbeat v + 1\<rparr>) s) E D (startup_outgoing m)"
  "\<not> is_heartbeat m \<Longrightarrow> unat (hv_outgoing v) < 2 ^ 64 - 1 \<Longrightarrow>
     always (su_in v) (\<lambda>f s. f = frame_new (hv_epoch v) (hv_outgoing v) m \<and>
       su_in (v\<lparr>hv_outgoing := hv_outgoing v + 1\<rparr>) s) E D (startup_outgoing m)"
  by (auto simp: always_def startup_outgoing_def su_upd_def handler_defs half_defs checked_add_def)

lemma always_some:
  "always P (\<lambda>x. Q (Some x)) E D m \<Longrightarrow> always P Q E D (h_bind m (\<lambda>x. h_ok (Some x)))"
  by (erule always_bind) (rule always_ok)

lemma always_fact: "(c \<Longrightarrow> always P Q E D m) \<Longrightarrow> always (\<lambda>s. c \<and> P s) Q E D m"
  by (auto simp: always_def)

lemma health_poll_step:
  assumes "unat (hv_token v) < 2 ^ 64 - 1"
  shows "half_step v (\<lambda>x s. case x of None \<Rightarrow> su_in v s
      | Some t \<Rightarrow> t = hv_token v \<and> su_in (v\<lparr>hv_token := hv_token v + 1\<rparr>) s)
    (h_bind (su_health (health_poll now)) or_startup_fail)"
proof (rule always_weaken [OF su_health_step [where v = v and R = "\<lambda>x t c. c = hv_confirmed v \<and>
    (case x of None \<Rightarrow> t = hv_token v | Some u \<Rightarrow> u = hv_token v \<and> t = hv_token v + 1)"]], goal_cases)
  case (1 h r h1)
  then show ?case
    using assms health_poll_timely [OF 1(1) 1(2)] by (auto split: sum.splits option.splits)
qed (auto split: option.splits)

lemma startup_poll_step:
  assumes "unat (hv_token v) < 2 ^ 64 - 1" "unat (hv_heartbeat v) < 2 ^ 64 - 1"
  shows "half_step v (\<lambda>out s. case out of
      None \<Rightarrow> su_in v s
    | Some f \<Rightarrow> f = frame_new (hv_epoch v) (hv_heartbeat v) (MsgPing (hv_token v)) \<and>
        su_in (v\<lparr>hv_token := hv_token v + 1, hv_heartbeat := hv_heartbeat v + 1\<rparr>) s) (startup_poll now)"
    (is "half_step v ?Q _")
proof -
  have send: "always (su_in (v\<lparr>hv_token := hv_token v + 1\<rparr>)) ?Q (\<lambda>_. su_out v) (\<lambda>_. False)
      (h_bind (startup_outgoing (MsgPing (hv_token v))) (\<lambda>f. h_ok (Some f)))"
    by (intro always_some always_weaken [OF startup_outgoing_step(1)]) (use assms in auto)
  have eq: "h_bind (su_health (health_poll now)) (\<lambda>res. h_bind (or_startup_fail res) n)
      = h_bind (h_bind (su_health (health_poll now)) or_startup_fail) n" for n :: "u64 option \<Rightarrow> frame option startup"
    by (simp add: h_bind_assoc)
  show ?thesis
    unfolding startup_poll_def eq
  proof (rule always_seq [OF startup_check_step], rule always_bind [OF health_poll_step [OF assms(1)]], goal_cases)
    case (1 x)
    show ?case
      using send by (cases x) (auto intro!: always_fact)
  qed
qed

text \<open>A received frame: the checks and the limiter first, then its message.\<close>

lemma startup_receive_heartbeat:
  assumes "is_heartbeat (fr_message f)" "half_step v Q (startup_message (fr_message f) now)"
    and "\<And>s. su_in v s \<Longrightarrow> Q None s"
  shows "half_step v Q (startup_receive f now)"
  unfolding startup_receive_def Let_def split_beta
  by (intro always_seq [OF startup_check_step] always_get_bind)
     (auto intro!: always_seq [where R = "su_in v"] startup_fail_step assms(2,3) simp: assms(1) su_upd_def)

lemma startup_receive_ready:
  assumes "\<not> is_heartbeat (fr_message f)" "fr_epoch f = hv_epoch v" "fr_sequence f = hv_incoming v"
    and "frame_delivery f = Reliable" "unat (hv_incoming v) < 2 ^ 64 - 1"
    and "always (su_in (v\<lparr>hv_incoming := hv_incoming v + 1\<rparr>)) Q (\<lambda>_. su_out v) (\<lambda>_. False) (startup_message (fr_message f) now)"
  shows "half_step v Q (startup_receive f now)"
  unfolding startup_receive_def Let_def split_beta
proof (intro always_seq [OF startup_check_step] always_get_bind, goal_cases)
  case (1 s)
  have room: "checked_add (hv_incoming v) 1 = Some (hv_incoming v + 1)"
    using assms(5) by (auto simp: checked_add_def)
  have at: "rdy_epoch (su_control s) = hv_epoch v" "rdy_next_incoming (su_control s) = hv_incoming v"
    using 1 by (auto simp: half_defs)
  have rest: "half_step v Q (h_seq (su_upd (\<lambda>c1. c1\<lparr>rdy_next_incoming := hv_incoming v + 1\<rparr>)) (startup_message (fr_message f) now))"
    by (rule always_seq [OF _ assms(6)]) (auto simp: su_upd_def)
  show ?case
    unfolding room at assms(2-4) using 1 assms(1) rest
    by (auto intro!: always_seq [where R = "su_in v"] startup_fail_step simp: su_upd_def)
qed

lemma startup_ping_step:
  assumes "unat (hv_heartbeat v) < 2 ^ 64 - 1" "fr_message f = MsgPing token"
  shows "half_step v (\<lambda>out s. case out of
      None \<Rightarrow> su_in v s
    | Some g \<Rightarrow> g = frame_new (hv_epoch v) (hv_heartbeat v) (MsgPong token) \<and>
        su_in (v\<lparr>hv_heartbeat := hv_heartbeat v + 1\<rparr>) s) (startup_receive f now)"
proof (rule startup_receive_heartbeat)
  show "half_step v (\<lambda>out s. case out of
      None \<Rightarrow> su_in v s
    | Some g \<Rightarrow> g = frame_new (hv_epoch v) (hv_heartbeat v) (MsgPong token) \<and>
        su_in (v\<lparr>hv_heartbeat := hv_heartbeat v + 1\<rparr>) s) (startup_message (fr_message f) now)"
    unfolding startup_message_def assms(2)
    by (intro always_get_bind) (use assms(1) in \<open>auto intro!: always_some always_at [OF startup_outgoing_step(1)]\<close>)
qed (simp_all add: assms(2))

lemma startup_pong_step:
  assumes "token < hv_token v" "fr_message f = MsgPong token"
  shows "half_step v (\<lambda>out s. out = None \<and> (\<exists>c. su_in (v\<lparr>hv_confirmed := c\<rparr>) s)) (startup_receive f now)"
    (is "half_step v ?Q _")
proof (rule startup_receive_heartbeat)
  have pong: "half_step v (\<lambda>x s. \<exists>t c. t = hv_token v \<and> su_in (v\<lparr>hv_token := t, hv_confirmed := c\<rparr>) s)
      (h_bind (su_health (receive_pong token now)) or_startup_fail)"
  proof (rule su_health_step)
    fix h h1 r assume "receive_pong token now h = (r, h1)" "ph_failure h = None" "ph_next_token h = hv_token v"
    then show "case r of Inl e \<Rightarrow> timely_health e \<and> ph_next_token h1 = ph_next_token h \<and> ph_confirmed h1 = ph_confirmed h
        | Inr x \<Rightarrow> ph_failure h1 = None \<and> ph_next_token h1 = hv_token v"
      using receive_pong_timely [of token now h r h1] assms(1) by (cases r) auto
  qed
  have eq: "h_bind (su_health (receive_pong token now)) (\<lambda>res. h_seq (or_startup_fail res) n)
      = h_bind (h_bind (su_health (receive_pong token now)) or_startup_fail) (\<lambda>_. n)" for n :: "frame option startup"
    by (simp add: h_seq_def h_bind_assoc)
  show "half_step v ?Q (startup_message (fr_message f) now)"
    unfolding startup_message_def assms(2) message.case eq
    by (intro always_get_bind always_at [OF always_bind [OF pong]]) auto
  show "?Q None s" if "su_in v s" for s
    using that by (auto intro!: exI [of _ "hv_confirmed v"])
qed (simp add: assms(2))

lemma startup_ready_step:
  assumes "f = frame_new (hv_epoch v) (hv_incoming v) MsgSessionReady" "unat (hv_incoming v) < 2 ^ 64 - 1"
    and "\<not> hv_peer_ready v" "hv_source v \<or> hv_local_ready v"
  shows "half_step v (\<lambda>out s. out = None \<and> su_in (v\<lparr>hv_incoming := hv_incoming v + 1, hv_peer_ready := True\<rparr>) s)
    (startup_receive f now)"
proof (rule startup_receive_ready)
  show "always (su_in (v\<lparr>hv_incoming := hv_incoming v + 1\<rparr>))
      (\<lambda>out s. out = None \<and> su_in (v\<lparr>hv_incoming := hv_incoming v + 1, hv_peer_ready := True\<rparr>) s)
      (\<lambda>_. su_out v) (\<lambda>_. False) (startup_message (fr_message f) now)"
    using assms(3,4) by (cases v) (auto simp: assms(1) frame_new_def startup_message_def always_def handler_defs half_defs)
qed (use assms(2) in \<open>auto simp: assms(1) frame_new_def frame_delivery_def\<close>)

text \<open>Readiness is announced only by a half that may, as \<open>session_runtime\<close> and its siblings do it.\<close>

definition announce_if_able :: "duration \<Rightarrow> frame option startup" where
  "announce_if_able now =
     h_bind (can_announce_ready now) (\<lambda>able.
       if able then h_bind (announce_ready now) (\<lambda>f. h_ok (Some f)) else h_ok None)"

definition half_able :: "half_view \<Rightarrow> bool" where
  "half_able v \<longleftrightarrow> \<not> hv_local_ready v \<and> hv_confirmed v \<and> (\<not> hv_source v \<or> hv_peer_ready v)"

lemma can_announce_step: "half_step v (\<lambda>able s. able = half_able v \<and> su_in v s) (can_announce_ready now)"
  unfolding can_announce_ready_def
  by (intro always_seq [OF startup_check_step] always_get_bind)
     (auto simp: half_able_def half_defs is_confirmed_def)

lemma announce_step:
  assumes "unat (hv_outgoing v) < 2 ^ 64 - 1"
  shows "half_step v (\<lambda>out s. case out of
      None \<Rightarrow> su_in v s
    | Some f \<Rightarrow> half_able v \<and> f = frame_new (hv_epoch v) (hv_outgoing v) MsgSessionReady \<and>
        su_in (v\<lparr>hv_local_ready := True, hv_outgoing := hv_outgoing v + 1\<rparr>) s) (announce_if_able now)"
    (is "half_step v ?Q _")
proof -
  have send: "always (su_in (v\<lparr>hv_local_ready := True\<rparr>)) (\<lambda>f s. f = frame_new (hv_epoch v) (hv_outgoing v) MsgSessionReady \<and>
      su_in (v\<lparr>hv_local_ready := True, hv_outgoing := hv_outgoing v + 1\<rparr>) s) (\<lambda>_. su_out v) (\<lambda>_. False) (startup_outgoing MsgSessionReady)"
    using startup_outgoing_step(2) [of MsgSessionReady "v\<lparr>hv_local_ready := True\<rparr>"] assms by simp
  have "half_step v ?Q (h_bind (announce_ready now) (\<lambda>f. h_ok (Some f)))" if "half_able v"
    unfolding announce_ready_def using that
    by (intro always_some always_bind [OF can_announce_step])
       (auto intro!: always_fact always_seq [OF _ send])
  then show ?thesis
    unfolding announce_if_able_def by (intro always_bind [OF can_announce_step]) (auto intro!: always_fact)
qed

end
