(* ===== verification/Startup_Handshake.thy ===== *)
theory Startup_Handshake
  imports Session_Startup
begin

section \<open>The startup of both halves together\<close>

text \<open>
  The source's half and the receiver's half of \<open>StartupControl\<close>, joined by the frames under way. Each
  half acts at times of its own clock. Reliable frames arrive in order; heartbeats may arrive in any
  order or not at all. The abstract moves of one half are what the protocol promises; the handlers
  refine them, and the agreement of the halves is proved on the moves.
\<close>

subsection \<open>The abstract moves of one half\<close>

datatype half_input = InTick | InAnnounce | InFrame frame

inductive half_move :: "half_view \<Rightarrow> half_input \<Rightarrow> half_view \<Rightarrow> frame list \<Rightarrow> bool" where
  stay: "half_move v i v []"
| challenge: "half_move v InTick (v\<lparr>hv_token := hv_token v + 1, hv_heartbeat := hv_heartbeat v + 1\<rparr>)
    [frame_new (hv_epoch v) (hv_heartbeat v) (MsgPing (hv_token v))]"
| announce: "half_able v \<Longrightarrow> half_move v InAnnounce (v\<lparr>hv_local_ready := True, hv_outgoing := hv_outgoing v + 1\<rparr>)
    [frame_new (hv_epoch v) (hv_outgoing v) MsgSessionReady]"
| answer: "fr_message f = MsgPing token \<Longrightarrow> half_move v (InFrame f) (v\<lparr>hv_heartbeat := hv_heartbeat v + 1\<rparr>)
    [frame_new (hv_epoch v) (hv_heartbeat v) (MsgPong token)]"
| credit: "fr_message f = MsgPong token \<Longrightarrow> half_move v (InFrame f) (v\<lparr>hv_confirmed := c\<rparr>) []"
| ready: "fr_message f = MsgSessionReady \<Longrightarrow> half_move v (InFrame f)
    (v\<lparr>hv_incoming := hv_incoming v + 1, hv_peer_ready := True\<rparr>) []"

inductive_cases half_moveE: "half_move v i w fs"

text \<open>What a half may be given: room in its counters, and of the peer only frames the protocol allows.\<close>

definition half_room :: "half_view \<Rightarrow> bool" where
  "half_room v \<longleftrightarrow> unat (hv_token v) < 2 ^ 64 - 1 \<and> unat (hv_heartbeat v) < 2 ^ 64 - 1 \<and>
     (hv_local_ready v \<or> unat (hv_outgoing v) < 2 ^ 64 - 1)"

fun half_accepts :: "half_view \<Rightarrow> half_input \<Rightarrow> bool" where
  "half_accepts v (InFrame f) = (case fr_message f of
       MsgPing _ \<Rightarrow> True
     | MsgPong token \<Rightarrow> token < hv_token v
     | _ \<Rightarrow> f = frame_new (hv_epoch v) (hv_incoming v) MsgSessionReady \<and> unat (hv_incoming v) < 2 ^ 64 - 1 \<and>
         \<not> hv_peer_ready v \<and> (hv_source v \<or> hv_local_ready v))"
| "half_accepts v _ = True"

fun half_op :: "half_input \<Rightarrow> duration \<Rightarrow> frame option startup" where
  "half_op InTick now = startup_poll now"
| "half_op InAnnounce now = announce_if_able now"
| "half_op (InFrame f) now = startup_receive f now"

definition frames_sent :: "(startup_error + frame option) option \<Rightarrow> frame list" where
  "frames_sent out = (case out of Some (Inr (Some f)) \<Rightarrow> [f] | _ \<Rightarrow> [])"

definition half_sound :: "startup_control \<Rightarrow> bool" where
  "half_sound s \<longleftrightarrow> su_in (half_view s) s \<or> su_out (half_view s) s"

lemma startup_check_failed: "su_failure s = Some e \<Longrightarrow> startup_check now s = (Some (Inl e), s)"
  by (simp add: startup_check_def handler_defs)

lemma half_op_failed: "su_failure s = Some e \<Longrightarrow> half_op i now s = (Some (Inl e), s)"
  by (cases i) (simp_all add: startup_poll_def announce_if_able_def can_announce_ready_def startup_receive_def
      h_seq_def h_bind_def startup_check_failed)

text \<open>The outcome of a handler, stated as a move.\<close>

definition half_moved :: "half_view \<Rightarrow> half_input \<Rightarrow> frame option \<Rightarrow> startup_control \<Rightarrow> bool" where
  "half_moved v i out s \<longleftrightarrow> su_in (half_view s) s \<and> half_move v i (half_view s) (case out of None \<Rightarrow> [] | Some f \<Rightarrow> [f])"

lemma announce_full_step:
  "hv_local_ready v \<Longrightarrow> half_step v (\<lambda>out s. out = None \<and> su_in v s) (announce_if_able now)"
  unfolding announce_if_able_def
  by (intro always_bind [OF can_announce_step]) (auto intro!: always_fact simp: half_able_def)

lemma half_op_step:
  assumes "half_room v" "half_accepts v i"
  shows "half_step v (half_moved v i) (half_op i now)"
proof (cases i)
  case InTick
  then show ?thesis
    using assms(1) unfolding half_room_def
    by (auto intro!: always_weaken [OF startup_poll_step] intro: half_move.intros simp: half_moved_def su_in_def split: option.splits)
next
  case InAnnounce
  have "half_step v (half_moved v InAnnounce) (announce_if_able now)"
  proof (cases "hv_local_ready v")
    case True
    then show ?thesis
      by (auto intro!: always_weaken [OF announce_full_step] intro: half_move.intros simp: half_moved_def su_in_def)
  next
    case False
    then show ?thesis
      using assms(1) unfolding half_room_def
      by (auto intro!: always_weaken [OF announce_step] intro: half_move.intros simp: half_moved_def su_in_def split: option.splits)
  qed
  then show ?thesis
    by (simp add: InAnnounce)
next
  case (InFrame f)
  note heard = assms(2) [unfolded InFrame half_accepts.simps]
  show ?thesis
  proof (cases "fr_message f")
    case (MsgPing token)
    then show ?thesis
      using assms(1) unfolding half_room_def
      by (auto simp: InFrame intro!: always_weaken [OF startup_ping_step] intro: half_move.intros simp: half_moved_def su_in_def split: option.splits)
  next
    case (MsgPong token)
    then show ?thesis
      using heard by (auto simp: InFrame intro!: always_weaken [OF startup_pong_step] intro: half_move.intros simp: half_moved_def su_in_def)
  qed (use heard in \<open>auto intro!: always_weaken [OF startup_ready_step] half_move.ready simp: InFrame frame_new_def half_moved_def su_in_def\<close>)
qed

lemma half_op_refines:
  assumes "half_sound s" "half_room (half_view s)" "half_accepts (half_view s) i" "half_op i now s = (out, t)"
  shows "half_sound t \<and> half_move (half_view s) i (half_view t) (frames_sent out)"
proof (cases "su_failure s")
  case None
  then have "su_in (half_view s) s"
    using assms(1) by (simp add: half_sound_def su_out_def)
  then show ?thesis
    using alwaysD [OF half_op_step [OF assms(2,3)] _ assms(4)]
    by (auto simp: half_sound_def half_moved_def frames_sent_def su_out_def intro: half_move.stay
        split: option.splits sum.splits)
next
  case (Some e)
  then show ?thesis
    using assms(1,4) by (auto simp: half_op_failed frames_sent_def intro: half_move.stay)
qed

subsection \<open>Both halves and the frames between them\<close>

datatype side = AtSource | AtReceiver

record handshake =
  hs_source :: startup_control
  hs_receiver :: startup_control
  hs_to_source :: "frame list"
  hs_to_receiver :: "frame list"

fun half_at :: "side \<Rightarrow> handshake \<Rightarrow> startup_control" where
  "half_at AtSource h = hs_source h"
| "half_at AtReceiver h = hs_receiver h"

fun frames_to :: "side \<Rightarrow> handshake \<Rightarrow> frame list" where
  "frames_to AtSource h = hs_to_source h"
| "frames_to AtReceiver h = hs_to_receiver h"

text \<open>One half acts: its new state, the frames still on their way to it, and those it sent.\<close>

fun hs_put :: "side \<Rightarrow> startup_control \<Rightarrow> frame list \<Rightarrow> frame list \<Rightarrow> handshake \<Rightarrow> handshake" where
  "hs_put AtSource s inbox sent h = h\<lparr>hs_source := s, hs_to_source := inbox, hs_to_receiver := hs_to_receiver h @ sent\<rparr>"
| "hs_put AtReceiver s inbox sent h = h\<lparr>hs_receiver := s, hs_to_receiver := inbox, hs_to_source := hs_to_source h @ sent\<rparr>"

definition hs_act :: "side \<Rightarrow> half_input \<Rightarrow> duration \<Rightarrow> frame list \<Rightarrow> handshake \<Rightarrow> handshake" where
  "hs_act side i now inbox h =
     (let (out, s) = half_op i now (half_at side h) in hs_put side s inbox (frames_sent out) h)"

definition without :: "nat \<Rightarrow> 'a list \<Rightarrow> 'a list" where
  "without i xs = take i xs @ drop (Suc i) xs"

definition reliable :: "frame list \<Rightarrow> frame list" where
  "reliable fs = filter (\<lambda>f. \<not> is_heartbeat (fr_message f)) fs"

definition deliverable :: "nat \<Rightarrow> frame list \<Rightarrow> bool" where
  "deliverable i fs \<longleftrightarrow> i < length fs \<and> (is_heartbeat (fr_message (fs ! i)) \<or> reliable (take i fs) = [])"

datatype hs_event = HsPoll side duration | HsAnnounce side duration | HsDeliver side nat duration | HsLose side nat

fun hs_step :: "hs_event \<Rightarrow> handshake \<Rightarrow> handshake" where
  "hs_step (HsPoll side now) h = hs_act side InTick now (frames_to side h) h"
| "hs_step (HsAnnounce side now) h = hs_act side InAnnounce now (frames_to side h) h"
| "hs_step (HsDeliver side i now) h =
     (if deliverable i (frames_to side h)
      then hs_act side (InFrame (frames_to side h ! i)) now (without i (frames_to side h)) h else h)"
| "hs_step (HsLose side i) h =
     (if deliverable i (frames_to side h) \<and> is_heartbeat (fr_message (frames_to side h ! i))
      then hs_put side (half_at side h) (without i (frames_to side h)) [] h else h)"

definition hs_run :: "hs_event list \<Rightarrow> handshake \<Rightarrow> handshake" where
  "hs_run evs h = foldl (\<lambda>t ev. hs_step ev t) h evs"

definition hs_start :: "session_epoch \<Rightarrow> u64 \<Rightarrow> duration \<Rightarrow> duration \<Rightarrow> handshake" where
  "hs_start epoch n now_source now_receiver =
     \<lparr>hs_source = startup_new epoch n True now_source, hs_receiver = startup_new epoch n False now_receiver,
      hs_to_source = [], hs_to_receiver = []\<rparr>"

subsection \<open>What holds of the frames from one half to the other\<close>

text \<open>
  \<open>k\<close> bounds the events so far. \<open>a\<close> sends, \<open>b\<close> receives, \<open>fs\<close> is under way from \<open>a\<close> to \<open>b\<close>.
\<close>

definition heartbeat_known :: "half_view \<Rightarrow> half_view \<Rightarrow> frame \<Rightarrow> bool" where
  "heartbeat_known a b f \<longleftrightarrow> (case fr_message f of
       MsgPing token \<Rightarrow> token < hv_token a | MsgPong token \<Rightarrow> token < hv_token b | _ \<Rightarrow> True)"

definition way_inv :: "session_epoch \<Rightarrow> u64 \<Rightarrow> nat \<Rightarrow> half_view \<Rightarrow> half_view \<Rightarrow> frame list \<Rightarrow> bool" where
  "way_inv epoch n k a b fs \<longleftrightarrow>
     hv_epoch a = epoch \<and> unat (hv_token a) \<le> Suc k \<and> unat (hv_heartbeat a) \<le> k \<and>
     hv_outgoing a = (if hv_local_ready a then n + 1 else n) \<and>
     hv_incoming b = (if hv_peer_ready b then n + 1 else n) \<and>
     (hv_peer_ready b \<longrightarrow> hv_local_ready a) \<and>
     (reliable fs = [] \<or> reliable fs = [frame_new epoch n MsgSessionReady] \<and> hv_local_ready a \<and> \<not> hv_peer_ready b) \<and>
     list_all (heartbeat_known a b) fs"

definition pair_inv ::
    "session_epoch \<Rightarrow> u64 \<Rightarrow> nat \<Rightarrow> half_view \<Rightarrow> half_view \<Rightarrow> frame list \<Rightarrow> frame list \<Rightarrow> bool" where
  "pair_inv epoch n k a b to_a to_b \<longleftrightarrow>
     way_inv epoch n k a b to_b \<and> way_inv epoch n k b a to_a \<and> hv_source a \<noteq> hv_source b \<and>
     (hv_source a \<and> hv_local_ready a \<longrightarrow> hv_peer_ready a) \<and> (hv_source b \<and> hv_local_ready b \<longrightarrow> hv_peer_ready b)"

lemma pair_inv_swap: "pair_inv epoch n k a b to_a to_b \<longleftrightarrow> pair_inv epoch n k b a to_b to_a"
  by (auto simp: pair_inv_def)

lemma reliable_append [simp]: "reliable (xs @ ys) = reliable xs @ reliable ys"
  by (simp add: reliable_def)

lemma reliable_deliver:
  assumes "deliverable i fs"
  shows "reliable fs = (if is_heartbeat (fr_message (fs ! i)) then [] else [fs ! i]) @ reliable (without i fs)"
proof -
  have "reliable fs = reliable (take i fs @ fs ! i # drop (Suc i) fs)"
    using assms by (simp add: deliverable_def flip: id_take_nth_drop)
  also have "\<dots> = (if is_heartbeat (fr_message (fs ! i)) then [] else [fs ! i]) @ reliable (without i fs)"
    using assms by (auto simp: deliverable_def without_def reliable_def)
  finally show ?thesis .
qed

lemma list_all_without: "i < length fs \<Longrightarrow> list_all P fs \<longleftrightarrow> P (fs ! i) \<and> list_all P (without i fs)"
  by (subst id_take_nth_drop [of i fs]) (auto simp: without_def)

lemma way_inv_lost:
  assumes "way_inv epoch n k a b fs" "deliverable i fs"
  shows "way_inv epoch n k a b (without i fs)"
  using assms reliable_deliver [OF assms(2)] list_all_without [of i fs]
  by (auto simp: way_inv_def deliverable_def split: if_splits)

lemma way_inv_later: "way_inv epoch n k a b fs \<Longrightarrow> way_inv epoch n (Suc k) a b fs"
  by (auto simp: way_inv_def)

lemma heartbeat_known_mono:
  assumes "list_all (heartbeat_known a b) fs" "hv_token a \<le> hv_token a'" "hv_token b \<le> hv_token b'"
  shows "list_all (heartbeat_known a' b') fs"
  using assms(1)
proof (rule list.pred_mono_strong)
  fix f assume "heartbeat_known a b f"
  then show "heartbeat_known a' b' f"
    using assms(2,3) by (auto simp: heartbeat_known_def split: message.splits)
qed

lemma heartbeat_known_frame [simp]:
  "heartbeat_known (a\<lparr>hv_heartbeat := h\<rparr>) b = heartbeat_known a b"
  "heartbeat_known b (a\<lparr>hv_heartbeat := h\<rparr>) = heartbeat_known b a"
  "heartbeat_known (a\<lparr>hv_incoming := m, hv_peer_ready := r\<rparr>) b = heartbeat_known a b"
  "heartbeat_known b (a\<lparr>hv_incoming := m, hv_peer_ready := r\<rparr>) = heartbeat_known b a"
  "heartbeat_known (a\<lparr>hv_local_ready := r, hv_outgoing := m\<rparr>) b = heartbeat_known a b"
  "heartbeat_known b (a\<lparr>hv_local_ready := r, hv_outgoing := m\<rparr>) = heartbeat_known b a"
  "heartbeat_known (a\<lparr>hv_confirmed := c\<rparr>) b = heartbeat_known a b"
  "heartbeat_known b (a\<lparr>hv_confirmed := c\<rparr>) = heartbeat_known b a"
  by (simp_all add: fun_eq_iff heartbeat_known_def split: message.split)

text \<open>A half is only ever given what it accepts.\<close>

lemma pair_inv_accepts:
  assumes "pair_inv epoch n k a b to_a to_b" "deliverable i to_a" "unat n < 2 ^ 64 - 1"
  shows "half_accepts a (InFrame (to_a ! i))"
proof (cases "is_heartbeat (fr_message (to_a ! i))")
  case True
  moreover have "heartbeat_known b a (to_a ! i)"
    using assms(1,2) list_all_without [of i to_a] by (auto simp: pair_inv_def way_inv_def deliverable_def)
  ultimately show ?thesis
    by (auto simp: heartbeat_known_def elim: is_heartbeat.elims)
next
  case False
  then have "to_a ! i = frame_new epoch n MsgSessionReady" "hv_local_ready b" "\<not> hv_peer_ready a"
    using assms(1) reliable_deliver [OF assms(2)] by (auto simp: pair_inv_def way_inv_def)
  then show ?thesis
    using assms(1,3) by (auto simp: pair_inv_def way_inv_def frame_new_def)
qed

lemma pair_inv_room:
  assumes "pair_inv epoch n k a b to_a to_b" "unat n < 2 ^ 64 - 1" "Suc k < 2 ^ 64 - 1"
  shows "half_room a"
  using assms by (auto simp: pair_inv_def way_inv_def half_room_def)

lemma unat_next: "unat (x :: u64) < 2 ^ 64 - 1 \<Longrightarrow> unat (x + 1) = Suc (unat x)"
  by (simp add: unat_word_ariths)

lemma next_le: "unat (x :: u64) < 2 ^ 64 - 1 \<Longrightarrow> x \<le> x + 1 \<and> x < x + 1"
  using unat_next [of x] by (simp add: word_le_nat_alt word_less_nat_alt)

lemma pair_inv_tick:
  assumes "pair_inv epoch n k a b to_a to_b" "half_room a"
  shows "pair_inv epoch n (Suc k) (a\<lparr>hv_token := hv_token a + 1, hv_heartbeat := hv_heartbeat a + 1\<rparr>) b to_a
    (to_b @ [frame_new (hv_epoch a) (hv_heartbeat a) (MsgPing (hv_token a))])"
proof -
  let ?w = "a\<lparr>hv_token := hv_token a + 1\<rparr>" and ?f = "\<lambda>e h. frame_new e h (MsgPing (hv_token a))"
  have later: "unat (hv_token a + 1) = Suc (unat (hv_token a))" "unat (hv_heartbeat a + 1) = Suc (unat (hv_heartbeat a))"
      "hv_token a \<le> hv_token a + 1" "hv_token a < hv_token a + 1"
    using assms(2) unat_next next_le by (simp_all add: half_room_def)
  then have sent: "heartbeat_known ?w b (?f e h)" "reliable [?f e h] = []" for e h
    by (simp_all add: heartbeat_known_def reliable_def frame_new_def)
  have known: "list_all (heartbeat_known a b) fs \<Longrightarrow> list_all (heartbeat_known ?w b) fs"
      "list_all (heartbeat_known b a) fs \<Longrightarrow> list_all (heartbeat_known b ?w) fs" for fs
    by (erule heartbeat_known_mono; use later in simp)+
  show ?thesis
    using assms(1) later by (auto simp: pair_inv_def way_inv_def sent known)
qed

lemma pair_inv_announce:
  assumes "pair_inv epoch n k a b to_a to_b" "half_able a"
  shows "pair_inv epoch n (Suc k) (a\<lparr>hv_local_ready := True, hv_outgoing := hv_outgoing a + 1\<rparr>) b to_a
    (to_b @ [frame_new (hv_epoch a) (hv_outgoing a) MsgSessionReady])"
proof -
  have sent: "heartbeat_known a b (frame_new e h MsgSessionReady)"
      "reliable [frame_new e h MsgSessionReady] = [frame_new e h MsgSessionReady]" for e h
    by (simp_all add: heartbeat_known_def reliable_def frame_new_def)
  show ?thesis
    using assms by (auto simp: pair_inv_def way_inv_def half_able_def sent)
qed

lemma pair_inv_lost:
  assumes "pair_inv epoch n k a b to_a to_b" "deliverable i to_a"
  shows "pair_inv epoch n (Suc k) a b (without i to_a) to_b"
  using assms way_inv_lost [of epoch n k b a to_a i] by (auto simp: pair_inv_def intro: way_inv_later)

lemma pair_inv_answer:
  assumes "pair_inv epoch n k a b to_a to_b" "deliverable i to_a" "fr_message (to_a ! i) = MsgPing token" "half_room a"
  shows "pair_inv epoch n (Suc k) (a\<lparr>hv_heartbeat := hv_heartbeat a + 1\<rparr>) b (without i to_a)
    (to_b @ [frame_new (hv_epoch a) (hv_heartbeat a) (MsgPong token)])"
proof -
  have "heartbeat_known b a (to_a ! i)"
    using assms(1,2) list_all_without [of i to_a] by (auto simp: pair_inv_def way_inv_def deliverable_def)
  then have known: "token < hv_token b"
    by (simp add: heartbeat_known_def assms(3))
  have later: "unat (hv_heartbeat a + 1) = Suc (unat (hv_heartbeat a))"
    using assms(4) by (intro unat_next) (simp add: half_room_def)
  have sent: "heartbeat_known a b (frame_new e h (MsgPong token))" "reliable [frame_new e h (MsgPong token)] = []" for e h
    using known by (simp_all add: heartbeat_known_def reliable_def frame_new_def)
  show ?thesis
    using pair_inv_lost [OF assms(1,2)] assms(1) later by (auto simp: pair_inv_def way_inv_def sent)
qed

lemma pair_inv_ready:
  assumes "pair_inv epoch n k a b to_a to_b" "deliverable i to_a" "fr_message (to_a ! i) = MsgSessionReady"
  shows "pair_inv epoch n (Suc k) (a\<lparr>hv_incoming := hv_incoming a + 1, hv_peer_ready := True\<rparr>) b (without i to_a) to_b"
proof -
  have "reliable to_a \<noteq> []"
    using reliable_deliver [OF assms(2)] assms(3) by simp
  then show ?thesis
    using pair_inv_lost [OF assms(1,2)] assms(1) reliable_deliver [OF assms(2)] assms(3)
    by (auto simp: pair_inv_def way_inv_def)
qed

lemma pair_inv_credit:
  "pair_inv epoch n k a b to_a to_b \<Longrightarrow> pair_inv epoch n k (a\<lparr>hv_confirmed := c\<rparr>) b to_a to_b"
  by (auto simp: pair_inv_def way_inv_def list_all_iff)

text \<open>What is left on the way to a half that acts on an input.\<close>

definition inbox_after :: "half_input \<Rightarrow> frame list \<Rightarrow> frame list \<Rightarrow> bool" where
  "inbox_after i fs inbox \<longleftrightarrow> (case i of
       InFrame f \<Rightarrow> (\<exists>j. deliverable j fs \<and> f = fs ! j \<and> inbox = without j fs) | _ \<Rightarrow> inbox = fs)"

lemma pair_inv_later: "pair_inv epoch n k a b to_a to_b \<Longrightarrow> pair_inv epoch n (Suc k) a b to_a to_b"
  by (auto simp: pair_inv_def intro: way_inv_later)

lemma pair_inv_move:
  assumes "pair_inv epoch n k a b to_a to_b" "half_room a" "half_move a i w fs" "inbox_after i to_a inbox"
  shows "pair_inv epoch n (Suc k) w b inbox (to_b @ fs)"
  using assms(3)
proof (cases rule: half_move.cases)
  case stay
  then show ?thesis
    using assms(1,4) by (cases i) (auto simp: inbox_after_def intro: pair_inv_later pair_inv_lost)
next
  case challenge
  then show ?thesis
    using pair_inv_tick [OF assms(1,2)] assms(4) by (simp add: inbox_after_def)
next
  case announce
  then show ?thesis
    using pair_inv_announce [OF assms(1)] assms(4) by (simp add: inbox_after_def)
next
  case (answer f token)
  then show ?thesis
    using pair_inv_answer [OF assms(1) _ _ assms(2)] assms(4) by (auto simp: inbox_after_def)
next
  case (credit f token c)
  then show ?thesis
    using assms(4) by (auto simp: inbox_after_def intro!: pair_inv_credit pair_inv_lost [OF assms(1)])
next
  case (ready f)
  then show ?thesis
    using pair_inv_ready [OF assms(1)] assms(4) by (auto simp: inbox_after_def)
qed

lemma half_move_role: "half_move v i w fs \<Longrightarrow> hv_source w = hv_source v"
  by (auto elim: half_moveE)

subsection \<open>Runs\<close>

definition hs_inv :: "session_epoch \<Rightarrow> u64 \<Rightarrow> nat \<Rightarrow> handshake \<Rightarrow> bool" where
  "hs_inv epoch n k h \<longleftrightarrow> half_sound (hs_source h) \<and> half_sound (hs_receiver h) \<and> hv_source (half_view (hs_source h)) \<and>
     pair_inv epoch n k (half_view (hs_source h)) (half_view (hs_receiver h)) (hs_to_source h) (hs_to_receiver h)"

lemma hs_act_inv:
  assumes "hs_inv epoch n k h" "unat n < 2 ^ 64 - 1" "Suc k < 2 ^ 64 - 1" "inbox_after i (frames_to side h) inbox"
  shows "hs_inv epoch n (Suc k) (hs_act side i now inbox h)"
proof -
  obtain out t where op: "half_op i now (half_at side h) = (out, t)"
    by fastforce
  let ?a = "half_view (half_at side h)" and ?b = "half_view (half_at (case side of AtSource \<Rightarrow> AtReceiver | AtReceiver \<Rightarrow> AtSource) h)"
  let ?to_b = "frames_to (case side of AtSource \<Rightarrow> AtReceiver | AtReceiver \<Rightarrow> AtSource) h"
  have inv: "pair_inv epoch n k ?a ?b (frames_to side h) ?to_b" and sound: "half_sound (half_at side h)"
    using assms(1) by (cases side; simp add: hs_inv_def pair_inv_swap)+
  have accepts: "half_accepts ?a i"
    using pair_inv_accepts [OF inv _ assms(2)] assms(4) by (cases i) (auto simp: inbox_after_def)
  have room: "half_room ?a"
    by (rule pair_inv_room [OF inv assms(2,3)])
  have "half_sound t" "half_move ?a i (half_view t) (frames_sent out)"
    using half_op_refines [OF sound room accepts op] by simp_all
  then show ?thesis
    using pair_inv_move [OF inv room _ assms(4)] half_move_role [of ?a i "half_view t" "frames_sent out"] assms(1) op
    by (cases side) (simp_all add: hs_inv_def hs_act_def pair_inv_swap)
qed

lemma hs_lose_inv:
  assumes "hs_inv epoch n k h" "deliverable i (frames_to side h)"
  shows "hs_inv epoch n (Suc k) (hs_put side (half_at side h) (without i (frames_to side h)) [] h)"
  using assms pair_inv_lost [of epoch n k _ _ "frames_to side h"]
  by (cases side) (simp_all add: hs_inv_def, metis pair_inv_swap)

lemma hs_step_inv:
  assumes "hs_inv epoch n k h" "unat n < 2 ^ 64 - 1" "Suc k < 2 ^ 64 - 1"
  shows "hs_inv epoch n (Suc k) (hs_step ev h)"
proof -
  have "hs_inv epoch n (Suc k) h"
    using assms(1) by (auto simp: hs_inv_def intro: pair_inv_later)
  then show ?thesis
    using assms by (cases ev) (auto intro!: hs_act_inv hs_lose_inv simp: inbox_after_def)
qed

lemma hs_run_inv:
  assumes "hs_inv epoch n k h" "unat n < 2 ^ 64 - 1" "k + length evs < 2 ^ 64 - 1"
  shows "hs_inv epoch n (k + length evs) (hs_run evs h)"
  using assms(1,3)
proof (induction evs arbitrary: k h)
  case (Cons ev evs)
  then show ?case
    using Cons.IH [of "Suc k" "hs_step ev h"] hs_step_inv [OF Cons.prems(1) assms(2)] by (simp add: hs_run_def)
qed (simp add: hs_run_def)

lemma hs_start_inv: "hs_inv epoch n 0 (hs_start epoch n now_source now_receiver)"
  by (simp add: hs_inv_def hs_start_def half_sound_def pair_inv_def way_inv_def startup_new_def half_defs
      peer_health_new_def reliable_def)

lemma into_ready_view:
  assumes "into_ready now s = (Some (Inr c), t)" "half_sound s"
  shows "hv_local_ready (half_view s) \<and> hv_peer_ready (half_view s) \<and> hv_confirmed (half_view s) \<and>
    rdy_epoch c = hv_epoch (half_view s) \<and> rdy_next_incoming c = hv_incoming (half_view s) \<and>
    rdy_next_outgoing c = hv_outgoing (half_view s) \<and> is_confirmed (rdy_health c)"
proof -
  let ?v = "half_view s"
  have check: "half_step ?v (\<lambda>r u. r = (hv_local_ready ?v \<and> hv_peer_ready ?v \<and> hv_confirmed ?v) \<and> su_in ?v u) (startup_is_ready now)"
    unfolding startup_is_ready_def
    by (intro always_seq [OF startup_check_step] always_get_bind) (auto simp: half_defs is_confirmed_def)
  have "su_failure s = None"
    using assms(1) by (cases "su_failure s")
      (simp_all add: into_ready_def startup_is_ready_def h_seq_def h_bind_def startup_check_failed)
  then have "su_in ?v s"
    using assms(2) by (simp add: half_sound_def su_out_def)
  then show ?thesis
    using assms(1) alwaysD [OF check, of s "fst (startup_is_ready now s)" "snd (startup_is_ready now s)"]
    by (auto simp: into_ready_def startup_fail_def handler_defs half_defs is_confirmed_def
        split: prod.splits option.splits sum.splits if_splits)
qed

lemma hs_inv_order:
  assumes "hs_inv epoch n k h"
  shows "su_local_ready (hs_source h) \<longrightarrow> su_peer_ready (hs_source h)"
    and "su_peer_ready (hs_source h) \<longrightarrow> su_local_ready (hs_receiver h)"
    and "su_peer_ready (hs_receiver h) \<longrightarrow> su_local_ready (hs_source h)"
  using assms by (simp_all add: hs_inv_def pair_inv_def way_inv_def half_view_def Let_def)

lemma hs_inv_counts:
  assumes "hs_inv epoch n k h"
  shows "hv_epoch (half_view (half_at side h)) = epoch"
    and "hv_outgoing (half_view (half_at side h)) = (if su_local_ready (half_at side h) then n + 1 else n)"
    and "hv_incoming (half_view (half_at side h)) = (if su_peer_ready (half_at side h) then n + 1 else n)"
  using assms by (cases side; simp add: hs_inv_def pair_inv_def way_inv_def half_view_def Let_def)+

text \<open>
  C10: Startup of the two halves of a session, with every interleaving of polls, announcements, deliveries
  in any order the transport allows and lost heartbeats, at any times: neither half ever takes the other
  for misbehaving (a half fails only for its clock, a deadline or the rate limit); the source announces
  itself only after it heard the receiver announce; and a half that becomes ready has confirmed health,
  knows both announced, and its counters agree with what the other half counts.
\<close>

theorem startup_halves_agree:
  fixes epoch :: session_epoch and n :: u64
  assumes "unat n < 2 ^ 64 - 1" "length evs < 2 ^ 64 - 1"
    and "h = hs_run evs (hs_start epoch n now_source now_receiver)"
  shows "(\<forall>side e. su_failure (half_at side h) = Some e \<longrightarrow> timely e) \<and>
    (su_local_ready (hs_source h) \<longrightarrow> su_peer_ready (hs_source h)) \<and>
    (su_peer_ready (hs_source h) \<longrightarrow> su_local_ready (hs_receiver h)) \<and>
    (su_peer_ready (hs_receiver h) \<longrightarrow> su_local_ready (hs_source h)) \<and>
    (\<forall>side now c t. into_ready now (half_at side h) = (Some (Inr c), t) \<longrightarrow>
       su_local_ready (hs_source h) \<and> su_local_ready (hs_receiver h) \<and> is_confirmed (rdy_health c) \<and>
       rdy_epoch c = epoch \<and> rdy_next_incoming c = n + 1 \<and> rdy_next_outgoing c = n + 1)"
proof -
  have inv: "hs_inv epoch n (length evs) h"
    using hs_run_inv [OF hs_start_inv assms(1)] assms(2,3) by simp
  note order = hs_inv_order [OF inv]
  have sound: "half_sound (half_at side h)" for side
    using inv by (cases side) (simp_all add: hs_inv_def)
  have fails: "timely e" if "su_failure (half_at side h) = Some e" for side e
    using sound [of side] that by (simp add: half_sound_def su_in_def su_out_def)
  have "su_local_ready (hs_source h) \<and> su_local_ready (hs_receiver h) \<and> is_confirmed (rdy_health c) \<and>
      rdy_epoch c = epoch \<and> rdy_next_incoming c = n + 1 \<and> rdy_next_outgoing c = n + 1"
    if "into_ready now (half_at side h) = (Some (Inr c), t)" for side now c t
    using into_ready_view [OF that sound] hs_inv_counts [OF inv, of side] order
    by (cases side) (auto simp: half_view_def Let_def)
  then show ?thesis
    using fails order by simp
qed

text \<open>Evaluation of the handlers on a known state.\<close>

lemmas half_run = handler_defs [THEN fun_cong] startup_poll_def [THEN fun_cong] startup_receive_def [THEN fun_cong]
  startup_message_def [THEN fun_cong] startup_outgoing_def [THEN fun_cong] startup_check_def [THEN fun_cong]
  su_health_def [THEN fun_cong] su_upd_def [THEN fun_cong] or_startup_fail_def [THEN fun_cong]
  startup_fail_def [THEN fun_cong] announce_if_able_def [THEN fun_cong] can_announce_ready_def [THEN fun_cong]
  announce_ready_def [THEN fun_cong] into_ready_def [THEN fun_cong] startup_is_ready_def [THEN fun_cong]

lemmas hs_eval = half_run hs_act_def deliverable_def without_def reliable_def frames_sent_def
  health_defs is_confirmed_def frame_new_def frame_delivery_def gate_accept_heartbeat_def check_epoch_def gate_advance_def
  allow_at_def rate_spend_def rate_refill_def millis_u64_def checked_add_def Let_def word_le_nat_alt word_less_nat_alt
  rbind_def saturating_add_def saturating_mul_def saturating_sub_def min_def

definition sample_events :: "hs_event list" where
  "sample_events =
     [HsPoll AtSource 1, HsPoll AtReceiver 1, HsDeliver AtReceiver 0 2, HsDeliver AtSource 0 2, HsDeliver AtSource 0 3,
      HsDeliver AtReceiver 0 3, HsAnnounce AtReceiver 4, HsDeliver AtSource 0 5, HsAnnounce AtSource 6, HsDeliver AtReceiver 0 7]"

definition sample_end :: handshake where
  "sample_end = hs_run sample_events (hs_start 1 3 0 0)"

definition sample_ready :: "side \<Rightarrow> (u64 \<times> u64) option" where
  "sample_ready side = (case into_ready 8 (half_at side sample_end) of
     (Some (Inr c), _) \<Rightarrow> Some (rdy_next_incoming c, rdy_next_outgoing c) | _ \<Rightarrow> None)"

lemma sample_both_ready: "sample_ready AtSource = Some (4, 4) \<and> sample_ready AtReceiver = Some (4, 4)"
  by (simp add: sample_ready_def sample_end_def sample_events_def hs_run_def hs_start_def startup_new_def
      peer_health_new_def rate_limiter_new_def activate_epoch_def sequence_gate_default_def hs_eval)

theorem startup_halves_agree_witness:
  "(\<nexists>side e. su_failure (half_at side sample_end) = Some e \<and> \<not> timely e) \<and>
   sample_ready AtSource = Some (4, 4) \<and> sample_ready AtReceiver = Some (4, 4)"
  using startup_halves_agree [of 3 sample_events sample_end 1 0 0] sample_both_ready
  by (simp add: sample_end_def) (simp add: sample_events_def)

end
