(* ===== verification/Spec2Isabelle.thy ===== *)
theory Spec2Isabelle
  imports Gestures Held_Input Ownership Take_Back Topology Frame_Round_Trip Session_Gates Clipboard
    Control_As_Command Physical_Views Latches Clicks Capture_Control
    Outbox Session_Wire
    Receiver_Replies Startup_Handshake
begin

text \<open>
  \<^bold>\<open>MonHop\<close> shares one keyboard and mouse between several computers. A computer whose devices are in use
  is a source: its native hooks capture events, withhold them from local apps while the pointer is on
  another computer, and send them over an authenticated QUIC connection. A computer that is controlled is
  a receiver: it admits the frames of its paired source and injects them. This development models the
  platform-neutral part: all of \<open>crates/monhop-core\<close> but its drawing and pointer-speed arithmetic, all of
  \<open>crates/monhop-protocol\<close>, and of \<open>crates/monhop-transport\<close> the send queue, the stream framing,
  peer liveness, session startup and the receiving half of a session. Paths below are under \<open>src/crates/\<close>.

  \<^bold>\<open>Conventions.\<close> A \<open>Result\<close> is a sum with the error on the left (\<open>Prelude\<close>), an integer of the source is a
  word of its width, a double is its 64 bits with IEEE rounding (\<open>Float64\<close>), a duration or instant is a
  number of nanoseconds whose truncated subtraction is \<open>saturating_sub\<close>. A panic or a loop that does not end
  is an outer \<open>None\<close>. A method that changes its object returns the object beside its result; where a
  component has many such methods they are handlers in the sense of \<open>Handlers\<close>, and the calculus of
  \<open>always\<close> there carries proofs through their sequencing. A definition has the name of the function it
  translates, with a prefix where Isabelle or another component has the name already.

  \<^bold>\<open>Core values.\<close>
  \<^item> \<open>Core_Types\<close>, \<open>Gestures\<close> (\<open>monhop-core/src/types.rs\<close>, \<open>pointer.rs\<close>): identifiers, HID classes, buttons,
    modifiers, points; gestures with the one validation rule. \<open>Wire_Enum\<close> states once what a pair of
    \<open>to_wire\<close> and \<open>from_wire\<close> promises; every enumeration of the program interprets it.
  \<^item> \<open>Held_Input\<close> (\<open>input.rs\<close>): the ledger of what is physically down and what the destination was told,
    handoff plans, the emergency chord. The stream of actions is well behaved for a destination that
    knows only what it was told, a handoff moves exactly what is held, the chord fires once.
  \<^item> \<open>Ownership\<close> (\<open>ownership.rs\<close>): the epoch-guarded handoff of the pointer. Acknowledgements work once,
    a failure brings the pointer home, the states are consistent.
  \<^item> \<open>Atomic_Cell\<close>, \<open>Floor\<close>, \<open>Take_Back\<close> (\<open>floor.rs\<close>, \<open>take_back.rs\<close>): one atomic word decides which
    direction may share with which peer; the take-back gate returns control to the local user. Threads
    interleave at single atomic accesses. Decisions from an outdated word fail, the word moves along the
    allowed edges only, and no injected press lands between a take-back that closed with nothing held and
    the next activation.
  \<^item> \<open>Topology\<close> (\<open>topology.rs\<close>): validated displays and links, and the decision which link one motion
    crosses, with the rounding of the doubles. A layout is accepted exactly when it is sound in the sense of
    its positions and sizes; every motion is decided and enters inside its destination.
  \<^item> \<open>Chord\<close>, \<open>Control_As_Command\<close> (\<open>chord.rs\<close>, \<open>control_as_command.rs\<close>, \<open>dimming.rs\<close>): planned chords and
    the translation of shortcuts between platforms; neither strands a key.
  \<^item> \<open>Latches\<close>, \<open>Clicks\<close> (\<open>gesture_latch.rs\<close>, \<open>display_settle.rs\<close>, \<open>clicks.rs\<close>): touch sessions keep their
    route, display flaps are told from changes, forwarded clicks land on the display. An index out of
    range in \<open>clicks.rs\<close> is a result of its own, shown not to arise.

  \<^bold>\<open>Capture.\<close>
  \<^item> \<open>Capture_Event\<close>, \<open>Capture_Stop\<close>, \<open>Capture_Queue\<close> (\<open>capture.rs\<close>, \<open>revocation.rs\<close>): events and their slot
    words, the first-reason-wins stop, the suppression lease, and the ring of 512 slots between the hook and
    the session, interleaved at single accesses: a lossless bounded FIFO that publishes on the right route.
  \<^item> \<open>Physical_Capture\<close>, \<open>Physical_Views\<close> (\<open>capture_physical.rs\<close>): the callback's ledger and its whole
    event handler. Local apps and the reader of the queue have down exactly what it records of them.
  \<^item> \<open>Capture_Control\<close> (\<open>capture_control.rs\<close>): the one-place mailbox to the capture thread, store by store.

  \<^bold>\<open>Protocol.\<close>
  \<^item> \<open>Wire_Bytes\<close>, \<open>Protocol_Types\<close>, \<open>Frame_Codec\<close>, \<open>Frame_Round_Trip\<close> (\<open>monhop-protocol/src/lib.rs\<close>): the
    cursor as the unread suffix, messages, validation, the codec with the order of its errors, and its round
    trips in both directions. A field is an instance of the locale \<open>field_codec\<close>. The rules of a
    setup proposal are checked by the decoder only, which is shown for every proposal.
  \<^item> \<open>Session_Gates\<close>: the sequence gate (no replay) and the rate limiter (its bound over any stretch).
  \<^item> \<open>Clipboard\<close> (\<open>clipboard.rs\<close>): the stream header, text checks, PNG dimensions.

  \<^bold>\<open>Transport.\<close>
  \<^item> \<open>Outbox\<close> (\<open>monhop-transport/src/session_outbox.rs\<close>): the merging send queue is equivalent, for whoever
    applies the frames, to one that merges nothing, and a refusal is for good.
  \<^item> \<open>Session_Wire\<close> (\<open>session_wire.rs\<close>): the incremental reader gives back the frames of the stream however
    it is cut into reads. Its proof is in the locale \<open>framed_codec\<close>, interpreted on the codec above.
  \<^item> \<open>Peer_Health\<close> (\<open>session_health.rs\<close>): challenges and replies; liveness rests on a fresh proof.
  \<^item> \<open>Session_Startup\<close>, \<open>Startup_Handshake\<close> (\<open>session_startup.rs\<close>): one half of the startup, its abstract
    moves, the refinement of the moves by the handlers, and the two halves joined by the frames under way.
  \<^item> \<open>Input_Receiver\<close> (\<open>session_receiver.rs\<close>): every method of the receiver. \<open>Receiver_Calculus\<close> has the proof
    rules and the locales \<open>receiver_keeps\<close> and \<open>receiver_keeps_all\<close> (a condition kept by the steps is kept by
    every method); \<open>Receiver_Safety\<close>, \<open>Receiver_Silence\<close> and \<open>Receiver_Replies\<close> interpret them for where
    the pointer may be put, what is cleaned up, when nothing but releases is injected, which replies are
    given, the order of gesture phases, and that the methods return. \<open>Destination_View\<close> says what may be
    down at the destination after a log of applied actions, \<open>Receiver_Floor\<close> what the retry loops leave in
    the floor word; cleanup and replies are stated over these, not over the receiver's own record.
  \<^item> The end of this theory joins the send queue, the codec and the reader: accepted input arrives.

  \<^bold>\<open>Bounds and fuel.\<close> The read loop has one unit of fuel per byte of the largest frame, enough because every
  read but the last brings a byte. A retry loop on the floor runs over the list of what other threads do to
  the word before each attempt; its result is \<open>None\<close> exactly when every listed attempt was disturbed, and
  termination is proved for lists that leave one attempt alone. Startup is proved for fewer than \<open>2 ^ 64 - 1\<close>
  events, so that no counter wraps. Everything else is structural or has a termination proof.

  \<^bold>\<open>Parameters.\<close> The QUIC stream, the native destination and the changes other threads make to shared words
  are arguments of the definitions; what the theorems need of them are named hypotheses, each satisfied by the
  concrete instance of the witness. Atomic accesses are sequentially consistent steps in program order,
  which is what the orderings of the source give for the words involved. In the receiver the changes of the
  floor by the capture callback are modelled before each attempt of a retry loop, with the same list for
  every loop of one call, and freely between calls; not at other points inside a call.

  \<^bold>\<open>Not modelled.\<close>
  \<^item> \<open>pointer_ballistics.rs\<close>, \<open>pointer_speed.rs\<close>, \<open>pointer_mark.rs\<close>: powers, hypotenuses and drawing curves
    whose results the libm of the platform decides.
  \<^item> \<open>NativeSessionClaim\<close>, the permits and \<open>OwnerWake\<close> of \<open>capture.rs\<close>: reference counts and thread wake-ups.
  \<^item> The sending controller (\<open>session_source.rs\<close>) and the coordinators above both halves (\<open>session.rs\<close>,
    \<open>session_runtime.rs\<close>, \<open>session_group.rs\<close>, \<open>session_hub.rs\<close>, \<open>session_link.rs\<close>, \<open>session_setup.rs\<close> and their
    actors): asynchronous tasks over QUIC, timers and native workers.
  \<^item> Cryptography, certificates, pairing over SPAKE2, sockets, interface policy and key storage.
  \<^item> The platform crates, the desktop app, its user interface, the site, scripts and vendored crates: native
    calls and I/O.
\<close>

section \<open>From the send queue to the reader\<close>

lemma write_within_ok:
  assumes "write_within send_all f = (Inr bs, c)" "frame_wf f"
  shows "frame_sendable f" "bs = wire_bytes_of f"
  using assms
  by (auto simp: write_within_def frame_sendable_def wire_bytes_of_def split: prod.splits sum.splits write_outcome.splits)

lemma written_frames:
  "list_all2 (\<lambda>f bs. write_within send_all f = (Inr bs, False)) fs chunks \<Longrightarrow> list_all frame_wf fs \<Longrightarrow>
     list_all frame_sendable fs \<and> concat chunks = concat (map wire_bytes_of fs)"
  by (induction rule: list_all2_induct) (auto dest: write_within_ok)

text \<open>
  C3: Input accepted for sending arrives whole. Run a link's send queue in any way that leaves it
  empty, write each frame it hands out to the stream, and let the peer read the stream in reads of
  any sizes: the peer reads frames without an error until the stream closes, and they show it exactly
  the input that was accepted, in order, each piece with the position in force before it, and the
  same final position.
\<close>

theorem accepted_input_arrives:
  assumes run: "queue_run capacity ops = (q, accepted, sent)" "sq_frames q = []" and wf: "list_all frame_wf accepted"
    and written: "list_all2 (\<lambda>f bs. write_within send_all f = (Inr bs, False)) sent chunks"
    and stream: "ordered_stream recv content" "content s = concat chunks"
  shows "\<exists>frames. fst (read_frames (length sent + 1) recv frame_reader_new s) =
      map (\<lambda>f. Some (Inr f)) frames @ [Some (Inl WireClosed)] \<and>
    input_view None frames = input_view None accepted"
proof -
  have merges: "merges accepted sent"
    using queue_run_inv [of capacity ops] run by (simp add: queue_inv_def)
  have "list_all frame_wf sent"
    using merges_subseq [OF merges] wf by (auto simp: list_all_iff dest: list_emb_set)
  note sent = written_frames [OF written this]
  have "reader_fresh frame_reader_new" by (simp add: reader_fresh_def frame_reader_new_def)
  moreover have "0 < length (wire_bytes_of sample_frame)"
    using session_codec.has_header [OF sample_sendable] by (auto simp: HEADER_LEN_def)
  ultimately have "fst (read_frames (length sent + 1) recv frame_reader_new s) =
      map (\<lambda>f. Some (Inr f)) sent @ [Some (Inl WireClosed)]"
    using read_frames_stream [OF stream(1) sample_sendable, of 0 sent frame_reader_new s 0] sent stream(2) by auto
  then show ?thesis using merges_view [OF merges] by metis
qed

theorem accepted_input_arrives_witness:
  "\<exists>frames. fst (read_frames 2 trickle frame_reader_new (wire_bytes_of sample_frame)) =
      map (\<lambda>f. Some (Inr f)) frames @ [Some (Inl WireClosed)] \<and>
    input_view None frames = input_view None [sample_frame]"
proof -
  have run: "queue_run 1 [OpPush sample_frame 0, OpPop] =
      (\<lparr>sq_frames = [], sq_capacity = 1, sq_in_flight = Some 0, sq_refused = None\<rparr>, [sample_frame], [sample_frame])"
    by (simp add: queue_run_def send_queue_new_def send_queue_push_def send_queue_pop_def)
  have wf: "list_all frame_wf [sample_frame]" using sample_frame_ok(1) by simp
  have "write_within (\<lambda>_. WriteDone) sample_frame = (Inr (wire_bytes_of sample_frame), False)"
    using sample_sendable
    by (auto simp: write_within_def frame_sendable_def wire_bytes_of_def split: prod.splits sum.splits)
  then have "list_all2 (\<lambda>f bs. write_within (\<lambda>_. WriteDone) f = (Inr bs, False)) [sample_frame] [wire_bytes_of sample_frame]"
    by simp
  from accepted_input_arrives [OF run _ wf this trickle_ordered, of "wire_bytes_of sample_frame"]
  show ?thesis by (simp add: numeral_2_eq_2)
qed

end
